(* ===== verification/Prelude.thy ===== *)
theory Prelude
  imports Main "HOL-Library.Word"
begin

text \<open>
  The prelude of the lauSim development: machine-integer types, the collections of rewrite
  rules the component theories share, and the part of the C library that the sources call on
  strings and numbers (\<open>getline\<close>, \<open>strtok\<close>, \<open>strchr\<close>, \<open>strstr\<close>, \<open>strcasecmp\<close>,
  \<open>strtoul\<close>/\<open>strtol\<close> with base 0 and base 10, the conversions of the \<open>printf\<close> family,
  the extraction operator of C++ streams).

  A C string is the list of its characters in front of the terminating NUL; a buffer that may
  hold a NUL is cut by \<open>c_str\<close> before it is used as a string. A file opened for reading is
  the text that has not been read yet, a file opened for writing the text written so far.
  The target is LP64 Linux: \<open>int\<close> has 32 bits, \<open>long\<close> and \<open>size_t\<close> have 64.
\<close>

section \<open>Machine integers, collections\<close>

unbundle bit_operations_syntax

type_synonym u8 = "8 word"
type_synonym u32 = "32 word"
type_synonym u64 = "64 word"

named_theorems clib_defs \<open>definitions of the C library functions\<close>
named_theorems frame \<open>what an operation leaves unchanged\<close>
named_theorems inv_intros \<open>preservation of the components' invariants\<close>

section \<open>Generic list lemmas\<close>

lemma takeWhile_append_stop [simp]:
  "list_all P xs \<Longrightarrow> \<not> P y \<Longrightarrow> takeWhile P (xs @ y # ys) = xs"
  by (induction xs) auto

lemma dropWhile_append_stop [simp]:
  "list_all P xs \<Longrightarrow> \<not> P y \<Longrightarrow> dropWhile P (xs @ y # ys) = y # ys"
  by (induction xs) auto

lemma takeWhile_all [simp]: "list_all P xs \<Longrightarrow> takeWhile P xs = xs"
  by (induction xs) auto

lemma dropWhile_all [simp]: "list_all P xs \<Longrightarrow> dropWhile P xs = []"
  by (induction xs) auto

lemma dropWhile_hd_False [simp]: "xs \<noteq> [] \<Longrightarrow> \<not> P (hd xs) \<Longrightarrow> dropWhile P (xs @ ys) = xs @ ys"
  by (cases xs) auto

lemma list_all_hd: "list_all P xs \<Longrightarrow> xs \<noteq> [] \<Longrightarrow> P (hd xs)"
  by (cases xs) auto

lemma list_all_notin [simp]: "list_all (\<lambda>c. c \<noteq> d) xs \<longleftrightarrow> d \<notin> set xs"
  by (auto simp: list_all_iff)

section \<open>Characters\<close>

abbreviation newline :: char where
  "newline \<equiv> CHR 0x0A"

abbreviation NUL :: char where
  "NUL \<equiv> CHR 0x00"

definition isspace :: "char \<Rightarrow> bool" where
  "isspace c \<longleftrightarrow> c \<in> {CHR '' '', CHR 0x09, CHR 0x0A, CHR 0x0B, CHR 0x0C, CHR 0x0D}"

definition tolower :: "char \<Rightarrow> char" where
  "tolower c = (let n = (of_char c :: nat)
                in if 65 \<le> n \<and> n \<le> 90 then char_of (n + 32) else c)"

definition c_str :: "string \<Rightarrow> string" where
  "c_str buf = takeWhile (\<lambda>c. c \<noteq> NUL) buf"

lemma c_str_id [simp]: "NUL \<notin> set s \<Longrightarrow> c_str s = s"
  by (simp add: c_str_def)

section \<open>Searching and splitting\<close>

text \<open>\<open>getline\<close>: the next line with its newline, and what is left; None at the end of the file.\<close>

definition getline :: "string \<Rightarrow> (string \<times> string) option" where
  "getline s = (if s = [] then None
     else case dropWhile (\<lambda>c. c \<noteq> newline) s of
            [] \<Rightarrow> Some (s, [])
          | c # r \<Rightarrow> Some (takeWhile (\<lambda>c. c \<noteq> newline) s @ [c], r))"

text \<open>\<open>std::getline\<close> drops the newline.\<close>

definition std_getline :: "string \<Rightarrow> (string \<times> string) option" where
  "std_getline s = (if s = [] then None
     else Some (takeWhile (\<lambda>c. c \<noteq> newline) s, drop 1 (dropWhile (\<lambda>c. c \<noteq> newline) s)))"

lemma length_dropWhile_less: "dropWhile P xs = y # ys \<Longrightarrow> length ys < length xs"
  by (metis length_dropWhile_le Suc_le_eq length_Cons)

lemma getline_less: "getline s = Some (l, r) \<Longrightarrow> length r < length s"
  by (auto simp: getline_def split: if_splits list.splits dest: length_dropWhile_less)

lemma std_getline_less: "std_getline s = Some (l, r) \<Longrightarrow> length r < length s"
  using length_dropWhile_le [of "\<lambda>c. c \<noteq> newline" s]
  by (cases s) (auto simp: std_getline_def split: if_splits)

lemma getline_line [simp]:
  "newline \<notin> set l \<Longrightarrow> getline (l @ newline # r) = Some (l @ [newline], r)"
  by (simp add: getline_def)

text \<open>
  \<open>strtok\<close> without its hidden pointer: the argument is the text the pointer would be at, the
  result the token and the text behind the delimiter that ended it.
\<close>

definition strtok :: "string \<Rightarrow> string \<Rightarrow> (string \<times> string) option" where
  "strtok delim s =
     (let s' = dropWhile (\<lambda>c. c \<in> set delim) s
      in if s' = [] then None
         else Some (takeWhile (\<lambda>c. c \<notin> set delim) s', drop 1 (dropWhile (\<lambda>c. c \<notin> set delim) s')))"

definition strchr :: "char \<Rightarrow> string \<Rightarrow> nat option" where
  "strchr c s = (let n = length (takeWhile (\<lambda>d. d \<noteq> c) s) in if n < length s then Some n else None)"

fun prefix_of :: "string \<Rightarrow> string \<Rightarrow> bool" where
  "prefix_of [] s = True"
| "prefix_of (p # ps) [] = False"
| "prefix_of (p # ps) (c # s) = (p = c \<and> prefix_of ps s)"

fun strstr :: "string \<Rightarrow> string \<Rightarrow> bool" where
  "strstr needle [] = (needle = [])"
| "strstr needle (c # s) = (prefix_of needle (c # s) \<or> strstr needle s)"

definition strcasecmp_eq :: "string \<Rightarrow> string \<Rightarrow> bool" where
  "strcasecmp_eq a b \<longleftrightarrow> map tolower a = map tolower b"

text \<open>The extraction \<open>stream >> token\<close>: None sets the fail bit and leaves the target alone.\<close>

definition extract_token :: "string \<Rightarrow> (string \<times> string) option" where
  "extract_token s =
     (let s' = dropWhile isspace s
      in if s' = [] then None
         else Some (takeWhile (\<lambda>c. \<not> isspace c) s', dropWhile (\<lambda>c. \<not> isspace c) s'))"

lemma dropWhile_less: "xs \<noteq> [] \<Longrightarrow> P (hd xs) \<Longrightarrow> length (dropWhile P xs) < length xs"
  by (cases xs) (auto simp: less_Suc_eq_le length_dropWhile_le)

lemma extract_less: "extract_token s = Some (t, r) \<Longrightarrow> length r < length s"
proof -
  assume "extract_token s = Some (t, r)"
  then have ne: "dropWhile isspace s \<noteq> []"
    and r: "r = dropWhile (\<lambda>c. \<not> isspace c) (dropWhile isspace s)"
    by (auto simp: extract_token_def Let_def split: if_splits)
  have "\<not> isspace (hd (dropWhile isspace s))" using ne by (rule hd_dropWhile)
  with ne r have "length r < length (dropWhile isspace s)" by (simp add: dropWhile_less)
  also have "\<dots> \<le> length s" by (rule length_dropWhile_le)
  finally show ?thesis .
qed

lemma strtok_token:
  "\<lbrakk>tok \<noteq> []; list_all (\<lambda>c. c \<notin> set delim) tok; d \<in> set delim\<rbrakk>
   \<Longrightarrow> strtok delim (tok @ d # r) = Some (tok, r)"
  by (cases tok) (auto simp: strtok_def Let_def)

lemma strtok_last:
  "\<lbrakk>tok \<noteq> []; list_all (\<lambda>c. c \<notin> set delim) tok\<rbrakk> \<Longrightarrow> strtok delim tok = Some (tok, [])"
  by (cases tok) (auto simp: strtok_def Let_def)

lemma strtok_Nil [simp]: "strtok delim [] = None"
  by (simp add: strtok_def)

lemma strtok_skip: "d \<in> set delim \<Longrightarrow> strtok delim (d # s) = strtok delim s"
  by (simp add: strtok_def)

lemma strchr_first: "c \<notin> set a \<Longrightarrow> strchr c (a @ c # b) = Some (length a)"
  by (simp add: strchr_def)

lemma strchr_None: "strchr c s = None \<longleftrightarrow> c \<notin> set s"
  by (induction s) (auto simp: strchr_def Let_def split: if_splits)

lemma prefix_of_append [simp]: "prefix_of p (p @ s)"
  by (induction p) auto

lemma prefix_of_hd: "prefix_of (p # ps) s \<Longrightarrow> p \<in> set s"
  by (cases s) auto

lemma strstr_sub: "p # ps = needle \<Longrightarrow> strstr needle s \<Longrightarrow> p \<in> set s"
  by (induction s) (auto dest: prefix_of_hd)

lemma strstr_append [simp]: "strstr p (a @ p @ b)"
proof (induction a)
  case Nil
  then show ?case by (cases "p @ b") (use prefix_of_append [of p b] in auto)
qed simp

end
