(* ===== verification/C_Numbers.thy ===== *)
theory C_Numbers
  imports Prelude
begin

text \<open>
  Numbers in text: the conversions \<open>%u\<close>, \<open>%zu\<close>, \<open>%d\<close>, \<open>%ld\<close> of \<open>printf\<close>, \<open>std::hex\<close>,
  and their inverses \<open>strtoul\<close>, \<open>strtoull\<close>, \<open>strtol\<close> and \<open>std::stoul\<close>, with sign, base
  prefix and overflow as the C standard gives them. The round trips at the end of the theory
  carry the recording format of the transcribe plugin and the payload of the MQTT messages.
\<close>

section \<open>Digits\<close>

definition digit_char :: "nat \<Rightarrow> char" where
  "digit_char n = char_of (if n < 10 then 48 + n else 87 + n)"

definition digit_val :: "char \<Rightarrow> nat option" where
  "digit_val c = (let n = (of_char c :: nat)
     in if 48 \<le> n \<and> n \<le> 57 then Some (n - 48)
        else if 97 \<le> n \<and> n \<le> 122 then Some (n - 87)
        else if 65 \<le> n \<and> n \<le> 90 then Some (n - 55)
        else None)"

definition is_digit :: "nat \<Rightarrow> char \<Rightarrow> bool" where
  "is_digit b c = (case digit_val c of None \<Rightarrow> False | Some d \<Rightarrow> d < b)"

fun show_base :: "nat \<Rightarrow> nat \<Rightarrow> string" where
  "show_base b n = (if n < b \<or> b < 2 then [digit_char n]
                    else show_base b (n div b) @ [digit_char (n mod b)])"

declare show_base.simps [simp del]

fun read_digits :: "nat \<Rightarrow> nat \<Rightarrow> string \<Rightarrow> nat \<times> string" where
  "read_digits b acc [] = (acc, [])"
| "read_digits b acc (c # cs) =
     (case digit_val c of
        Some d \<Rightarrow> if d < b then read_digits b (acc * b + d) cs else (acc, c # cs)
      | None \<Rightarrow> (acc, c # cs))"

section \<open>Printing\<close>

definition show_nat :: "nat \<Rightarrow> string" where
  "show_nat n = show_base 10 n"

definition show_int :: "int \<Rightarrow> string" where
  "show_int i = (if i < 0 then CHR ''-'' # show_nat (nat (- i)) else show_nat (nat i))"

text \<open>\<open>%u\<close> and \<open>%zu\<close>; \<open>%d\<close> and \<open>%ld\<close> print the same bits as a signed number.\<close>

definition show_unsigned :: "'a::len word \<Rightarrow> string" where
  "show_unsigned w = show_nat (unat w)"

definition show_signed :: "'a::len word \<Rightarrow> string" where
  "show_signed w = show_int (sint w)"

definition show_hex :: "'a::len word \<Rightarrow> string" where
  "show_hex w = show_base 16 (unat w)"

text \<open>\<open>snprintf\<close> into a buffer of \<open>n\<close> bytes keeps \<open>n - 1\<close> characters.\<close>

definition snprintf :: "nat \<Rightarrow> string \<Rightarrow> string" where
  "snprintf n s = take (n - 1) s"

section \<open>Reading\<close>

definition split_sign :: "string \<Rightarrow> bool \<times> string" where
  "split_sign s = (case s of
       [] \<Rightarrow> (False, [])
     | c # r \<Rightarrow> if c = CHR ''-'' then (True, r) else if c = CHR ''+'' then (False, r) else (False, s))"

definition detect_base :: "nat \<Rightarrow> string \<Rightarrow> nat \<times> string" where
  "detect_base base s =
     (if base \<noteq> 0 then (base, s)
      else if take 1 s \<noteq> ''0'' then (10, s)
      else case drop 1 s of
             x # d # r \<Rightarrow> if (x = CHR ''x'' \<or> x = CHR ''X'') \<and> is_digit 16 d then (16, d # r) else (8, s)
           | _ \<Rightarrow> (8, s))"

text \<open>Sign, magnitude and rest of the number at the front of a text; None if there is none.\<close>

definition read_number :: "nat \<Rightarrow> string \<Rightarrow> (bool \<times> nat \<times> string) option" where
  "read_number base s =
     (let (neg, s1) = split_sign (dropWhile isspace s);
          (b, s2) = detect_base base s1
      in if s2 = [] \<or> \<not> is_digit b (hd s2) then None
         else let (v, r) = read_digits b 0 s2 in Some (neg, v, r))"

definition strtoul :: "nat \<Rightarrow> string \<Rightarrow> (u64 \<times> string) option" where
  "strtoul base s = (case read_number base s of
       None \<Rightarrow> None
     | Some (neg, v, r) \<Rightarrow>
         Some (if 2 ^ 64 \<le> int v then - 1 else if neg then - of_nat v else of_nat v, r))"

text \<open>Without a number, \<open>strtoul\<close> returns 0 and sets the end pointer to the start.\<close>

definition strtoul_val :: "nat \<Rightarrow> string \<Rightarrow> u64" where
  "strtoul_val base s = (case strtoul base s of None \<Rightarrow> 0 | Some (v, _) \<Rightarrow> v)"

definition strtol_val :: "nat \<Rightarrow> string \<Rightarrow> int" where
  "strtol_val base s = (case read_number base s of
       None \<Rightarrow> 0
     | Some (neg, v, _) \<Rightarrow>
         if neg then max (- (2 ^ 63)) (- int v) else min (2 ^ 63 - 1) (int v))"

datatype stoul_result = Stoul u64 | Invalid_argument | Out_of_range

definition stoul :: "string \<Rightarrow> stoul_result" where
  "stoul s = (case read_number 10 s of
       None \<Rightarrow> Invalid_argument
     | Some (neg, v, _) \<Rightarrow>
         if 2 ^ 64 \<le> int v then Out_of_range
         else Stoul (if neg then - of_nat v else of_nat v))"

section \<open>Round trips\<close>

lemma digit_val_digit_char [simp]: "n < 36 \<Longrightarrow> digit_val (digit_char n) = Some n"
  by (auto simp: digit_val_def digit_char_def)

lemma is_digit_digit_char [simp]: "n < b \<Longrightarrow> b \<le> 36 \<Longrightarrow> is_digit b (digit_char n)"
  by (simp add: is_digit_def)

lemma digit_char_zero [simp]: "digit_char 0 = CHR ''0''"
  by code_simp

lemma digit_char_0: "n < 36 \<Longrightarrow> digit_char n = CHR ''0'' \<longleftrightarrow> n = 0"
proof
  assume "n < 36" "digit_char n = CHR ''0''"
  then have "Some n = digit_val (CHR ''0'')" using digit_val_digit_char by metis
  then show "n = 0" by (simp add: digit_val_def)
qed simp

lemma show_base_not_Nil [simp]: "show_base b n \<noteq> []"
  by (subst show_base.simps) simp

lemma show_base_digits:
  "\<lbrakk>2 \<le> b; b \<le> 36\<rbrakk> \<Longrightarrow> list_all (is_digit b) (show_base b n)"
proof (induction b n rule: show_base.induct)
  case (1 b n)
  then show ?case
    by (subst show_base.simps) auto
qed

lemma read_digits_show_base:
  "\<lbrakk>2 \<le> b; b \<le> 36\<rbrakk> \<Longrightarrow>
   read_digits b acc (show_base b n @ r) = read_digits b (acc * b ^ length (show_base b n) + n) r"
proof (induction b n arbitrary: acc r rule: show_base.induct)
  case (1 b n)
  show ?case
  proof (cases "n < b")
    case True
    with 1 show ?thesis by (subst (1 2) show_base.simps) simp
  next
    case False
    with 1 have IH: "read_digits b acc (show_base b (n div b) @ r')
        = read_digits b (acc * b ^ length (show_base b (n div b)) + n div b) r'" for r'
      by simp
    have "n mod b < b" using 1 by simp
    with 1 have "n mod b < 36" by linarith
    with False 1 IH show ?thesis
      by (subst (1 2) show_base.simps)
         (simp add: algebra_simps flip: mult.assoc)
  qed
qed

text \<open>A text at which a number in any base up to 36 ends.\<close>

definition num_end :: "string \<Rightarrow> bool" where
  "num_end r = (case r of [] \<Rightarrow> True | c # _ \<Rightarrow> digit_val c = None)"

lemma num_end_simps [simp]: "num_end []" "num_end (c # r) = (digit_val c = None)"
  by (simp_all add: num_end_def)

lemma read_digits_end: "num_end r \<Longrightarrow> read_digits b acc r = (acc, r)"
  by (cases r) auto

lemma hd_show_nat: "hd (show_base 10 n) = CHR ''0'' \<longleftrightarrow> n = 0"
proof (induction "10::nat" n rule: show_base.induct)
  case (1 n)
  show ?case
  proof (cases "n < 10")
    case True
    then show ?thesis by (subst show_base.simps) (simp add: digit_char_0)
  next
    case False
    with 1 show ?thesis by (subst show_base.simps) (simp add: hd_append div_greater_zero_iff)
  qed
qed

lemma digit_not_space: "is_digit b c \<Longrightarrow> \<not> isspace c"
  by (auto simp: is_digit_def digit_val_def isspace_def)

lemma digit_not_sign: "is_digit b c \<Longrightarrow> c \<noteq> CHR ''-'' \<and> c \<noteq> CHR ''+''"
  by (auto simp: is_digit_def digit_val_def)

lemma read_number_show_nat:
  assumes "num_end r"
  shows "read_number 0 (show_nat n @ r) = Some (False, n, r)"
    and "read_number 10 (show_nat n @ r) = Some (False, n, r)"
    and "read_number 0 (CHR ''-'' # show_nat n @ r) = Some (True, n, r)"
proof -
  have dig: "is_digit 10 (hd (show_nat n))"
    using list_all_hd [OF show_base_digits [of 10 n]] by (simp add: show_nat_def)
  obtain c cs where c: "show_nat n = c # cs" by (metis show_base_not_Nil show_nat_def neq_Nil_conv)
  have zero: "c = CHR ''0'' \<Longrightarrow> n = 0 \<and> cs = []"
    using hd_show_nat [of n] c by (auto simp: show_nat_def show_base.simps [of 10 0])
  have base: "detect_base 0 (show_nat n @ r) = (if n = 0 then 8 else 10, show_nat n @ r)"
    using assms c zero hd_show_nat [of n]
    by (auto simp: detect_base_def show_nat_def digit_val_def split: list.splits)
  have digits: "read_digits b 0 (show_nat n @ r) = (n, r)" if "b = 10 \<or> b = 8 \<and> n = 0" for b
    using that assms read_digits_show_base [of 10 0 n r]
    by (auto simp: show_nat_def read_digits_end show_base.simps [of 10 0] digit_val_def)
  have skip: "dropWhile isspace (show_nat n @ r) = show_nat n @ r"
    using dig c digit_not_space by simp
  have sign: "split_sign (show_nat n @ r) = (False, show_nat n @ r)"
    using dig c digit_not_sign by (auto simp: split_sign_def)
  have dig8: "n = 0 \<Longrightarrow> is_digit 8 (hd (show_nat n @ r))"
    by (simp add: show_nat_def show_base.simps [of 10 0] is_digit_def digit_val_def)
  have ne: "show_nat n @ r \<noteq> []" and dig': "is_digit 10 (hd (show_nat n @ r))"
    using dig c by simp_all
  show "read_number 0 (show_nat n @ r) = Some (False, n, r)"
    using ne dig' dig8 digits by (simp add: read_number_def skip sign base)
  show "read_number 10 (show_nat n @ r) = Some (False, n, r)"
    using ne dig' digits by (simp add: read_number_def skip sign detect_base_def)
  show "read_number 0 (CHR ''-'' # show_nat n @ r) = Some (True, n, r)"
    using ne dig' dig8 digits by (simp add: read_number_def isspace_def split_sign_def base)
qed

lemma int_lt_iff [simp]: "int n < 2 ^ k \<longleftrightarrow> n < 2 ^ k" "2 ^ k \<le> int n \<longleftrightarrow> 2 ^ k \<le> n"
  by (metis of_nat_less_iff of_nat_numeral of_nat_power, metis of_nat_le_iff of_nat_numeral of_nat_power)

lemma strtoul_show_nat:
  "\<lbrakk>num_end r; n < 2 ^ 64\<rbrakk> \<Longrightarrow> strtoul 0 (show_nat n @ r) = Some (of_nat n, r)"
  by (simp add: strtoul_def read_number_show_nat)

lemma strtoul_show_unsigned:
  "num_end r \<Longrightarrow> LENGTH('a::len) \<le> 64 \<Longrightarrow> strtoul 0 (show_unsigned (w :: 'a word) @ r) = Some (ucast w, r)"
proof -
  assume "num_end r" "LENGTH('a) \<le> 64"
  have "unat w < 2 ^ LENGTH('a)" by simp
  also have "\<dots> \<le> (2 ^ 64 :: nat)" using \<open>LENGTH('a) \<le> 64\<close> by (intro power_increasing) auto
  finally show ?thesis
    using \<open>num_end r\<close> by (simp add: show_unsigned_def strtoul_show_nat)
qed

lemma strtoul_show_int:
  "\<lbrakk>num_end r; - (2 ^ 63) \<le> i; i < 2 ^ 63\<rbrakk> \<Longrightarrow> strtoul 0 (show_int i @ r) = Some (of_int i, r)"
  by (auto simp: show_int_def strtoul_def read_number_show_nat of_nat_nat le_nat_iff)

lemma strtoul_show_signed:
  assumes "num_end r" "LENGTH('a::len) \<le> 64"
  shows "strtoul 0 (show_signed (w :: 'a word) @ r) = Some (scast w, r)"
proof -
  have "2 ^ (LENGTH('a) - 1) \<le> (2 ^ 63 :: int)"
    using assms(2) by (intro power_increasing) auto
  then have "- (2 ^ 63) \<le> sint w \<and> sint w < 2 ^ 63"
    using sint_greater_eq [of w] sint_less [of w] by simp
  with assms(1) show ?thesis
    by (simp add: show_signed_def strtoul_show_int)
qed

text \<open>
  \<open>%d\<close> prints an unsigned severity as a signed number and \<open>strtoull\<close> reads a 64-bit
  value; the cut back to 32 bits returns every severity, also one above \<open>INT_MAX\<close>.
\<close>

lemma ucast_scast_32 [simp]: "ucast (scast (w :: u32) :: u64) = w"
  by (rule bit_word_eqI) (auto simp: bit_ucast_iff bit_signed_iff)

lemma ucast_ucast_32 [simp]: "ucast (ucast (w :: u32) :: u64) = w"
  by (rule bit_word_eqI) (auto simp: bit_ucast_iff)

lemma strtoul_show_hex:
  assumes "num_end r" "LENGTH('a::len) \<le> 64"
  shows "strtoul 0 (''0x'' @ show_hex (w :: 'a word) @ r) = Some (ucast w, r)"
proof -
  have bound: "unat w < 2 ^ 64"
    by (rule less_le_trans [OF unsigned_less power_increasing [OF assms(2)]]) simp
  obtain c cs where c: "show_hex w = c # cs" by (metis show_base_not_Nil show_hex_def neq_Nil_conv)
  have dig: "is_digit 16 c"
    using list_all_hd [OF show_base_digits [of 16 "unat w"]] c by (simp add: show_hex_def)
  have "read_digits 16 0 (show_hex w @ r) = (unat w, r)"
    using assms(1) read_digits_show_base [of 16 0 "unat w" r] by (simp add: show_hex_def read_digits_end)
  then show ?thesis
    using bound c dig
    by (simp add: strtoul_def read_number_def isspace_def split_sign_def detect_base_def)
qed

lemma show_unsigned_digits: "list_all (is_digit 10) (show_unsigned w)"
  by (simp add: show_unsigned_def show_nat_def show_base_digits)

lemma show_signed_chars: "c \<in> set (show_signed w) \<Longrightarrow> is_digit 10 c \<or> c = CHR ''-''"
  using show_base_digits [of 10 "nat (- sint w)"] show_base_digits [of 10 "nat (sint w)"]
  by (auto simp: show_signed_def show_int_def show_nat_def list_all_iff split: if_splits)

lemma show_hex_digits: "list_all (is_digit 16) (show_hex w)"
  by (simp add: show_hex_def show_base_digits)

lemma show_not_Nil [simp]: "show_nat n \<noteq> []" "show_int i \<noteq> []"
  "show_unsigned w \<noteq> []" "show_signed w \<noteq> []" "show_hex w \<noteq> []"
  by (simp_all add: show_nat_def show_int_def show_unsigned_def show_signed_def show_hex_def)

end
