(* ===== verification/Lausim_Types.thy ===== *)
theory Lausim_Types
  imports C_Numbers
begin

text \<open>
  The data of \<open>include/lausim/\<close>: log levels, nodes and their components, faults, and the
  tables of function pointers through which the server talks to a fault manager and to a
  communication backend.

  A pointer with a count is a list, a \<open>char *\<close> that may be NULL a \<open>string option\<close>. A table of
  function pointers is a record of functions over the state \<open>'s\<close> of the plugin behind it:
  every plugin library is loaded with \<open>dlmopen(LM_ID_NEWLM, ...)\<close>, so its global variables are
  its own. A call of \<open>log_fun\<close> is an entry of the component's list of log calls.
\<close>

section \<open>Log levels (types.h)\<close>

datatype log_level = LL_None | LL_Debug | LL_Info | LL_Warning | LL_Error | LL_Fatal

fun ll_num :: "log_level \<Rightarrow> nat" where
  "ll_num LL_None = 0"
| "ll_num LL_Debug = 1"
| "ll_num LL_Info = 2"
| "ll_num LL_Warning = 3"
| "ll_num LL_Error = 4"
| "ll_num LL_Fatal = 5"

lemma ll_num_inj [simp]: "ll_num a = ll_num b \<longleftrightarrow> a = b"
  by (cases a; cases b) simp_all

instantiation log_level :: linorder
begin

definition less_eq_log_level :: "log_level \<Rightarrow> log_level \<Rightarrow> bool" where
  "a \<le> b \<longleftrightarrow> ll_num a \<le> ll_num b"

definition less_log_level :: "log_level \<Rightarrow> log_level \<Rightarrow> bool" where
  "a < b \<longleftrightarrow> ll_num a < ll_num b"

instance
  by standard (auto simp: less_eq_log_level_def less_log_level_def)

end

type_synonym log_call = "log_level \<times> string"

section \<open>Nodes (node.h)\<close>

datatype node_type_t = uniform_node | network_switch | pdu

abbreviation (input) NODE_STATE_UNKNOWN :: u32 where "NODE_STATE_UNKNOWN \<equiv> 0"
abbreviation (input) NODE_STATE_READY :: u32 where "NODE_STATE_READY \<equiv> 1"
abbreviation (input) NODE_STATE_ERROR :: u32 where "NODE_STATE_ERROR \<equiv> 2"
abbreviation (input) NODE_STATE_FINISHED :: u32 where "NODE_STATE_FINISHED \<equiv> 3"

record component =
  comp_name :: string
  comp_severity :: u32

record node =
  node_name :: string
  node_id :: u32
  node_type :: node_type_t
  node_state :: u32
  components :: "component list"

abbreviation num_components :: "node \<Rightarrow> u32" where
  "num_components n \<equiv> of_nat (length (components n))"

section \<open>Faults and fault managers (fault\_manager.h)\<close>

record fault =
  fault_id :: u32
  fault_name :: "string option"
  fault_component :: "string option"
  fault_node :: string
  fault_severity :: u32

text \<open>
  \<open>get_nodes\<close> returns 0 with the nodes or an error code; \<open>Nodes_crash\<close> is a call that
  dereferences NULL and takes the process down.
\<close>

datatype nodes_result = Nodes "node list" | Nodes_error int | Nodes_crash

record 's fault_manager =
  fm_version :: int
  fm_get_nodes :: "'s \<Rightarrow> nodes_result \<times> 's"
  fm_tic :: "'s \<Rightarrow> 's"
  fm_get_fail :: "'s \<Rightarrow> fault list \<times> 's"
  fm_inject_fail :: "fault \<Rightarrow> 's \<Rightarrow> int \<times> 's"

section \<open>Communication backends (com.h)\<close>

abbreviation (input) COM_NONE :: u32 where "COM_NONE \<equiv> 0"
abbreviation (input) COM_SYNC :: u32 where "COM_SYNC \<equiv> 1"
abbreviation (input) COM_ASYNC :: u32 where "COM_ASYNC \<equiv> 2"

text \<open>A callback is a code address; \<open>set_callback\<close> returns the one it replaces.\<close>

type_synonym msg_callback = nat

record 'c com =
  com_capabilities :: u32
  com_notify_fail :: "string \<Rightarrow> string option \<Rightarrow> u32 \<Rightarrow> 'c \<Rightarrow> int \<times> 'c"
  com_notify_extern :: "string \<Rightarrow> 'c \<Rightarrow> int \<times> 'c"
  com_set_mode :: "(int \<Rightarrow> 'c \<Rightarrow> int \<times> 'c) option"
  com_set_callback :: "(msg_callback option \<Rightarrow> 'c \<Rightarrow> msg_callback option \<times> 'c) option"
  com_get_msg :: "('c \<Rightarrow> string list \<times> 'c) option"

section \<open>Driving a fault manager\<close>

text \<open>
  The part of a fault the server and the recording use: node, component and severity. A fault
  manager is driven by one \<open>tic\<close> and one \<open>get_fail\<close> in every tic of the server.
\<close>

type_synonym fault_data = "string \<times> string option \<times> u32"

definition fault_data :: "fault \<Rightarrow> fault_data" where
  "fault_data f = (fault_node f, fault_component f, fault_severity f)"

definition fm_step :: "'s fault_manager \<Rightarrow> 's \<Rightarrow> fault list \<times> 's" where
  "fm_step fm s = fm_get_fail fm (fm_tic fm s)"

fun fm_run :: "'s fault_manager \<Rightarrow> nat \<Rightarrow> 's \<Rightarrow> fault list list \<times> 's" where
  "fm_run fm 0 s = ([], s)"
| "fm_run fm (Suc n) s =
     (let (fs, s1) = fm_step fm s; (fss, s2) = fm_run fm n s1 in (fs # fss, s2))"

lemma length_fm_run [simp]: "length (fst (fm_run fm n s)) = n"
  by (induction n arbitrary: s) (auto simp: split_beta Let_def)

end
