(* ===== verification/Transcribe.thy ===== *)
theory Transcribe
  imports Lausim_Types
begin

text \<open>
  The transcribe plugin (\<open>plugins/transcribe/transcribe.c\<close>): a fault manager that forwards
  every call to a nested fault manager and writes what it returns to a file. The model is a
  function of the nested manager's table, so it records any manager.
\<close>

section \<open>State and operations\<close>

text \<open>\<open>tr_file\<close> is the text written so far, \<open>tr_nested\<close> the state of the nested plugin.\<close>

record 'n transcribe =
  tr_tic_num :: u64
  tr_file :: string
  tr_nested :: 'n

definition tr_print :: "string \<Rightarrow> 'n transcribe \<Rightarrow> 'n transcribe" where
  "tr_print t s = s\<lparr>tr_file := tr_file s @ t\<rparr>"

text \<open>The line of a node: \<open>"%s,%u"\<close>, then \<open>",%s"\<close> for every component.\<close>

definition node_line :: "node \<Rightarrow> string" where
  "node_line n = node_name n @ '','' @ show_unsigned (num_components n)
     @ concat (map (\<lambda>c. '','' @ comp_name c) (components n)) @ [newline]"

definition nodes_text :: "node list \<Rightarrow> string" where
  "nodes_text ns = show_unsigned (of_nat (length ns) :: u64) @ [newline] @ concat (map node_line ns)"

definition transcribe_get_nodes :: "'n fault_manager \<Rightarrow> 'n transcribe \<Rightarrow> nodes_result \<times> 'n transcribe" where
  "transcribe_get_nodes nested s =
     (let (ret, n') = fm_get_nodes nested (tr_nested s); s' = s\<lparr>tr_nested := n'\<rparr>
      in case ret of
           Nodes ns \<Rightarrow> (ret, tr_print (nodes_text ns) s')
         | _ \<Rightarrow> (ret, s'))"

definition tic_line :: "u64 \<Rightarrow> string" where
  "tic_line k = ''[tic#'' @ show_signed k @ '']'' @ [newline]"

definition transcribe_tic :: "'n fault_manager \<Rightarrow> 'n transcribe \<Rightarrow> 'n transcribe" where
  "transcribe_tic nested s =
     (let s' = tr_print (tic_line (tr_tic_num s)) s
      in s'\<lparr>tr_tic_num := tr_tic_num s + 1, tr_nested := fm_tic nested (tr_nested s)\<rparr>)"

definition fault_line :: "fault \<Rightarrow> string" where
  "fault_line f = fault_node f @ '',''
     @ (case fault_component f of None \<Rightarrow> [] | Some c \<Rightarrow> c)
     @ '','' @ show_signed (fault_severity f) @ [newline]"

definition transcribe_get_fail :: "'n fault_manager \<Rightarrow> 'n transcribe \<Rightarrow> fault list \<times> 'n transcribe" where
  "transcribe_get_fail nested s =
     (let (failed, n') = fm_get_fail nested (tr_nested s)
      in (failed, tr_print (concat (map fault_line failed)) (s\<lparr>tr_nested := n'\<rparr>)))"

definition transcribe_inject_fail :: "'n fault_manager \<Rightarrow> fault \<Rightarrow> 'n transcribe \<Rightarrow> int \<times> 'n transcribe" where
  "transcribe_inject_fail nested f s =
     (let (r, n') = fm_inject_fail nested f (tr_nested s) in (r, s\<lparr>tr_nested := n'\<rparr>))"

definition transcribe_fm :: "'n fault_manager \<Rightarrow> 'n transcribe fault_manager" where
  "transcribe_fm nested =
     \<lparr>fm_version = 1, fm_get_nodes = transcribe_get_nodes nested, fm_tic = transcribe_tic nested,
      fm_get_fail = transcribe_get_fail nested, fm_inject_fail = transcribe_inject_fail nested\<rparr>"

text \<open>
  \<open>init\<close> of the library: the file is opened for writing (empty) and the tic counter reset; the
  nested plugin is found later, by \<open>post\<close>.
\<close>

definition transcribe_start :: "'n \<Rightarrow> 'n transcribe" where
  "transcribe_start n = \<lparr>tr_tic_num = 0, tr_file = [], tr_nested = n\<rparr>"

section \<open>Transparency\<close>

text \<open>
  The recording never disturbs the run: the recorder returns what the nested manager returns
  and leaves the nested manager in the state a direct call would.
\<close>

lemma transcribe_fm_sel [simp]:
  "fm_get_nodes (transcribe_fm nm) = transcribe_get_nodes nm"
  "fm_tic (transcribe_fm nm) = transcribe_tic nm"
  "fm_get_fail (transcribe_fm nm) = transcribe_get_fail nm"
  "fm_inject_fail (transcribe_fm nm) = transcribe_inject_fail nm"
  by (simp_all add: transcribe_fm_def)

lemma tr_print_sel [simp]:
  "tr_nested (tr_print t s) = tr_nested s" "tr_tic_num (tr_print t s) = tr_tic_num s"
  "tr_file (tr_print t s) = tr_file s @ t"
  by (simp_all add: tr_print_def)

lemma transcribe_get_nodes_nested:
  "(fst (transcribe_get_nodes nm s), tr_nested (snd (transcribe_get_nodes nm s))) = fm_get_nodes nm (tr_nested s)"
  by (cases "fm_get_nodes nm (tr_nested s)"; cases "fst (fm_get_nodes nm (tr_nested s))")
     (simp_all add: transcribe_get_nodes_def Let_def)

lemma transcribe_step:
  "fm_step (transcribe_fm nm) s =
     (let (fs, n') = fm_step nm (tr_nested s)
      in (fs, \<lparr>tr_tic_num = tr_tic_num s + 1,
               tr_file = tr_file s @ tic_line (tr_tic_num s) @ concat (map fault_line fs),
               tr_nested = n'\<rparr>))"
  by (simp add: fm_step_def transcribe_get_fail_def transcribe_tic_def tr_print_def split: prod.splits)

text \<open>The text of a run: the tics in order, each with the faults it returned.\<close>

fun run_text :: "u64 \<Rightarrow> fault list list \<Rightarrow> string" where
  "run_text k [] = []"
| "run_text k (fs # fss) = tic_line k @ concat (map fault_line fs) @ run_text (k + 1) fss"

lemma transcribe_run:
  "fm_run (transcribe_fm nm) n s =
     (let (fss, n') = fm_run nm n (tr_nested s)
      in (fss, \<lparr>tr_tic_num = tr_tic_num s + of_nat n,
                tr_file = tr_file s @ run_text (tr_tic_num s) fss, tr_nested = n'\<rparr>))"
proof (induction n arbitrary: s)
  case 0
  then show ?case by simp
next
  case (Suc n)
  show ?case
    by (simp add: transcribe_step Suc split: prod.splits)
qed

end
