(* ===== verification/Replay.thy ===== *)
theory Replay
  imports Lausim_Types
begin

text \<open>
  The replay plugin (\<open>plugins/replay/replay.c\<close>): a fault manager that reads a recording and
  returns the recorded faults tic by tic. The file is the text not read yet; every log call of
  the plugin is an entry of \<open>rp_log\<close>, in order.
\<close>

section \<open>State\<close>

record replay =
  rp_tic_num :: u64
  rp_nxt_tic :: u64
  rp_id :: u64
  rp_file :: string
  rp_done :: bool
  rp_nodes :: "node list"
  rp_faults :: "fault list"
  rp_log :: "log_call list"

definition rp_logf :: "log_level \<Rightarrow> string \<Rightarrow> replay \<Rightarrow> replay" where
  "rp_logf l m s = s\<lparr>rp_log := rp_log s @ [(l, m)]\<rparr>"

definition rp_log_line :: "string \<Rightarrow> replay \<Rightarrow> replay" where
  "rp_log_line buf = rp_logf LL_Debug (snprintf 512 (''[REPLAY] line: '' @ buf))"

text \<open>
  What the plugin does not control: the value of the variable that \<open>get_tic_num\<close> does not initialise,
  and whether the allocations that \<open>get_nodes\<close> checks succeed, both in the state at that time. The
  allocations that the code does not check succeed.
\<close>

record replay_env =
  env_junk :: "replay \<Rightarrow> u64"
  env_calloc :: "replay \<Rightarrow> bool"

section \<open>Tic numbers\<close>

text \<open>
  The tokens behind the first one are tried until one starts with a number. When none does, the
  C function returns its uninitialised variable: \<open>junk\<close> is that value.
\<close>

abbreviation tic_delim :: string where
  "tic_delim \<equiv> [CHR '' '', CHR ''#'', CHR 0x09, newline]"

lemma strtok_less: "strtok d s = Some (t, r) \<Longrightarrow> length r < length s"
proof -
  assume "strtok d s = Some (t, r)"
  then have ne: "dropWhile (\<lambda>c. c \<in> set d) s \<noteq> []"
    and r: "r = drop 1 (dropWhile (\<lambda>c. c \<notin> set d) (dropWhile (\<lambda>c. c \<in> set d) s))"
    by (auto simp: strtok_def Let_def split: if_splits)
  have "length r < length (dropWhile (\<lambda>c. c \<in> set d) s)"
    using ne r length_dropWhile_le [of "\<lambda>c. c \<notin> set d" "dropWhile (\<lambda>c. c \<in> set d) s"]
    by (cases "dropWhile (\<lambda>c. c \<in> set d) s") auto
  also have "\<dots> \<le> length s" by (rule length_dropWhile_le)
  finally show ?thesis .
qed

function first_number :: "u64 \<Rightarrow> string \<Rightarrow> u64" where
  "first_number junk rest =
     (case strtok tic_delim rest of
        None \<Rightarrow> junk
      | Some (start, rest') \<Rightarrow>
          (case strtoul 0 start of
             Some (num, _) \<Rightarrow> num
           | None \<Rightarrow> first_number 0 rest'))"
  by pat_completeness auto
termination
  by (relation "measure (\<lambda>(junk, rest). length rest)") (auto dest: strtok_less)

declare first_number.simps [simp del]

definition get_tic_num :: "u64 \<Rightarrow> string \<Rightarrow> u64" where
  "get_tic_num junk buf =
     (case strtok tic_delim buf of
        None \<Rightarrow> junk
      | Some (_, rest) \<Rightarrow> first_number junk rest)"

section \<open>Reading the nodes\<close>

abbreviation csv_delim :: string where
  "csv_delim \<equiv> [CHR '','', newline]"

text \<open>The \<open>num_components\<close> tokens behind a node's component count; None if one is missing.\<close>

fun read_components :: "nat \<Rightarrow> string \<Rightarrow> (component list \<times> string) option" where
  "read_components 0 r = Some ([], r)"
| "read_components (Suc k) r =
     (case strtok csv_delim r of
        None \<Rightarrow> None
      | Some (cur, r') \<Rightarrow>
          (case read_components k r' of
             None \<Rightarrow> None
           | Some (cs, r'') \<Rightarrow> Some (\<lparr>comp_name = cur, comp_severity = 0\<rparr> # cs, r'')))"

datatype step_result = Step_ok | Step_error int | Step_crash

text \<open>
  The body of the loop over the nodes. An empty line makes \<open>strtok\<close> return NULL, and the
  \<open>strlen\<close> of it crashes.
\<close>

definition read_node :: "replay_env \<Rightarrow> nat \<Rightarrow> replay \<Rightarrow> step_result \<times> replay" where
  "read_node env i s =
     (case getline (rp_file s) of
        None \<Rightarrow> (Step_error 1, rp_logf LL_Error ''[REPLAY] unable to read line'' s)
      | Some (line, rest) \<Rightarrow>
          let buf = c_str line; s1 = rp_log_line buf (s\<lparr>rp_file := rest\<rparr>)
          in case strtok csv_delim buf of
               None \<Rightarrow> (Step_crash, s1)
             | Some (name, r1) \<Rightarrow>
                 if \<not> env_calloc env s1
                 then (Step_error 1, rp_logf LL_Error ''[REPLAY] not enough memory to allocate node name'' s1)
                 else (case strtok csv_delim r1 of
                    None \<Rightarrow> (Step_error 1, rp_logf LL_Error ''[REPLAY] unexpected end of line'' s1)
                  | Some (cnt, r2) \<Rightarrow>
                      (case read_components (unat (ucast (strtoul_val 0 cnt) :: u32)) r2 of
                         None \<Rightarrow> (Step_error 1, rp_logf LL_Error ''[REPLAY] unexpected end of line'' s1)
                       | Some (cs, r3) \<Rightarrow>
                           let n = \<lparr>node_name = name, node_id = of_nat i, node_type = uniform_node,
                                    node_state = NODE_STATE_UNKNOWN, components = cs\<rparr>;
                               s2 = s1\<lparr>rp_nodes := rp_nodes s1 @ [n]\<rparr>
                           in (Step_ok,
                               if strtok csv_delim r3 \<noteq> None
                               then rp_logf LL_Warning ''[REPLAY] garbage at the end of the line'' s2
                               else s2))))"

fun read_nodes :: "replay_env \<Rightarrow> nat \<Rightarrow> nat \<Rightarrow> replay \<Rightarrow> step_result \<times> replay" where
  "read_nodes env 0 i s = (Step_ok, s)"
| "read_nodes env (Suc k) i s =
     (case read_node env i s of
        (Step_ok, s') \<Rightarrow> read_nodes env k (Suc i) s'
      | (r, s') \<Rightarrow> (r, s'))"

text \<open>
  Behind the nodes stands the line of the first tic. A line without \<open>tic\<close> is dropped: the
  message about it is formatted and freed, not logged.
\<close>

definition read_first_tic :: "replay_env \<Rightarrow> replay \<Rightarrow> replay" where
  "read_first_tic env s =
     (case getline (rp_file s) of
        None \<Rightarrow> rp_logf LL_Warning ''[REPLAY] no tic information present'' s
      | Some (line, rest) \<Rightarrow>
          let buf = c_str line; s1 = rp_log_line buf (s\<lparr>rp_file := rest\<rparr>)
          in if strstr ''tic'' buf then s1\<lparr>rp_nxt_tic := get_tic_num (env_junk env s1) buf\<rparr> else s1)"

definition replay_get_nodes :: "replay_env \<Rightarrow> replay \<Rightarrow> nodes_result \<times> replay" where
  "replay_get_nodes env s =
     (case getline (rp_file s) of
        None \<Rightarrow> (Nodes_error 1, rp_logf LL_Error ''[REPLAY] unable to read line'' s)
      | Some (line, rest) \<Rightarrow>
          let buf = c_str line;
              num = strtoul_val 0 buf;
              s1 = rp_logf LL_Debug (snprintf 512 (''[REPLAY] nodes_num: '' @ show_unsigned num))
                     (rp_log_line buf (s\<lparr>rp_file := rest\<rparr>))
          in if strtoul 0 buf = None
             then (Nodes_error 1, rp_logf LL_Error ''[REPLAY] unable to read number of nodes'' s1)
             else if \<not> env_calloc env s1
             then (Nodes_error 1, rp_logf LL_Error ''[REPLAY] not enough memory'' s1)
             else (case read_nodes env (unat num) 0 (s1\<lparr>rp_nodes := []\<rparr>) of
                    (Step_ok, s2) \<Rightarrow> (let s3 = read_first_tic env s2 in (Nodes (rp_nodes s3), s3))
                  | (Step_error e, s2) \<Rightarrow> (Nodes_error e, s2)
                  | (Step_crash, s2) \<Rightarrow> (Nodes_crash, s2)))"

section \<open>Reading the faults of a tic\<close>

definition add_fault :: "string \<Rightarrow> string \<Rightarrow> u64 \<Rightarrow> replay \<Rightarrow> replay" where
  "add_fault name cmp severity s =
     s\<lparr>rp_id := rp_id s + 1,
       rp_faults := rp_faults s @
         [\<lparr>fault_id = ucast (rp_id s + 1), fault_name = None,
           fault_component = (if cmp = [] then None else Some cmp),
           fault_node = name, fault_severity = ucast severity\<rparr>]\<rparr>"

text \<open>
  One line of the file, from the test for \<open>tic#\<close> on. The test for an empty line is left out:
  \<open>getline\<close> returns at least one character.
\<close>

definition replay_line :: "replay_env \<Rightarrow> string \<Rightarrow> replay \<Rightarrow> replay" where
  "replay_line env buf s =
     (if strstr ''tic#'' buf then
        let s1 = s\<lparr>rp_nxt_tic := get_tic_num (env_junk env s) buf\<rparr>
        in if rp_nxt_tic s1 < rp_tic_num s1
           then rp_logf LL_Warning ''[REPLAY] tic numbers not strict monotone'' s1 else s1
      else case strchr (CHR '','') buf of
        None \<Rightarrow> rp_logf LL_Warning ''[REPLAY] incomplete line'' s
      | Some i \<Rightarrow>
          let name = take i buf; behind = drop (Suc i) buf
          in case strchr (CHR '','') behind of
               None \<Rightarrow> rp_logf LL_Warning ''[REPLAY] incomplete line'' s
             | Some j \<Rightarrow>
                 let cmp = take j behind; sev_str = drop (Suc j) behind
                 in case strtoul 0 sev_str of
                      None \<Rightarrow> rp_logf LL_Warning ''[REPLAY] expected severity to be a number'' s
                    | Some (severity, _) \<Rightarrow> add_fault name cmp severity s)"

lemma rp_file_logf [simp]: "rp_file (rp_logf l m s) = rp_file s" "rp_file (rp_log_line m s) = rp_file s"
  by (simp_all add: rp_logf_def rp_log_line_def)

lemma rp_file_replay_line [simp]: "rp_file (replay_line env buf s) = rp_file s"
  by (simp add: replay_line_def add_fault_def Let_def split: option.splits prod.splits)

text \<open>The loop of \<open>tic\<close>: every round reads a line, so it ends with the file at the latest.\<close>

function replay_loop :: "replay_env \<Rightarrow> replay \<Rightarrow> replay" where
  "replay_loop env s =
     (if rp_nxt_tic s < rp_tic_num s \<and> \<not> rp_done s then
        case getline (rp_file s) of
          None \<Rightarrow> s\<lparr>rp_done := True\<rparr>
        | Some (line, rest) \<Rightarrow>
            replay_loop env (replay_line env (c_str line) (rp_log_line (c_str line) (s\<lparr>rp_file := rest\<rparr>)))
      else s)"
  by pat_completeness auto
termination
  by (relation "measure (\<lambda>(env, s). length (rp_file s))") (auto dest: getline_less)

declare replay_loop.simps [simp del]

definition replay_tic :: "replay_env \<Rightarrow> replay \<Rightarrow> replay" where
  "replay_tic env s =
     (let s0 = s\<lparr>rp_faults := []\<rparr>
      in if rp_done s0 then s0
         else let s1 = s0\<lparr>rp_tic_num := rp_tic_num s0 + 1\<rparr>
              in if rp_tic_num s0 < rp_nxt_tic s0 then s1 else replay_loop env s1)"

definition replay_get_fail :: "replay \<Rightarrow> fault list \<times> replay" where
  "replay_get_fail s = (rp_faults s, s)"

definition replay_inject_fail :: "fault \<Rightarrow> replay \<Rightarrow> int \<times> replay" where
  "replay_inject_fail f s = (1, rp_logf LL_Error ''[REPLAY] injecting faults in replay mode is not possible'' s)"

definition replay_fm :: "replay_env \<Rightarrow> replay fault_manager" where
  "replay_fm env =
     \<lparr>fm_version = 1, fm_get_nodes = replay_get_nodes env, fm_tic = replay_tic env,
      fm_get_fail = replay_get_fail, fm_inject_fail = replay_inject_fail\<rparr>"

text \<open>The state after \<open>init\<close> has opened the file; the other globals start at zero.\<close>

definition replay_start :: "string \<Rightarrow> replay" where
  "replay_start text =
     \<lparr>rp_tic_num = 0, rp_nxt_tic = 0, rp_id = 0, rp_file = text, rp_done = False,
      rp_nodes = [], rp_faults = [], rp_log = []\<rparr>"

lemma replay_fm_sel [simp]:
  "fm_get_nodes (replay_fm env) = replay_get_nodes env" "fm_tic (replay_fm env) = replay_tic env"
  "fm_get_fail (replay_fm env) = replay_get_fail" "fm_inject_fail (replay_fm env) = replay_inject_fail"
  by (simp_all add: replay_fm_def)

end
