(* ===== verification/Record_Replay.thy ===== *)
theory Record_Replay
  imports Transcribe Replay
begin

text \<open>
  A recording written by the transcribe plugin is read back by the replay plugin: the nodes,
  and tic by tic the faults (node, component and severity), are the recorded ones. The
  hypotheses are what the file format can carry: names that fit between commas on a line.
\<close>

section \<open>What a recording can carry\<close>

definition csv_safe :: "string \<Rightarrow> bool" where
  "csv_safe s \<longleftrightarrow> CHR '','' \<notin> set s \<and> newline \<notin> set s \<and> NUL \<notin> set s"

definition recordable_node :: "node \<Rightarrow> bool" where
  "recordable_node n \<longleftrightarrow> node_name n \<noteq> [] \<and> csv_safe (node_name n) \<and> length (components n) < 2 ^ 32
     \<and> list_all (\<lambda>c. comp_name c \<noteq> [] \<and> csv_safe (comp_name c)) (components n)"

definition recordable_nodes :: "node list \<Rightarrow> bool" where
  "recordable_nodes ns \<longleftrightarrow> length ns < 2 ^ 64 \<and> list_all recordable_node ns"

definition recordable_fault :: "fault \<Rightarrow> bool" where
  "recordable_fault f \<longleftrightarrow> csv_safe (fault_node f)
     \<and> (case fault_component f of None \<Rightarrow> True | Some c \<Rightarrow> c \<noteq> [] \<and> csv_safe c)
     \<and> \<not> strstr ''tic#'' (fault_line f)"

section \<open>What the replay returns\<close>

definition replayed_node :: "nat \<Rightarrow> node \<Rightarrow> node" where
  "replayed_node i n =
     \<lparr>node_name = node_name n, node_id = of_nat i, node_type = uniform_node,
      node_state = NODE_STATE_UNKNOWN,
      components = map (\<lambda>c. \<lparr>comp_name = comp_name c, comp_severity = 0\<rparr>) (components n)\<rparr>"

fun replayed_nodes :: "nat \<Rightarrow> node list \<Rightarrow> node list" where
  "replayed_nodes i [] = []"
| "replayed_nodes i (n # ns) = replayed_node i n # replayed_nodes (Suc i) ns"

fun replayed_faults :: "u64 \<Rightarrow> fault list \<Rightarrow> fault list" where
  "replayed_faults k [] = []"
| "replayed_faults k (f # fs) =
     f\<lparr>fault_id := ucast (k + 1), fault_name := None\<rparr> # replayed_faults (k + 1) fs"

lemma fault_data_replayed [simp]: "map fault_data (replayed_faults k fs) = map fault_data fs"
  by (induction fs arbitrary: k) (auto simp: fault_data_def)

definition line_entry :: "string \<Rightarrow> log_call" where
  "line_entry buf = (LL_Debug, snprintf 512 (''[REPLAY] line: '' @ buf))"

lemma rp_log_line_eq: "rp_log_line buf s = s\<lparr>rp_log := rp_log s @ [line_entry buf]\<rparr>"
  by (simp add: rp_log_line_def rp_logf_def line_entry_def)

section \<open>Nodes\<close>

lemma csv_safe_delim: "csv_safe s \<Longrightarrow> list_all (\<lambda>c. c \<notin> set csv_delim) s"
  by (auto simp: csv_safe_def list_all_iff)

lemma digits_csv_safe: "list_all (is_digit b) s \<Longrightarrow> csv_safe s"
  by (auto simp: csv_safe_def list_all_iff is_digit_def digit_val_def)

lemma show_unsigned_csv_safe [simp]: "csv_safe (show_unsigned w)"
  using show_unsigned_digits by (rule digits_csv_safe)

lemma strtoul_val_show_unsigned: "strtoul_val 0 (show_unsigned (w :: u32)) = ucast w"
  using strtoul_show_unsigned [of "[]" w] by (simp add: strtoul_val_def)

lemma strtok_csv:
  "\<lbrakk>t \<noteq> []; csv_safe t; d = CHR '','' \<or> d = newline\<rbrakk> \<Longrightarrow> strtok csv_delim (t @ d # r) = Some (t, r)"
  using csv_safe_delim [of t] by (intro strtok_token) auto

lemma read_components_text:
  "list_all (\<lambda>c. comp_name c \<noteq> [] \<and> csv_safe (comp_name c)) cs \<Longrightarrow>
   read_components (length cs) (tl (concat (map (\<lambda>c. '','' @ comp_name c) cs) @ [newline]))
     = Some (map (\<lambda>c. \<lparr>comp_name = comp_name c, comp_severity = 0\<rparr>) cs, [])"
proof (induction cs)
  case (Cons c cs)
  then have "strtok csv_delim (comp_name c @ concat (map (\<lambda>c. '','' @ comp_name c) cs) @ [newline])
      = Some (comp_name c, tl (concat (map (\<lambda>c. '','' @ comp_name c) cs) @ [newline]))"
    using strtok_csv [of "comp_name c"] by (cases cs) auto
  with Cons show ?case by simp
qed simp

text \<open>The line of a node without its newline, as the tokens the reader takes it apart into.\<close>

lemma node_line_safe:
  assumes "recordable_node n"
  obtains l where "node_line n = l @ [newline]" "newline \<notin> set l" "NUL \<notin> set l"
proof
  let ?l = "node_name n @ '','' @ show_unsigned (num_components n)
     @ concat (map (\<lambda>c. '','' @ comp_name c) (components n))"
  show "node_line n = ?l @ [newline]" by (simp add: node_line_def)
  show "newline \<notin> set ?l" "NUL \<notin> set ?l"
    using assms show_unsigned_csv_safe [of "num_components n"]
    by (auto simp: recordable_node_def csv_safe_def list_all_iff)
qed

lemma getline_node_line:
  "recordable_node n \<Longrightarrow> getline (node_line n @ rest) = Some (node_line n, rest)"
  by (erule node_line_safe) simp

lemma c_str_node_line: "recordable_node n \<Longrightarrow> c_str (node_line n) = node_line n"
  by (erule node_line_safe) simp

lemma unat_num_components: "recordable_node n \<Longrightarrow> unat (num_components n) = length (components n)"
  by (simp add: recordable_node_def unat_of_nat)

definition enough_memory :: "replay_env \<Rightarrow> bool" where
  "enough_memory env \<longleftrightarrow> (\<forall>s. env_calloc env s)"

lemma read_node_text:
  assumes "recordable_node n" "rp_file s = node_line n @ rest" "enough_memory env"
  shows "read_node env i s = (Step_ok, s\<lparr>rp_file := rest, rp_nodes := rp_nodes s @ [replayed_node i n],
                                     rp_log := rp_log s @ [line_entry (node_line n)]\<rparr>)"
proof -
  let ?cs = "concat (map (\<lambda>c. '','' @ comp_name c) (components n)) @ [newline]"
  have t1: "strtok csv_delim (node_line n)
      = Some (node_name n, show_unsigned (num_components n) @ ?cs)"
    using assms(1) strtok_csv [of "node_name n"] by (simp add: node_line_def recordable_node_def)
  have t2: "strtok csv_delim (show_unsigned (num_components n) @ ?cs)
      = Some (show_unsigned (num_components n), tl ?cs)"
    using strtok_csv [of "show_unsigned (num_components n)"] by (cases "components n") simp_all
  have t3: "read_components (length (components n)) (tl ?cs)
      = Some (map (\<lambda>c. \<lparr>comp_name = comp_name c, comp_severity = 0\<rparr>) (components n), [])"
    using assms(1) by (intro read_components_text) (simp add: recordable_node_def)
  show ?thesis
    using assms t1 t2 t3
    by (simp add: read_node_def getline_node_line c_str_node_line rp_log_line_eq Let_def
        strtoul_val_show_unsigned unat_num_components replayed_node_def enough_memory_def)
qed

lemma read_nodes_text:
  "\<lbrakk>list_all recordable_node ns; rp_file s = concat (map node_line ns) @ rest; enough_memory env\<rbrakk> \<Longrightarrow>
   read_nodes env (length ns) i s =
     (Step_ok, s\<lparr>rp_file := rest, rp_nodes := rp_nodes s @ replayed_nodes i ns,
                 rp_log := rp_log s @ map (\<lambda>n. line_entry (node_line n)) ns\<rparr>)"
proof (induction ns arbitrary: i s)
  case (Cons n ns)
  then have "read_node env i s = (Step_ok, s\<lparr>rp_file := concat (map node_line ns) @ rest,
      rp_nodes := rp_nodes s @ [replayed_node i n], rp_log := rp_log s @ [line_entry (node_line n)]\<rparr>)"
    by (intro read_node_text) auto
  with Cons show ?case by simp
qed simp

section \<open>Tic lines and fault lines\<close>

lemma show_signed_safe:
  "csv_safe (show_signed w)" "list_all (\<lambda>c. c \<notin> set tic_delim) (show_signed w)"
  by (auto simp: csv_safe_def list_all_iff is_digit_def digit_val_def dest: show_signed_chars)

lemma get_tic_num_tic_line: "get_tic_num junk (tic_line k) = k"
proof -
  have t1: "strtok tic_delim (tic_line k) = Some (''[tic'', show_signed k @ '']'' @ [newline])"
    by (simp add: tic_line_def strtok_def)
  have t2: "strtok tic_delim (show_signed k @ '']'' @ [newline]) = Some (show_signed k @ '']'', [])"
    using show_signed_safe(2) [of k] strtok_token [of "show_signed k @ '']''" tic_delim newline "[]"]
    by simp
  have "num_end '']''" by (simp add: digit_val_def)
  then have "strtoul 0 (show_signed k @ '']'') = Some (k, '']'')"
    using strtoul_show_signed [of "'']''" k] by simp
  with t1 t2 show ?thesis
    by (simp add: get_tic_num_def first_number.simps)
qed

lemma tic_line_safe:
  obtains l where "tic_line k = l @ [newline]" "newline \<notin> set l" "NUL \<notin> set l"
proof
  let ?l = "''[tic#'' @ show_signed k @ '']''"
  show "tic_line k = ?l @ [newline]" by (simp add: tic_line_def)
  show "newline \<notin> set ?l" "NUL \<notin> set ?l"
    using show_signed_safe(1) [of k] by (auto simp: csv_safe_def)
qed

lemma getline_tic_line [simp]:
  "getline (tic_line k @ rest) = Some (tic_line k, rest)" "c_str (tic_line k) = tic_line k"
  by (rule tic_line_safe [of k], simp)+

lemma strstr_tic_line [simp]: "strstr ''tic#'' (tic_line k)" "strstr ''tic'' (tic_line k)"
  by (simp_all add: tic_line_def)

lemma fault_line_safe:
  assumes "recordable_fault f"
  obtains l where "fault_line f = l @ [newline]" "newline \<notin> set l" "NUL \<notin> set l"
proof
  let ?l = "fault_node f @ '','' @ (case fault_component f of None \<Rightarrow> [] | Some c \<Rightarrow> c)
     @ '','' @ show_signed (fault_severity f)"
  show "fault_line f = ?l @ [newline]" by (simp add: fault_line_def)
  show "newline \<notin> set ?l" "NUL \<notin> set ?l"
    using assms show_signed_safe(1) [of "fault_severity f"]
    by (auto simp: recordable_fault_def csv_safe_def split: option.splits)
qed

lemma getline_fault_line:
  "recordable_fault f \<Longrightarrow> getline (fault_line f @ rest) = Some (fault_line f, rest)"
  "recordable_fault f \<Longrightarrow> c_str (fault_line f) = fault_line f"
  by (erule fault_line_safe, simp)+

lemma replay_line_fault:
  assumes "recordable_fault f"
  shows "replay_line env (fault_line f) s =
           s\<lparr>rp_id := rp_id s + 1, rp_faults := rp_faults s @ replayed_faults (rp_id s) [f]\<rparr>"
proof -
  let ?c = "case fault_component f of None \<Rightarrow> [] | Some c \<Rightarrow> c"
  let ?sev = "show_signed (fault_severity f) @ [newline]"
  have "strchr (CHR '','') (fault_line f) = Some (length (fault_node f))"
    using assms strchr_first [of "CHR '',''" "fault_node f"]
    by (simp add: fault_line_def recordable_fault_def csv_safe_def)
  moreover have "drop (Suc (length (fault_node f))) (fault_line f) = ?c @ '','' @ ?sev"
    and "take (length (fault_node f)) (fault_line f) = fault_node f"
    by (simp_all add: fault_line_def)
  moreover have "strchr (CHR '','') (?c @ '','' @ ?sev) = Some (length ?c)"
    using assms strchr_first [of "CHR '',''" "?c"]
    by (auto simp: recordable_fault_def csv_safe_def split: option.splits)
  moreover have "strtoul 0 ?sev = Some (scast (fault_severity f), [newline])"
    by (rule strtoul_show_signed) (simp_all add: digit_val_def)
  ultimately show ?thesis
    using assms
    by (cases f; cases "fault_component f")
       (auto simp: replay_line_def add_fault_def recordable_fault_def Let_def)
qed

section \<open>Tics\<close>

lemma replay_loop_faults:
  "\<lbrakk>list_all recordable_fault fs; rp_file s = concat (map fault_line fs) @ rest;
    rp_nxt_tic s < rp_tic_num s; \<not> rp_done s\<rbrakk> \<Longrightarrow>
   replay_loop env s = replay_loop env
     (s\<lparr>rp_file := rest, rp_id := rp_id s + of_nat (length fs),
        rp_faults := rp_faults s @ replayed_faults (rp_id s) fs,
        rp_log := rp_log s @ map (\<lambda>f. line_entry (fault_line f)) fs\<rparr>)"
proof (induction fs arbitrary: s)
  case (Cons f fs)
  then show ?case
    by (subst replay_loop.simps)
       (simp add: getline_fault_line replay_line_fault rp_log_line_eq add.assoc)
next
  case Nil
  then show ?case by (cases s) simp
qed

text \<open>
  The state between two tics \<open>k\<close> and \<open>k + 1\<close> of a recorded run: the line of tic \<open>k\<close> has been
  read, its faults and everything later have not.
\<close>

definition at_tic :: "nat \<Rightarrow> fault list list \<Rightarrow> replay \<Rightarrow> bool" where
  "at_tic k fss s \<longleftrightarrow> rp_tic_num s = of_nat k \<and>
     (case fss of
        [] \<Rightarrow> rp_done s
      | fs # fss' \<Rightarrow> \<not> rp_done s \<and> rp_nxt_tic s = of_nat k
          \<and> rp_file s = concat (map fault_line fs) @ run_text (of_nat k + 1) fss')"

lemma word_less_plus1: "Suc k < 2 ^ 64 \<Longrightarrow> (of_nat k :: u64) < of_nat k + 1"
proof -
  assume "Suc k < 2 ^ 64"
  then have "(of_nat k :: u64) < of_nat (Suc k)"
    unfolding of_nat_word_less_iff by (simp add: take_bit_nat_eq_self)
  then show ?thesis by (simp add: add.commute)
qed

lemma replay_step:
  assumes at: "at_tic k (fs # fss) s" and rec: "list_all recordable_fault fs" and k: "Suc k < 2 ^ 64"
  obtains s' where "fm_step (replay_fm env) s = (replayed_faults (rp_id s) fs, s')" "at_tic (Suc k) fss s'"
proof -
  let ?s1 = "s\<lparr>rp_faults := [], rp_tic_num := of_nat k + 1\<rparr>"
  let ?s2 = "?s1\<lparr>rp_file := run_text (of_nat k + 1) fss, rp_id := rp_id s + of_nat (length fs),
      rp_faults := replayed_faults (rp_id s) fs,
      rp_log := rp_log s @ map (\<lambda>f. line_entry (fault_line f)) fs\<rparr>"
  have less: "rp_nxt_tic s < of_nat k + 1" using at word_less_plus1 [OF k] by (simp add: at_tic_def)
  have tic: "replay_tic env s = replay_loop env ?s1"
    using at by (simp add: replay_tic_def at_tic_def Let_def)
  also have "\<dots> = replay_loop env ?s2"
    using at rec less by (subst replay_loop_faults [where fs = fs]) (simp_all add: at_tic_def)
  finally have tic2: "replay_tic env s = replay_loop env ?s2" .
  show thesis
  proof (cases fss)
    case Nil
    then have "replay_tic env s = ?s2\<lparr>rp_done := True\<rparr>"
      unfolding tic2 using at less by (subst replay_loop.simps) (simp add: at_tic_def getline_def)
    then show thesis
      using Nil by (intro that [of "?s2\<lparr>rp_done := True\<rparr>"]) (simp_all add: fm_step_def replay_get_fail_def at_tic_def add.commute)
  next
    case (Cons gs gss)
    let ?s3 = "?s2\<lparr>rp_file := concat (map fault_line gs) @ run_text (of_nat k + 1 + 1) gss,
      rp_log := rp_log ?s2 @ [line_entry (tic_line (of_nat k + 1))], rp_nxt_tic := of_nat k + 1\<rparr>"
    have "replay_loop env ?s2 = replay_loop env ?s3"
      using Cons at less
      by (subst replay_loop.simps)
         (simp add: at_tic_def replay_line_def get_tic_num_tic_line rp_log_line_eq Let_def)
    also have "\<dots> = ?s3" by (subst replay_loop.simps) simp
    finally show thesis
      using Cons tic2 at
      by (intro that [of ?s3]) (simp_all add: fm_step_def replay_get_fail_def at_tic_def add.commute)
  qed
qed

lemma replay_run:
  "\<lbrakk>at_tic k fss s; list_all (list_all recordable_fault) fss; k + length fss < 2 ^ 64\<rbrakk> \<Longrightarrow>
   map (map fault_data) (fst (fm_run (replay_fm env) (length fss) s)) = map (map fault_data) fss
   \<and> at_tic (k + length fss) [] (snd (fm_run (replay_fm env) (length fss) s))"
proof (induction fss arbitrary: k s)
  case (Cons fs fss)
  then have "list_all recordable_fault fs" "Suc k < 2 ^ 64" by simp_all
  with Cons.prems(1) obtain s' where step: "fm_step (replay_fm env) s = (replayed_faults (rp_id s) fs, s')"
    and at': "at_tic (Suc k) fss s'"
    by (rule replay_step)
  from Cons.IH [OF at'] Cons.prems step show ?case
    by (simp add: split_beta Let_def)
qed simp

text \<open>Behind the last recorded tic the replay stays silent.\<close>

lemma replay_done_step:
  "rp_done s \<Longrightarrow> fm_step (replay_fm env) s = ([], s\<lparr>rp_faults := []\<rparr>)"
  by (simp add: fm_step_def replay_tic_def replay_get_fail_def Let_def)

lemma replay_done_run: "rp_done s \<Longrightarrow> fst (fm_run (replay_fm env) n s) = replicate n []"
  by (induction n arbitrary: s) (simp_all add: replay_done_step split_beta Let_def)

section \<open>The whole recording\<close>

definition recording :: "node list \<Rightarrow> fault list list \<Rightarrow> string" where
  "recording ns fss = nodes_text ns @ run_text 0 fss"

lemma replay_get_nodes_recording:
  assumes "recordable_nodes ns" "enough_memory env"
  obtains s where
    "replay_get_nodes env (replay_start (recording ns (fs # fss))) = (Nodes (replayed_nodes 0 ns), s)"
    "at_tic 0 (fs # fss) s"
proof -
  let ?num = "of_nat (length ns) :: u64" and ?rest = "run_text 0 (fs # fss)"
  let ?txt = "recording ns (fs # fss)"
  have len: "unat ?num = length ns" using assms by (simp add: recordable_nodes_def unat_of_nat)
  have "newline \<notin> set (show_unsigned ?num)" "NUL \<notin> set (show_unsigned ?num)"
    using show_unsigned_csv_safe [of ?num] by (simp_all add: csv_safe_def)
  then have line: "getline ?txt = Some (show_unsigned ?num @ [newline], concat (map node_line ns) @ ?rest)"
    "c_str (show_unsigned ?num @ [newline]) = show_unsigned ?num @ [newline]"
    by (simp_all add: recording_def nodes_text_def)
  have num: "strtoul 0 (show_unsigned ?num @ [newline]) = Some (?num, [newline])"
    using strtoul_show_unsigned [of "[newline]" ?num] by (simp add: digit_val_def)
  then have val: "strtoul_val 0 (show_unsigned ?num @ [newline]) = ?num" by (simp add: strtoul_val_def)
  let ?s = "\<lparr>rp_tic_num = 0, rp_nxt_tic = 0, rp_id = 0,
    rp_file = concat (map fault_line fs) @ run_text 1 fss, rp_done = False,
    rp_nodes = replayed_nodes 0 ns, rp_faults = [],
    rp_log = [line_entry (show_unsigned ?num @ [newline]),
        (LL_Debug, snprintf 512 (''[REPLAY] nodes_num: '' @ show_unsigned ?num))]
      @ map (\<lambda>n. line_entry (node_line n)) ns @ [line_entry (tic_line 0)]\<rparr>"
  have "replay_get_nodes env (replay_start ?txt) = (Nodes (replayed_nodes 0 ns), ?s)"
    using line num val len assms
    by (simp add: replay_get_nodes_def replay_start_def rp_log_line_eq rp_logf_def Let_def
          read_nodes_text [where rest = ?rest] recordable_nodes_def read_first_tic_def
          get_tic_num_tic_line enough_memory_def)
  moreover have "at_tic 0 (fs # fss) ?s" by (simp add: at_tic_def)
  ultimately show thesis by (rule that)
qed

section \<open>Managers whose runs can be recorded\<close>

text \<open>
  The contract a fault manager keeps towards the recorder: an invariant that its operations
  preserve and under which all the nodes and faults it returns fit the file format.
\<close>

locale recordable_manager =
  fixes fm :: "'s fault_manager" and invar :: "'s \<Rightarrow> bool"
  assumes invar_get_nodes: "invar s \<Longrightarrow> invar (snd (fm_get_nodes fm s))"
    and invar_tic: "invar s \<Longrightarrow> invar (fm_tic fm s)"
    and invar_get_fail: "invar s \<Longrightarrow> invar (snd (fm_get_fail fm s))"
    and nodes_recordable: "invar s \<Longrightarrow> fst (fm_get_nodes fm s) = Nodes ns \<Longrightarrow> recordable_nodes ns"
    and faults_recordable: "invar s \<Longrightarrow> list_all recordable_fault (fst (fm_get_fail fm s))"
begin

lemma invar_step: "invar s \<Longrightarrow> invar (snd (fm_step fm s))"
  by (simp add: fm_step_def invar_tic invar_get_fail)

lemma step_recordable: "invar s \<Longrightarrow> list_all recordable_fault (fst (fm_step fm s))"
  by (simp add: fm_step_def invar_tic faults_recordable)

lemma invar_run: "invar s \<Longrightarrow> invar (snd (fm_run fm n s))"
  by (induction n arbitrary: s) (simp_all add: split_beta Let_def invar_step)

lemma run_recordable: "invar s \<Longrightarrow> list_all (list_all recordable_fault) (fst (fm_run fm n s))"
  by (induction n arbitrary: s) (simp_all add: split_beta Let_def invar_step step_recordable)

lemma recorded_text:
  assumes "fm_get_nodes fm s = (Nodes ns, s1)" "transcribe_get_nodes fm (transcribe_start s) = (r, t1)"
  shows "r = Nodes ns"
    and "tr_file (snd (fm_run (transcribe_fm fm) n t1)) = recording ns (fst (fm_run fm n s1))"
  using assms
  by (auto simp: transcribe_get_nodes_def transcribe_start_def transcribe_run recording_def tr_print_def
      split: prod.splits)

theorem replay_recorded:
  assumes invar: "invar s" and nodes: "fm_get_nodes fm s = (Nodes ns, s1)" and n: "0 < n" "n < 2 ^ 64"
    and mem: "enough_memory env"
    and recorded: "transcribe_get_nodes fm (transcribe_start s) = (r, t1)"
    and replay: "replay_get_nodes env
      (replay_start (tr_file (snd (fm_run (transcribe_fm fm) n t1)))) = (r', p1)"
  shows "r' = Nodes (replayed_nodes 0 ns)"
    and "map (map fault_data) (fst (fm_run (replay_fm env) n p1)) = map (map fault_data) (fst (fm_run fm n s1))"
proof -
  let ?fss = "fst (fm_run fm n s1)"
  from invar nodes have inv1: "invar s1" using invar_get_nodes [of s] by simp
  from n obtain fs fss where fss: "?fss = fs # fss"
    by (metis length_fm_run list.size(3) neq_Nil_conv less_irrefl)
  have "recordable_nodes ns" using nodes_recordable invar nodes by simp
  from this mem obtain p where p: "replay_get_nodes env (replay_start (recording ns (fs # fss)))
      = (Nodes (replayed_nodes 0 ns), p)" and at: "at_tic 0 (fs # fss) p"
    by (rule replay_get_nodes_recording)
  with replay show "r' = Nodes (replayed_nodes 0 ns)"
    by (simp add: recorded_text [OF nodes recorded] fss)
  have "p1 = p" using replay p by (simp add: recorded_text [OF nodes recorded] fss)
  moreover have "length (fs # fss) = n" using fss by (metis length_fm_run)
  ultimately show "map (map fault_data) (fst (fm_run (replay_fm env) n p1)) = map (map fault_data) ?fss"
    using replay_run [OF at, of env] run_recordable [OF inv1, of n] n fss by simp
qed

end

text \<open>A recorder around a recordable manager is recordable itself.\<close>

lemma recordable_transcribe:
  "recordable_manager fm invar \<Longrightarrow> recordable_manager (transcribe_fm fm) (\<lambda>s. invar (tr_nested s))"
proof
  assume "recordable_manager fm invar"
  note laws = recordable_manager.invar_get_nodes [OF this] recordable_manager.invar_tic [OF this]
    recordable_manager.invar_get_fail [OF this] recordable_manager.nodes_recordable [OF this]
    recordable_manager.faults_recordable [OF this]
  fix s :: "'a transcribe" and ns
  assume invar: "invar (tr_nested s)"
  show "invar (tr_nested (snd (fm_get_nodes (transcribe_fm fm) s)))"
    using laws(1) [OF invar] transcribe_get_nodes_nested [of fm s] by (simp add: prod_eq_iff)
  show "invar (tr_nested (fm_tic (transcribe_fm fm) s))"
    using laws(2) [OF invar] by (simp add: transcribe_tic_def Let_def)
  show "invar (tr_nested (snd (fm_get_fail (transcribe_fm fm) s)))"
    using laws(3) [OF invar] by (simp add: transcribe_get_fail_def split_beta Let_def)
  show "list_all recordable_fault (fst (fm_get_fail (transcribe_fm fm) s))"
    using laws(5) [OF invar] by (simp add: transcribe_get_fail_def split_beta Let_def)
  show "recordable_nodes ns" if "fst (fm_get_nodes (transcribe_fm fm) s) = Nodes ns"
    using laws(4) [OF invar] that transcribe_get_nodes_nested [of fm s] by (simp add: prod_eq_iff)
qed

end
