(* ===== verification/Random_Faults.thy ===== *)
theory Random_Faults
  imports Record_Replay
begin

text \<open>
  The random fault manager (\<open>plugins/random/random.c\<close>). The generator behind \<open>rand()\<close> is a
  parameter: \<open>rand g\<close> returns the next number and the next state of the environment. So is the
  allocator: \<open>alloc g\<close> says whether the next allocation that the code checks succeeds. The
  allocations it does not check succeed.
\<close>

section \<open>State and operations\<close>

record mynode =
  mn_p :: node
  mn_healthy :: int

record 'g random =
  rnd_num :: int
  rnd_nodes :: "mynode list"
  rnd_faults :: "fault list"
  rnd_gen :: 'g
  rnd_log :: "log_call list"
  rnd_out :: string

definition RAND_MAX :: int where
  "RAND_MAX = 2147483647"

definition prob :: int where
  "prob = RAND_MAX div 10"

definition random_get_nodes :: "'g random \<Rightarrow> nodes_result \<times> 'g random" where
  "random_get_nodes s =
     (if rnd_num s \<le> 0 then (Nodes_error (- 1), s) else (Nodes (map mn_p (rnd_nodes s)), s))"

definition node_failed :: "mynode \<Rightarrow> fault" where
  "node_failed m =
     \<lparr>fault_id = node_id (mn_p m), fault_name = Some ''node-failed'', fault_component = None,
      fault_node = node_name (mn_p m), fault_severity = 100\<rparr>"

type_synonym 'g draw = "'g \<Rightarrow> int \<times> 'g"
type_synonym 'g alloc = "'g \<Rightarrow> bool \<times> 'g"

text \<open>
  The loop of \<open>tic\<close>: \<open>rand()\<close> is called for the healthy nodes only, in order. A node is marked as
  failed before the array of faults grows; when it cannot grow, the faults of the tic are lost and
  the loop is left.
\<close>

fun tic_nodes :: "'g alloc \<Rightarrow> 'g draw \<Rightarrow> mynode list \<Rightarrow> fault list \<Rightarrow> 'g \<Rightarrow> mynode list \<times> fault list \<times> 'g" where
  "tic_nodes alloc rand [] fs g = ([], fs, g)"
| "tic_nodes alloc rand (m # ms) fs g =
     (if mn_healthy m \<noteq> 0 then
        let (r, g1) = rand g
        in if r < prob then
             let (ok, g2) = alloc g1
             in if ok then
                  let (ms', fs', g3) = tic_nodes alloc rand ms (fs @ [node_failed m]) g2
                  in (m\<lparr>mn_healthy := 0\<rparr> # ms', fs', g3)
                else (m\<lparr>mn_healthy := 0\<rparr> # ms, [], g2)
           else let (ms', fs', g3) = tic_nodes alloc rand ms fs g1 in (m # ms', fs', g3)
      else let (ms', fs', g3) = tic_nodes alloc rand ms fs g in (m # ms', fs', g3))"

definition random_tic :: "'g alloc \<Rightarrow> 'g draw \<Rightarrow> 'g random \<Rightarrow> 'g random" where
  "random_tic alloc rand s =
     (let (ms, fs, g) = tic_nodes alloc rand (rnd_nodes s) [] (rnd_gen s)
      in s\<lparr>rnd_nodes := ms, rnd_faults := fs, rnd_gen := g\<rparr>)"

definition random_get_fail :: "'g random \<Rightarrow> fault list \<times> 'g random" where
  "random_get_fail s = (rnd_faults s, s)"

definition random_inject_fail :: "fault \<Rightarrow> 'g random \<Rightarrow> int \<times> 'g random" where
  "random_inject_fail f s =
     (1, s\<lparr>rnd_out := rnd_out s @ ''[ERROR] Fault injection is not supportet'' @ [newline]\<rparr>)"

definition random_fm :: "'g alloc \<Rightarrow> 'g draw \<Rightarrow> 'g random fault_manager" where
  "random_fm alloc rand =
     \<lparr>fm_version = 1, fm_get_nodes = random_get_nodes, fm_tic = random_tic alloc rand,
      fm_get_fail = random_get_fail, fm_inject_fail = random_inject_fail\<rparr>"

text \<open>
  \<open>init\<close>: the first argument is the number of nodes, cut to an \<open>int\<close>. The result is the return
  value, the new state and whether the plugin has been registered.
\<close>

definition random_load :: "'g \<Rightarrow> 'g random" where
  "random_load g = \<lparr>rnd_num = - 1, rnd_nodes = [], rnd_faults = [], rnd_gen = g, rnd_log = [], rnd_out = []\<rparr>"

definition rnd_logf :: "log_level \<Rightarrow> string \<Rightarrow> 'g random \<Rightarrow> 'g random" where
  "rnd_logf l m s = s\<lparr>rnd_log := rnd_log s @ [(l, m)]\<rparr>"

fun rnd_log_args :: "nat \<Rightarrow> string list \<Rightarrow> 'g random \<Rightarrow> 'g random" where
  "rnd_log_args n [] s = s"
| "rnd_log_args n (a # as) s =
     rnd_log_args (Suc n) as
       (rnd_logf LL_Debug (snprintf 512 (''[RANDOM] Arg #'' @ show_nat n @ '': '' @ a)) s)"

definition new_node :: "nat \<Rightarrow> mynode" where
  "new_node i =
     \<lparr>mn_p = \<lparr>node_name = snprintf 64 (''node'' @ show_nat i), node_id = 0, node_type = uniform_node,
              node_state = NODE_STATE_UNKNOWN, components = []\<rparr>,
      mn_healthy = 1\<rparr>"

text \<open>
  The loop that creates the nodes: the structure and the buffer of the name are allocated for each.
  It is left at the first failure.
\<close>

fun new_nodes :: "'g alloc \<Rightarrow> nat \<Rightarrow> nat \<Rightarrow> 'g \<Rightarrow> bool \<times> mynode list \<times> 'g" where
  "new_nodes alloc 0 i g = (True, [], g)"
| "new_nodes alloc (Suc k) i g =
     (let (ok1, g1) = alloc g
      in if \<not> ok1 then (False, [], g1)
         else
           let (ok2, g2) = alloc g1
           in if \<not> ok2 then (False, [], g2)
              else let (ok, ms, g3) = new_nodes alloc k (Suc i) g2 in (ok, new_node i # ms, g3))"

definition random_init :: "'g alloc \<Rightarrow> int \<Rightarrow> string list \<Rightarrow> 'g random \<Rightarrow> int \<times> 'g random \<times> bool" where
  "random_init alloc version argv s =
     (if version \<noteq> 7
      then (1, rnd_logf LL_Error ''[RANDOM] Plugin interface version missmatch'' s, False)
      else
        let s1 = rnd_log_args 0 argv s
        in case argv of
             [] \<Rightarrow> (- 1, rnd_logf LL_Error ''[RANDOM] No node number is specifyed'' s1, False)
           | arg # _ \<Rightarrow>
               let num = sint (word_of_int (strtol_val 0 arg) :: u32); s2 = s1\<lparr>rnd_num := num\<rparr>
               in if num < 0
                  then (- 1, rnd_logf LL_Error ''[RANDOM] invalid number of nodes'' s2, False)
                  else
                    let s3 = rnd_logf LL_Debug
                               (snprintf 512 (''[RANDOM] creating '' @ show_int num @ '' nodes'')) s2;
                        (ok, ms, g) = new_nodes alloc (nat num) 0 (rnd_gen s3);
                        s4 = s3\<lparr>rnd_nodes := ms, rnd_gen := g\<rparr>
                    in if \<not> ok then (- 1, s4, False) else (0, s4, True))"

lemma random_fm_sel [simp]:
  "fm_get_nodes (random_fm alloc rand) = random_get_nodes" "fm_tic (random_fm alloc rand) = random_tic alloc rand"
  "fm_get_fail (random_fm alloc rand) = random_get_fail" "fm_inject_fail (random_fm alloc rand) = random_inject_fail"
  by (simp_all add: random_fm_def)

section \<open>One tic\<close>

lemma tic_nodes_names [simp]:
  "map mn_p (fst (tic_nodes alloc rand ms fs g)) = map mn_p ms"
  "length (fst (tic_nodes alloc rand ms fs g)) = length ms"
  by (induction ms arbitrary: fs g) (auto simp: split_beta Let_def)

text \<open>
  The faults of a tic are those of the nodes that were healthy before it and are not behind it,
  unless memory ran out.
\<close>

lemma tic_nodes_faults:
  "(\<And>g. fst (alloc g)) \<Longrightarrow> fst (snd (tic_nodes alloc rand ms fs g)) =
     fs @ map (\<lambda>(m, m'). node_failed m)
       (filter (\<lambda>(m, m'). mn_healthy m \<noteq> 0 \<and> mn_healthy m' = 0) (zip ms (fst (tic_nodes alloc rand ms fs g))))"
  by (induction ms arbitrary: fs g) (auto simp: split_beta Let_def)

lemma random_step_faults:
  assumes "\<And>g. fst (alloc g)"
  shows "fst (fm_step (random_fm alloc rand) s) = map (\<lambda>(m, m'). node_failed m)
    (filter (\<lambda>(m, m'). mn_healthy m \<noteq> 0 \<and> mn_healthy m' = 0)
      (zip (rnd_nodes s) (rnd_nodes (snd (fm_step (random_fm alloc rand) s)))))"
  using tic_nodes_faults [of alloc rand "rnd_nodes s" "[]" "rnd_gen s"] assms
  by (simp add: fm_step_def random_get_fail_def random_tic_def split_beta Let_def)

text \<open>With numbers below \<open>prob\<close> all healthy nodes fail in the first tic.\<close>

lemma tic_nodes_all:
  "(\<And>g. fst (alloc g)) \<Longrightarrow> (\<And>g. fst (rand g) < prob) \<Longrightarrow>
   fst (snd (tic_nodes alloc rand ms fs g)) = fs @ map node_failed (filter (\<lambda>m. mn_healthy m \<noteq> 0) ms)"
  by (induction ms arbitrary: fs g) (simp_all add: split_beta Let_def)

lemma tic_nodes_fault_healthy:
  "f \<in> set (fst (snd (tic_nodes alloc rand ms fs g))) \<Longrightarrow> f \<in> set fs \<or> (\<exists>m \<in> set ms. f = node_failed m)"
proof (induction ms arbitrary: fs g)
  case (Cons m ms)
  show ?case
  proof (cases "mn_healthy m \<noteq> 0 \<and> fst (rand g) < prob")
    case True
    with Cons.prems Cons.IH [of "fs @ [node_failed m]"] show ?thesis
      by (auto simp: split_beta Let_def split: if_splits)
  next
    case False
    with Cons.prems Cons.IH [of fs] show ?thesis by (auto simp: split_beta Let_def split: if_splits)
  qed
qed simp

section \<open>Names\<close>

definition mn_name :: "mynode \<Rightarrow> string" where
  "mn_name m = node_name (mn_p m)"

lemma mn_name_simps [simp]: "mn_name (m\<lparr>mn_healthy := h\<rparr>) = mn_name m" "fault_node (node_failed m) = mn_name m"
  by (simp_all add: mn_name_def node_failed_def)

lemma length_show_base: "n < b ^ Suc k \<Longrightarrow> 2 \<le> b \<Longrightarrow> length (show_base b n) \<le> Suc k"
proof (induction k arbitrary: n)
  case 0
  then show ?case by (subst show_base.simps) simp
next
  case (Suc k)
  then have "n div b < b ^ Suc k" by (simp add: less_mult_imp_div_less mult.commute)
  with Suc show ?case by (subst show_base.simps) auto
qed

lemma new_node_name: "i < 2 ^ 31 \<Longrightarrow> mn_name (new_node i) = ''node'' @ show_nat i"
proof -
  assume "i < 2 ^ 31"
  then have "length (show_nat i) \<le> Suc 9"
    unfolding show_nat_def by (intro length_show_base) auto
  then show ?thesis by (simp add: mn_name_def new_node_def snprintf_def)
qed

lemma show_nat_inject: "show_nat a = show_nat b \<longleftrightarrow> a = b"
proof
  assume eq: "show_nat a = show_nat b"
  have "Some (False, a, []) = read_number 0 (show_nat a @ [])"
    using read_number_show_nat(1) [of "[]" a] by simp
  also have "\<dots> = Some (False, b, [])"
    using read_number_show_nat(1) [of "[]" b] eq by simp
  finally show "a = b" by simp
qed simp

lemma show_nat_safe: "csv_safe (show_nat n)" "CHR ''t'' \<notin> set (show_nat n)"
  using show_base_digits [of 10 n]
  by (auto simp: show_nat_def list_all_iff is_digit_def digit_val_def intro: digits_csv_safe)

section \<open>The invariant\<close>

text \<open>
  After a successful \<open>init\<close>: the nodes are \<open>node0\<close>, \<open>node1\<close>, ..., without components, and a
  pending fault is the failure of one of them as a whole.
\<close>

definition random_inv :: "'g random \<Rightarrow> bool" where
  "random_inv s \<longleftrightarrow> rnd_num s = int (length (rnd_nodes s)) \<and> length (rnd_nodes s) < 2 ^ 31
     \<and> map mn_p (rnd_nodes s) = map (mn_p \<circ> new_node) [0..<length (rnd_nodes s)]
     \<and> list_all (\<lambda>f. fault_component f = None \<and> fault_severity f = 100
          \<and> fault_node f \<in> mn_name ` set (rnd_nodes s)) (rnd_faults s)"

lemma random_inv_names:
  "random_inv s \<Longrightarrow> map mn_name (rnd_nodes s) = map (\<lambda>i. ''node'' @ show_nat i) [0..<length (rnd_nodes s)]"
proof -
  assume inv: "random_inv s"
  then have "map node_name (map mn_p (rnd_nodes s))
      = map node_name (map (mn_p \<circ> new_node) [0..<length (rnd_nodes s)])"
    by (simp only: random_inv_def)
  then have "map mn_name (rnd_nodes s) = map (\<lambda>i. mn_name (new_node i)) [0..<length (rnd_nodes s)]"
    by (simp add: mn_name_def [abs_def] comp_def)
  also have "\<dots> = map (\<lambda>i. ''node'' @ show_nat i) [0..<length (rnd_nodes s)]"
    using inv by (intro map_cong) (auto simp: random_inv_def new_node_name)
  finally show ?thesis .
qed

lemma random_inv_distinct: "random_inv s \<Longrightarrow> distinct (map mn_name (rnd_nodes s))"
  by (simp add: random_inv_names distinct_map inj_on_def show_nat_inject)

lemma rnd_faults_log_args [simp]: "rnd_faults (rnd_log_args n as s) = rnd_faults s"
  by (induction as arbitrary: n s) (simp_all add: rnd_logf_def)

lemma new_nodes_ok: "new_nodes alloc k i g = (True, ms, g') \<Longrightarrow> ms = map new_node [i..<i + k]"
proof (induction k arbitrary: i g ms)
  case (Suc k)
  let ?r = "new_nodes alloc k (Suc i) (snd (alloc (snd (alloc g))))"
  have "fst ?r" "ms = new_node i # fst (snd ?r)" "g' = snd (snd ?r)"
    using Suc.prems by (auto simp: split_beta Let_def split: if_splits)
  with Suc.IH [of "Suc i" "snd (alloc (snd (alloc g)))" "fst (snd ?r)"] show ?case
    by (cases ?r) (simp add: upt_conv_Cons del: upt_Suc)
qed simp

lemma random_init_nodes:
  "random_init alloc v argv s = (0, s', ok) \<Longrightarrow>
   rnd_nodes s' = map new_node [0..<nat (rnd_num s')] \<and> 0 \<le> rnd_num s' \<and> rnd_num s' < 2 ^ 31 \<and> rnd_faults s' = rnd_faults s"
proof -
  have "sint (w :: u32) < 2 ^ 31" for w using sint_less [of w] by simp
  moreover assume "random_init alloc v argv s = (0, s', ok)"
  ultimately show ?thesis
    by (auto simp: random_init_def rnd_logf_def Let_def dest!: new_nodes_ok split: if_splits list.splits prod.splits)
qed

lemma random_init_inv [inv_intros]:
  "random_init alloc v argv s = (0, s', ok) \<Longrightarrow> rnd_faults s = [] \<Longrightarrow> random_inv s'"
  using random_init_nodes [of alloc v argv s s' ok] by (auto simp: random_inv_def nat_less_iff)

lemma random_tic_inv [inv_intros]:
  assumes inv: "random_inv s"
  shows "random_inv (random_tic alloc rand s)"
proof -
  let ?r = "tic_nodes alloc rand (rnd_nodes s) [] (rnd_gen s)"
  have names: "mn_name ` set (fst ?r) = mn_name ` set (rnd_nodes s)"
    using arg_cong [OF tic_nodes_names(1), of "\<lambda>ns. node_name ` set ns" alloc rand "rnd_nodes s" "[]" "rnd_gen s"]
    by (simp add: mn_name_def [abs_def] image_image del: tic_nodes_names)
  have "list_all (\<lambda>f. fault_component f = None \<and> fault_severity f = 100
      \<and> fault_node f \<in> mn_name ` set (fst ?r)) (fst (snd ?r))"
    unfolding names list_all_iff
    by (auto dest!: tic_nodes_fault_healthy) (auto simp: node_failed_def mn_name_def)
  with inv show ?thesis by (simp add: random_inv_def random_tic_def split_beta Let_def)
qed

lemma random_recordable_fault:
  assumes "random_inv s" "f \<in> set (rnd_faults s)"
  shows "recordable_fault f"
proof -
  obtain i where i: "fault_node f = ''node'' @ show_nat i"
  proof -
    from assms have "fault_node f \<in> set (map mn_name (rnd_nodes s))"
      by (auto simp: random_inv_def list_all_iff)
    then show thesis using that assms(1) by (auto simp: random_inv_names)
  qed
  have comp: "fault_component f = None" using assms by (auto simp: random_inv_def list_all_iff)
  have "CHR ''t'' \<notin> set (show_signed (fault_severity f))"
    by (auto simp: is_digit_def digit_val_def dest: show_signed_chars)
  then have "CHR ''t'' \<notin> set (fault_line f)"
    using i comp show_nat_safe(2) [of i] by (simp add: fault_line_def)
  then have "\<not> strstr ''tic#'' (fault_line f)" using strstr_sub [of "CHR ''t''" "''ic#''"] by blast
  then show ?thesis using i comp show_nat_safe(1) [of i] by (simp add: recordable_fault_def csv_safe_def)
qed

lemma random_recordable_nodes:
  assumes "random_inv s"
  shows "recordable_nodes (map mn_p (rnd_nodes s))"
proof -
  have "recordable_node (mn_p (new_node i))" if "i < 2 ^ 31" for i
    using new_node_name [OF that] show_nat_safe(1) [of i]
    by (simp add: recordable_node_def mn_name_def csv_safe_def new_node_def)
  with assms show ?thesis
    by (auto simp: recordable_nodes_def random_inv_def list_all_iff)
qed

text \<open>The random manager keeps the contract of the recorder, and so does a recorder around it.\<close>

interpretation rnd: recordable_manager "random_fm alloc rand" random_inv
  for alloc :: "'g alloc" and rand :: "'g draw"
proof
  fix s :: "'g random" and ns
  assume inv: "random_inv s"
  show "random_inv (snd (fm_get_nodes (random_fm alloc rand) s))" "random_inv (snd (fm_get_fail (random_fm alloc rand) s))"
    using inv by (simp_all add: random_get_nodes_def random_get_fail_def)
  show "random_inv (fm_tic (random_fm alloc rand) s)" using inv by (simp add: random_tic_inv)
  show "list_all recordable_fault (fst (fm_get_fail (random_fm alloc rand) s))"
    using random_recordable_fault [OF inv] by (simp add: random_get_fail_def list_all_iff)
  show "recordable_nodes ns" if "fst (fm_get_nodes (random_fm alloc rand) s) = Nodes ns"
    using that random_recordable_nodes [OF inv] by (auto simp: random_get_nodes_def split: if_splits)
qed

interpretation trnd: recordable_manager "transcribe_fm (random_fm alloc rand)" "\<lambda>s. random_inv (tr_nested s)"
  for alloc :: "'g alloc" and rand :: "'g draw"
  by (rule recordable_transcribe) (rule rnd.recordable_manager_axioms)

section \<open>A node fails at most once\<close>

definition healthy_names :: "mynode list \<Rightarrow> string list" where
  "healthy_names ms = map mn_name (filter (\<lambda>m. mn_healthy m \<noteq> 0) ms)"

lemma healthy_names_simps [simp]:
  "healthy_names [] = []"
  "healthy_names (m # ms) = (if mn_healthy m \<noteq> 0 then mn_name m # healthy_names ms else healthy_names ms)"
  by (simp_all add: healthy_names_def)

text \<open>A tic moves nodes from the healthy ones to the failing ones, or drops them.\<close>

lemma tic_nodes_split:
  "set (map fault_node (fst (snd (tic_nodes alloc rand ms fs g)))) \<union> set (healthy_names (fst (tic_nodes alloc rand ms fs g)))
     \<subseteq> set (map fault_node fs) \<union> set (healthy_names ms)"
proof (induction ms arbitrary: fs g)
  case (Cons m ms)
  show ?case
  proof (cases "mn_healthy m \<noteq> 0 \<and> fst (rand g) < prob")
    case True
    with Cons.IH [of "fs @ [node_failed m]"] show ?thesis by (auto simp: split_beta Let_def)
  next
    case False
    with Cons.IH [of fs "snd (rand g)"] Cons.IH [of fs g] show ?thesis by (auto simp: split_beta Let_def)
  qed
qed simp

lemma tic_nodes_distinct:
  "distinct (map fault_node fs @ healthy_names ms) \<Longrightarrow>
   distinct (map fault_node (fst (snd (tic_nodes alloc rand ms fs g))) @ healthy_names (fst (tic_nodes alloc rand ms fs g)))"
proof (induction ms arbitrary: fs g)
  case (Cons m ms)
  have sub: "mn_name m \<notin> set (map fault_node (fst (snd (tic_nodes alloc rand ms fs g'))))
        \<union> set (healthy_names (fst (tic_nodes alloc rand ms fs g')))" if "mn_healthy m \<noteq> 0" for g'
    using tic_nodes_split [of alloc rand ms fs g'] Cons.prems that by auto
  show ?case
  proof (cases "mn_healthy m \<noteq> 0 \<and> fst (rand g) < prob")
    case True
    then have "distinct (map fault_node (fs @ [node_failed m]) @ healthy_names ms)" using Cons.prems by auto
    from Cons.IH [OF this] Cons.prems True show ?thesis by (simp add: split_beta Let_def)
  next
    case False
    then have "distinct (map fault_node fs @ healthy_names ms)" using Cons.prems by (auto split: if_splits)
    from Cons.IH [OF this] sub False show ?thesis by (auto simp: split_beta Let_def)
  qed
qed simp

lemma random_run_distinct:
  "distinct (healthy_names (rnd_nodes s)) \<Longrightarrow>
   distinct (concat (map (map fault_node) (fst (fm_run (random_fm alloc rand) n s))))
   \<and> set (concat (map (map fault_node) (fst (fm_run (random_fm alloc rand) n s)))) \<subseteq> set (healthy_names (rnd_nodes s))"
proof (induction n arbitrary: s)
  case (Suc n)
  let ?r = "tic_nodes alloc rand (rnd_nodes s) [] (rnd_gen s)"
  have d: "distinct (map fault_node (fst (snd ?r)) @ healthy_names (fst ?r))"
    using Suc.prems by (intro tic_nodes_distinct) simp
  have step: "fm_step (random_fm alloc rand) s
      = (fst (snd ?r), s\<lparr>rnd_nodes := fst ?r, rnd_faults := fst (snd ?r), rnd_gen := snd (snd ?r)\<rparr>)"
    by (simp add: fm_step_def random_get_fail_def random_tic_def split_beta Let_def)
  let ?s' = "snd (fm_step (random_fm alloc rand) s)"
  let ?later = "concat (map (map fault_node) (fst (fm_run (random_fm alloc rand) n ?s')))"
  have IH: "distinct ?later" "set ?later \<subseteq> set (healthy_names (fst ?r))"
    using Suc.IH [of ?s'] d by (simp_all add: step)
  have all: "concat (map (map fault_node) (fst (fm_run (random_fm alloc rand) (Suc n) s)))
      = map fault_node (fst (snd ?r)) @ ?later"
    by (simp add: step split_beta Let_def)
  have "set (map fault_node (fst (snd ?r))) \<union> set (healthy_names (fst ?r)) \<subseteq> set (healthy_names (rnd_nodes s))"
    using tic_nodes_split [of alloc rand "rnd_nodes s" "[]" "rnd_gen s"] by simp
  with d IH show ?case unfolding all distinct_append set_append by blast
qed simp

lemma random_run_all:
  assumes "\<And>g. fst (alloc g)" "\<And>g. fst (rand g) < prob" "0 < n"
  shows "set (healthy_names (rnd_nodes s)) \<subseteq> set (concat (map (map fault_node) (fst (fm_run (random_fm alloc rand) n s))))"
proof -
  obtain k where n: "n = Suc k" using assms(3) by (cases n) simp_all
  have "fst (fm_step (random_fm alloc rand) s) = map node_failed (filter (\<lambda>m. mn_healthy m \<noteq> 0) (rnd_nodes s))"
    using tic_nodes_all [of alloc rand "rnd_nodes s" "[]" "rnd_gen s"] assms(1,2)
    by (simp add: fm_step_def random_get_fail_def random_tic_def split_beta Let_def)
  then show ?thesis by (force simp: n healthy_names_def split_beta Let_def)
qed

end
