(* ===== verification/Plugin_Manager.thy ===== *)
theory Plugin_Manager
  imports Lausim_Types
begin

text \<open>
  Libraries (\<open>srv/library.cpp\<close>) and the plugin manager (\<open>srv/plugin_internal.cpp\<close>).

  A plugin is known by the address of its \<open>plugin\<close> struct; the structs are static objects of the
  loaded libraries that no code writes, so they are a constant heap \<open>h\<close> from addresses to
  structs. \<open>std::map<plugin*, plugin_type_t>\<close> iterates in the order of the addresses: it is an
  association list sorted by address. The functions of a plugin act on the world: the plugin
  manager and the states of all plugins (\<open>'p\<close>). The dynamic loader is a parameter.
\<close>

section \<open>Plugins (plugin.h)\<close>

abbreviation (input) PL_INTF_VERSION :: int where "PL_INTF_VERSION \<equiv> 7"

abbreviation (input) PL_NONE :: u64 where "PL_NONE \<equiv> 0"
abbreviation (input) PL_COM_ACTOR :: u64 where "PL_COM_ACTOR \<equiv> 1"
abbreviation (input) PL_COM_EXTERN :: u64 where "PL_COM_EXTERN \<equiv> 2"
abbreviation (input) PL_FAULT_MANAGER :: u64 where "PL_FAULT_MANAGER \<equiv> 4"
abbreviation (input) PL_LOGGER :: u64 where "PL_LOGGER \<equiv> 8"
abbreviation (input) PL_TOPOLOGY :: u64 where "PL_TOPOLOGY \<equiv> 16"
abbreviation (input) PL_OTHER :: u64 where "PL_OTHER \<equiv> 32"

type_synonym ptr = nat

record 'w plugin =
  pl_version :: int
  pl_type :: u64
  pl_name :: string
  pl_post_init :: "('w \<Rightarrow> int \<times> 'w) option"
  pl_cleanup :: "('w \<Rightarrow> int \<times> 'w) option"
  pl_c :: "'w com option"
  pl_fm :: "'w fault_manager option"
  pl_lf :: bool

type_synonym 'w pheap = "ptr \<Rightarrow> 'w plugin"

definition HAS_PL_TYPE :: "'w plugin \<Rightarrow> u64 \<Rightarrow> bool" where
  "HAS_PL_TYPE pl t \<longleftrightarrow> pl_type pl AND t \<noteq> 0"

section \<open>Libraries\<close>

text \<open>An opened library resolves symbols; the only one asked for is the \<open>init\<close> function.\<close>

record 'i library =
  lib_argc :: int
  lib_argv :: "string list"
  lib_is_init :: bool
  lib_name :: string
  lib_handle :: "(string \<Rightarrow> 'i option) option"

definition new_library :: "'i library" where
  "new_library = \<lparr>lib_argc = 0, lib_argv = [], lib_is_init = False, lib_name = [], lib_handle = None\<rparr>"

definition library_open ::
  "(string \<Rightarrow> (string \<Rightarrow> 'i option) option) \<Rightarrow> string \<Rightarrow> 'i library \<Rightarrow> int \<times> 'i library" where
  "library_open dlmopen filename lib =
     (if lib_is_init lib then (- 1, lib)
      else case dlmopen filename of
             None \<Rightarrow> (- 2, lib\<lparr>lib_handle := None\<rparr>)
           | Some syms \<Rightarrow> (0, lib\<lparr>lib_handle := Some syms, lib_name := filename, lib_is_init := True\<rparr>))"

definition get_sym_addr :: "string \<Rightarrow> 'i library \<Rightarrow> 'i option" where
  "get_sym_addr symname lib =
     (if \<not> lib_is_init lib then None
      else case lib_handle lib of None \<Rightarrow> None | Some syms \<Rightarrow> syms symname)"

section \<open>The plugin manager\<close>

datatype logger_ref = Standard_log | Logger_of ptr

text \<open>
  \<open>pm_log\<close> lists the calls of \<open>logger_used->log_fun\<close> with the logger they went to, \<open>pm_set_ll\<close>
  those of \<open>logger_used->set_ll\<close>, \<open>pm_cout\<close> is the text on standard output, \<open>pm_libs\<close> the names
  and arguments of the loaded libraries.
\<close>

record pm =
  pm_plugins :: "(ptr \<times> u64) list"
  pm_logger_used :: logger_ref
  pm_libs :: "(string \<times> string list) list"
  pm_log :: "(logger_ref \<times> log_call) list"
  pm_cout :: string
  pm_set_ll :: "(logger_ref \<times> log_level) list"

definition new_pm :: pm where
  "new_pm = \<lparr>pm_plugins = [], pm_logger_used = Standard_log, pm_libs = [], pm_log = [], pm_cout = [],
            pm_set_ll = []\<rparr>"

definition pm_logf :: "log_level \<Rightarrow> string \<Rightarrow> pm \<Rightarrow> pm" where
  "pm_logf l m s = s\<lparr>pm_log := pm_log s @ [(pm_logger_used s, l, m)]\<rparr>"

definition get_by_name :: "'w pheap \<Rightarrow> string \<Rightarrow> pm \<Rightarrow> ptr option" where
  "get_by_name h name s = map_option fst (find (\<lambda>(p, role). pl_name (h p) = name) (pm_plugins s))"

definition get_by_type :: "u64 \<Rightarrow> pm \<Rightarrow> ptr option" where
  "get_by_type type s = map_option fst (find (\<lambda>(p, role). role AND type = type) (pm_plugins s))"

definition register_plugin :: "'w pheap \<Rightarrow> ptr \<Rightarrow> pm \<Rightarrow> int \<times> pm" where
  "register_plugin h p s =
     (let s1 = pm_logf LL_Debug (''trying to register new plugin '' @ pl_name (h p)) s
      in if get_by_name h (pl_name (h p)) s1 \<noteq> None \<or> p \<in> fst ` set (pm_plugins s1) then (- 1, s1)
         else (0, s1\<lparr>pm_plugins := insort_key fst (p, PL_NONE) (pm_plugins s1)\<rparr>))"

text \<open>\<open>plugins.at(pl)\<close> throws \<open>std::out_of_range\<close> for an address that is not registered.\<close>

datatype exn = Exn_out_of_range | Exn_invalid_argument

definition update_role :: "ptr \<Rightarrow> (u64 \<Rightarrow> u64) \<Rightarrow> pm \<Rightarrow> exn + int \<times> pm" where
  "update_role p f s =
     (if p \<in> fst ` set (pm_plugins s)
      then Inr (0, s\<lparr>pm_plugins := map (\<lambda>(q, r). (q, if q = p then f r else r)) (pm_plugins s)\<rparr>)
      else Inl Exn_out_of_range)"

definition set_role :: "'w pheap \<Rightarrow> ptr option \<Rightarrow> u64 \<Rightarrow> pm \<Rightarrow> exn + int \<times> pm" where
  "set_role h pl new_role s =
     (case pl of
        None \<Rightarrow> Inr (- 1, s)
      | Some p \<Rightarrow> if pl_type (h p) AND new_role \<noteq> new_role then Inr (- 1, s)
                 else update_role p (\<lambda>_. new_role) s)"

definition add_role :: "'w pheap \<Rightarrow> ptr option \<Rightarrow> u64 \<Rightarrow> pm \<Rightarrow> exn + int \<times> pm" where
  "add_role h pl new_role s =
     (case pl of
        None \<Rightarrow> Inr (- 1, s)
      | Some p \<Rightarrow> if pl_type (h p) AND new_role \<noteq> new_role then Inr (- 1, s)
                 else update_role p (\<lambda>r. r OR new_role) s)"

definition all_plugins :: "pm \<Rightarrow> (u64 \<times> ptr) list" where
  "all_plugins s = map (\<lambda>(p, role). (role, p)) (pm_plugins s)"

text \<open>
  The interface the manager hands to the libraries: a table of functions that call the one instance.
\<close>

record plugin_manager_interface =
  pi_version :: int
  pi_register_plugin :: "ptr \<Rightarrow> pm \<Rightarrow> int \<times> pm"
  pi_by_name :: "string \<Rightarrow> pm \<Rightarrow> ptr option"
  pi_by_type :: "u64 \<Rightarrow> pm \<Rightarrow> ptr option"
  pi_get_logger :: "pm \<Rightarrow> logger_ref"
  pi_all_plugins :: "pm \<Rightarrow> (u64 \<times> ptr) list"
  pi_set_role :: "ptr option \<Rightarrow> u64 \<Rightarrow> pm \<Rightarrow> exn + int \<times> pm"
  pi_add_role :: "ptr option \<Rightarrow> u64 \<Rightarrow> pm \<Rightarrow> exn + int \<times> pm"

definition interface :: "'w pheap \<Rightarrow> plugin_manager_interface" where
  "interface h =
     \<lparr>pi_version = PL_INTF_VERSION, pi_register_plugin = register_plugin h, pi_by_name = get_by_name h,
      pi_by_type = get_by_type, pi_get_logger = pm_logger_used, pi_all_plugins = all_plugins,
      pi_set_role = set_role h, pi_add_role = add_role h\<rparr>"

lemma interface_sel [simp]:
  "pi_version (interface h) = PL_INTF_VERSION" "pi_register_plugin (interface h) = register_plugin h"
  "pi_by_name (interface h) = get_by_name h" "pi_set_role (interface h) = set_role h"
  "pi_add_role (interface h) = add_role h"
  by (simp_all add: interface_def)

section \<open>Loading and unloading\<close>

record 'p world =
  w_pm :: pm
  w_plug :: 'p

type_synonym 'p init_fun = "string list \<Rightarrow> 'p world \<Rightarrow> int \<times> 'p world"
type_synonym 'p loader = "string \<Rightarrow> (string \<Rightarrow> 'p init_fun option) option"

definition pm_print :: "string \<Rightarrow> 'p world \<Rightarrow> 'p world" where
  "pm_print t w = w\<lparr>w_pm := (w_pm w)\<lparr>pm_cout := pm_cout (w_pm w) @ t\<rparr>\<rparr>"

text \<open>\<open>dlerror\<close> is the loader's message. A library whose \<open>init\<close> fails is closed again.\<close>

definition load_library :: "'p loader \<Rightarrow> string \<Rightarrow> string \<Rightarrow> string list \<Rightarrow> 'p world \<Rightarrow> int \<times> 'p world" where
  "load_library dlmopen dlerror filename argv w =
     (let (ret, nlib) = library_open dlmopen filename (new_library\<lparr>lib_argc := int (length argv)\<rparr>)
      in if ret \<noteq> 0
         then (- 1, pm_print (''[FATAL] unable to load '' @ filename @ '': '' @ dlerror @ [newline]) w)
         else case get_sym_addr ''init'' nlib of
                None \<Rightarrow> (- 2, pm_print (''[FATAL] unable to get symbol init in '' @ filename @ [newline]) w)
              | Some init \<Rightarrow>
                  let (r, w1) = init argv w
                  in if r \<noteq> 0
                     then (- 3, pm_print (''[FATAL] initialization of '' @ filename @ '' failed'' @ [newline]) w1)
                     else (0, w1\<lparr>w_pm := (w_pm w1)\<lparr>pm_libs := pm_libs (w_pm w1) @ [(filename, argv)]\<rparr>\<rparr>))"

text \<open>\<open>cleanup\<close>: the clean-up functions in the order of the map, then every library is released.\<close>

fun run_cleanups :: "'p world pheap \<Rightarrow> ptr list \<Rightarrow> 'p world \<Rightarrow> 'p world" where
  "run_cleanups h [] w = w"
| "run_cleanups h (p # ps) w =
     run_cleanups h ps (case pl_cleanup (h p) of None \<Rightarrow> w | Some f \<Rightarrow> snd (f w))"

definition pm_cleanup :: "'p world pheap \<Rightarrow> 'p world \<Rightarrow> 'p world" where
  "pm_cleanup h w =
     (let w1 = run_cleanups h (map fst (pm_plugins (w_pm w))) w
      in w1\<lparr>w_pm := (w_pm w1)\<lparr>pm_libs := []\<rparr>\<rparr>)"

section \<open>The invariant\<close>

text \<open>
  Addresses ascend strictly, no two plugins share a name, and a role is always a subset of the
  capabilities of its plugin.
\<close>

definition pm_inv :: "'w pheap \<Rightarrow> pm \<Rightarrow> bool" where
  "pm_inv h s \<longleftrightarrow> sorted_wrt (<) (map fst (pm_plugins s))
     \<and> distinct (map (\<lambda>e. pl_name (h (fst e))) (pm_plugins s))
     \<and> list_all (\<lambda>e. pl_type (h (fst e)) AND snd e = snd e) (pm_plugins s)"

lemma pm_logf_sel [simp]:
  "pm_plugins (pm_logf l m s) = pm_plugins s" "pm_logger_used (pm_logf l m s) = pm_logger_used s"
  "pm_inv h (pm_logf l m s) = pm_inv h s" "get_by_name h n (pm_logf l m s) = get_by_name h n s"
  by (simp_all add: pm_logf_def pm_inv_def get_by_name_def)

lemma new_pm_inv [inv_intros]: "pm_inv h new_pm"
  by (simp add: new_pm_def pm_inv_def)

lemma get_by_name_None: "get_by_name h n s = None \<longleftrightarrow> n \<notin> (\<lambda>e. pl_name (h (fst e))) ` set (pm_plugins s)"
  by (force simp: get_by_name_def find_None_iff)

lemma sorted_insort_ptr:
  "sorted_wrt (<) (map fst xs) \<Longrightarrow> fst x \<notin> fst ` set xs \<Longrightarrow> sorted_wrt (<) (map fst (insort_key fst x xs))"
  for x :: "ptr \<times> 'a"
  by (induction xs) (auto simp: set_insort_key)

lemma distinct_insort_map:
  "distinct (map g (insort_key f x xs)) \<longleftrightarrow> g x \<notin> g ` set xs \<and> distinct (map g xs)"
  by (induction xs) (auto simp: set_insort_key)

lemma list_all_insort [simp]: "list_all P (insort_key f x xs) \<longleftrightarrow> P x \<and> list_all P xs"
  by (induction xs) auto

lemma register_plugin_inv [inv_intros]:
  "pm_inv h s \<Longrightarrow> register_plugin h p s = (r, s') \<Longrightarrow> pm_inv h s'"
  by (auto simp: register_plugin_def pm_inv_def Let_def get_by_name_None sorted_insort_ptr
      distinct_insort_map split: if_splits)

lemma role_or_subset: "(t :: u64) AND a = a \<Longrightarrow> t AND b = b \<Longrightarrow> t AND (a OR b) = a OR b"
  by (simp add: bit.conj_disj_distrib)

lemma update_role_inv:
  assumes "pm_inv h s" "update_role p f s = Inr (r, s')"
    "\<And>role. pl_type (h p) AND role = role \<Longrightarrow> pl_type (h p) AND f role = f role"
  shows "pm_inv h s'"
proof -
  let ?f = "\<lambda>(q, r). (q, if q = p then f r else r)"
  from assms(2) have s': "s' = s\<lparr>pm_plugins := map ?f (pm_plugins s)\<rparr>"
    by (auto simp: update_role_def split: if_splits)
  have same: "fst (?f e) = fst e" for e by (cases e) simp
  have sub: "pl_type (h (fst e)) AND snd e = snd e \<Longrightarrow> pl_type (h (fst e)) AND snd (?f e) = snd (?f e)" for e
    using assms(3) by (cases e) auto
  show ?thesis
    using assms(1) by (auto simp: s' pm_inv_def list_all_iff comp_def same sub)
qed

lemma set_role_inv [inv_intros]: "pm_inv h s \<Longrightarrow> set_role h pl nr s = Inr (r, s') \<Longrightarrow> pm_inv h s'"
  by (auto simp: set_role_def split: option.splits if_splits intro: update_role_inv)

lemma add_role_inv [inv_intros]: "pm_inv h s \<Longrightarrow> add_role h pl nr s = Inr (r, s') \<Longrightarrow> pm_inv h s'"
  by (auto simp: add_role_def split: option.splits if_splits intro: update_role_inv role_or_subset)

section \<open>Lookups\<close>

text \<open>Names are unique, so the lookup by name is the inverse of the name.\<close>

lemma get_by_name_found:
  "get_by_name h n s = Some p \<Longrightarrow> p \<in> fst ` set (pm_plugins s) \<and> pl_name (h p) = n"
proof -
  assume "get_by_name h n s = Some p"
  then obtain e where "find (\<lambda>(p, role). pl_name (h p) = n) (pm_plugins s) = Some e" "p = fst e"
    by (auto simp: get_by_name_def)
  then show ?thesis by (auto simp: find_Some_iff split_beta)
qed

lemma get_by_name_iff:
  assumes "pm_inv h s"
  shows "get_by_name h n s = Some p \<longleftrightarrow> p \<in> fst ` set (pm_plugins s) \<and> pl_name (h p) = n"
proof
  assume "get_by_name h n s = Some p"
  then show "p \<in> fst ` set (pm_plugins s) \<and> pl_name (h p) = n"
    by (rule get_by_name_found)
next
  assume p: "p \<in> fst ` set (pm_plugins s) \<and> pl_name (h p) = n"
  have "inj_on (\<lambda>e. pl_name (h (fst e))) (set (pm_plugins s))"
    using assms by (simp add: pm_inv_def distinct_map)
  moreover obtain q where q: "get_by_name h n s = Some q"
    using p get_by_name_None [of h n s] by force
  moreover from q have "q \<in> fst ` set (pm_plugins s) \<and> pl_name (h q) = n"
    by (rule get_by_name_found)
  ultimately show "get_by_name h n s = Some p"
    using p by (fastforce simp: inj_on_def)
qed

lemma get_by_type_Some:
  "get_by_type t s = Some p \<Longrightarrow>
   \<exists>role. (p, role) \<in> set (pm_plugins s) \<and> role AND t = t
     \<and> (\<forall>(q, r) \<in> set (pm_plugins s). r AND t = t \<longrightarrow> sorted_wrt (<) (map fst (pm_plugins s)) \<longrightarrow> p \<le> q)"
proof -
  assume "get_by_type t s = Some p"
  then obtain i where i: "i < length (pm_plugins s)" "fst (pm_plugins s ! i) = p"
    "snd (pm_plugins s ! i) AND t = t" "\<forall>j<i. \<not> (snd (pm_plugins s ! j) AND t = t)"
    by (auto simp: get_by_type_def find_Some_iff split_beta) (metis fst_conv)
  have "p \<le> q" if q: "(q, r) \<in> set (pm_plugins s)" "r AND t = t" "sorted_wrt (<) (map fst (pm_plugins s))" for q r
  proof -
    obtain j where j: "j < length (pm_plugins s)" "pm_plugins s ! j = (q, r)"
      using q(1) by (auto simp: in_set_conv_nth)
    with i q(2) have "i \<le> j" by (metis not_le snd_conv)
    then show ?thesis
      using sorted_wrt_nth_less [OF q(3), of i j] i j by (cases "i = j") auto
  qed
  with i show ?thesis by (metis (mono_tags, lifting) case_prodI2 nth_mem prod.collapse)
qed

lemma get_by_type_None: "get_by_type t s = None \<longleftrightarrow> (\<forall>(p, role) \<in> set (pm_plugins s). role AND t \<noteq> t)"
  by (force simp: get_by_type_def find_None_iff)

lemma get_by_type_capable:
  "pm_inv h s \<Longrightarrow> get_by_type t s = Some p \<Longrightarrow> pl_type (h p) AND t = t"
proof -
  assume inv: "pm_inv h s" and "get_by_type t s = Some p"
  then obtain role where role: "(p, role) \<in> set (pm_plugins s)" "role AND t = t"
    using get_by_type_Some by blast
  with inv have "pl_type (h p) AND role = role" by (auto simp: pm_inv_def list_all_iff)
  with role(2) show ?thesis by (metis and.assoc)
qed

section \<open>What a registry promises\<close>

text \<open>
  The clients (configuration, server, transcribe plugin) use registration and the lookup by name.
  The laws say what a lookup returns after a registration; the lemma proved from them is what
  the loading of a configuration relies on.
\<close>

locale registry =
  fixes invar :: "'r \<Rightarrow> bool"
    and reg :: "ptr \<Rightarrow> 'r \<Rightarrow> int \<times> 'r"
    and by_name :: "string \<Rightarrow> 'r \<Rightarrow> ptr option"
    and name_of :: "ptr \<Rightarrow> string"
  assumes invar_reg: "invar s \<Longrightarrow> invar (snd (reg p s))"
    and reg_fresh: "invar s \<Longrightarrow> by_name (name_of p) s = None \<Longrightarrow> fst (reg p s) = 0"
    and reg_taken: "invar s \<Longrightarrow> by_name (name_of p) s \<noteq> None \<Longrightarrow> fst (reg p s) \<noteq> 0"
    and lookup_reg: "invar s \<Longrightarrow> by_name n (snd (reg p s)) =
      (if n = name_of p \<and> by_name n s = None then Some p else by_name n s)"
begin

definition reg_all :: "ptr list \<Rightarrow> 'r \<Rightarrow> 'r" where
  "reg_all ps s = fold (\<lambda>p s. snd (reg p s)) ps s"

lemma invar_reg_all: "invar s \<Longrightarrow> invar (reg_all ps s)"
  by (induction ps arbitrary: s) (auto simp: reg_all_def invar_reg)

text \<open>The first plugin with a name keeps it: later registrations under the name change nothing.\<close>

theorem lookup_reg_all:
  "invar s \<Longrightarrow> by_name n (reg_all ps s) =
     (case by_name n s of Some q \<Rightarrow> Some q | None \<Rightarrow> find (\<lambda>p. name_of p = n) ps)"
proof (induction ps arbitrary: s)
  case (Cons p ps)
  then have "by_name n (reg_all (p # ps) s) =
      (case by_name n (snd (reg p s)) of Some q \<Rightarrow> Some q | None \<Rightarrow> find (\<lambda>p. name_of p = n) ps)"
    by (simp add: reg_all_def invar_reg)
  then show ?case using Cons.prems by (auto simp: lookup_reg split: option.splits)
qed (simp add: reg_all_def split: option.splits)

end

lemma register_plugin_fresh:
  "pm_inv h s \<Longrightarrow> get_by_name h (pl_name (h p)) s = None \<Longrightarrow> p \<notin> fst ` set (pm_plugins s)"
  using get_by_name_iff [of h s "pl_name (h p)" p] by auto

lemma register_plugin_plugins:
  "pm_inv h s \<Longrightarrow> get_by_name h (pl_name (h p)) s = None \<Longrightarrow>
   fst (register_plugin h p s) = 0
   \<and> pm_plugins (snd (register_plugin h p s)) = insort_key fst (p, PL_NONE) (pm_plugins s)"
  using register_plugin_fresh [of h s p] by (auto simp: register_plugin_def Let_def)

lemma register_plugin_lookup:
  assumes inv: "pm_inv h s"
  shows "get_by_name h n (snd (register_plugin h p s)) =
    (if n = pl_name (h p) \<and> get_by_name h n s = None then Some p else get_by_name h n s)"
proof (cases "get_by_name h (pl_name (h p)) s = None")
  case True
  let ?s' = "snd (register_plugin h p s)"
  have inv': "pm_inv h ?s'" using inv register_plugin_inv surjective_pairing by blast
  have "get_by_name h n ?s' = Some q \<longleftrightarrow> (q = p \<or> q \<in> fst ` set (pm_plugins s)) \<and> pl_name (h q) = n" for q
    using get_by_name_iff [OF inv', of n q] register_plugin_plugins [OF inv True]
    by (simp add: set_insort_key image_iff)
  moreover have "get_by_name h n s = Some q \<longleftrightarrow> q \<in> fst ` set (pm_plugins s) \<and> pl_name (h q) = n" for q
    by (rule get_by_name_iff [OF inv])
  ultimately show ?thesis using True by (metis not_None_eq)
qed (auto simp: register_plugin_def Let_def)

interpretation pmr: registry "pm_inv h" "register_plugin h" "get_by_name h" "\<lambda>p. pl_name (h p)"
  for h :: "'w pheap"
proof
  fix s p n
  assume inv: "pm_inv h s"
  show "pm_inv h (snd (register_plugin h p s))" using inv register_plugin_inv surjective_pairing by blast
  show "fst (register_plugin h p s) = 0" if "get_by_name h (pl_name (h p)) s = None"
    using register_plugin_plugins [OF inv that] by simp
  show "fst (register_plugin h p s) \<noteq> 0" if "get_by_name h (pl_name (h p)) s \<noteq> None"
    using that by (simp add: register_plugin_def Let_def)
  show "get_by_name h n (snd (register_plugin h p s)) =
    (if n = pl_name (h p) \<and> get_by_name h n s = None then Some p else get_by_name h n s)"
    using inv by (rule register_plugin_lookup)
qed

end
