(* ===== verification/Config.thy ===== *)
theory Config
  imports Plugin_Manager
begin

text \<open>
  The configuration file (\<open>srv/config.cpp\<close>): its sections, the loading of libraries and the
  assignment of plugins to roles. A line is a string without its newline, a \<open>std::stringstream\<close>
  the text not extracted yet. The file system and the dynamic loader are parameters.
\<close>

section \<open>Tokens\<close>

abbreviation (input) config_id :: u32 where "config_id \<equiv> 0"
abbreviation (input) libs_id :: u32 where "libs_id \<equiv> 1"
abbreviation (input) none_id :: u32 where "none_id \<equiv> 0xFFFF"
abbreviation (input) decl_id :: u32 where "decl_id \<equiv> 0x100"
abbreviation (input) com_actor_id :: u32 where "com_actor_id \<equiv> 0x100"
abbreviation (input) com_notify_id :: u32 where "com_notify_id \<equiv> 0x101"
abbreviation (input) logger_id :: u32 where "logger_id \<equiv> 0x102"
abbreviation (input) manager_id :: u32 where "manager_id \<equiv> 0x103"
abbreviation (input) com_all_id :: u32 where "com_all_id \<equiv> 0x104"
abbreviation (input) tic_id :: u32 where "tic_id \<equiv> 0x105"

definition tokenids :: "(string \<times> u32) list" where
  "tokenids =
     [(''[library]'', libs_id), (''[lib]'', libs_id), (''[libs]'', libs_id), (''[config]'', config_id),
      (''com-actor'', com_actor_id), (''com_actor'', com_actor_id), (''actor'', com_actor_id),
      (''com-notify'', com_notify_id), (''com_notify'', com_notify_id), (''notify'', com_notify_id),
      (''com'', com_all_id), (''logger'', logger_id), (''log'', logger_id),
      (''fault-manager'', manager_id), (''fault_manager'', manager_id), (''fault'', manager_id),
      (''manager'', manager_id), (''tic'', tic_id), (''tik'', tic_id)]"

definition get_token_identifyer :: "string \<Rightarrow> u32" where
  "get_token_identifyer tk =
     (case find (\<lambda>(name, tid). strcasecmp_eq (c_str tk) name) tokenids of
        Some (_, tid) \<Rightarrow> tid
      | None \<Rightarrow> none_id)"

function tokens :: "string \<Rightarrow> string list" where
  "tokens s = (case extract_token s of None \<Rightarrow> [] | Some (t, r) \<Rightarrow> t # tokens r)"
  by pat_completeness auto
termination
  by (relation "measure length") (auto dest: extract_less)

declare tokens.simps [simp del]

section \<open>State\<close>

record config =
  cf_com_actor :: "ptr option"
  cf_com_notify :: "ptr option"
  cf_fault_manager :: "ptr option"
  cf_logger :: "ptr option"
  cf_tic_length :: u64
  cf_is_loaded :: bool

definition new_config :: config where
  "new_config = \<lparr>cf_com_actor = None, cf_com_notify = None, cf_fault_manager = None,
                 cf_logger = None, cf_tic_length = 0, cf_is_loaded = False\<rparr>"

definition w_logf :: "log_level \<Rightarrow> string \<Rightarrow> 'p world \<Rightarrow> 'p world" where
  "w_logf l m w = w\<lparr>w_pm := pm_logf l m (w_pm w)\<rparr>"

definition warn_if :: "bool \<Rightarrow> string \<Rightarrow> 'p world \<Rightarrow> 'p world" where
  "warn_if b m w = (if b then w_logf LL_Warning m w else w)"

section \<open>Assignments\<close>

text \<open>
  The cases of the switch. Each logs a warning when the field is set already and an error when
  the plugin lacks the capability; \<open>com\<close> sets both communication fields.
\<close>

definition not_a :: "string \<Rightarrow> string \<Rightarrow> string" where
  "not_a name kind = ''plugin \"'' @ name @ ''\" is not a '' @ kind @ '' plugin''"

definition assign_com_actor :: "'w pheap \<Rightarrow> ptr \<Rightarrow> config \<times> 'p world \<Rightarrow> int \<times> config \<times> 'p world" where
  "assign_com_actor h p = (\<lambda>(c, w).
     let w1 = warn_if (cf_com_actor c \<noteq> None) ''com actor is reassigned'' w
     in if HAS_PL_TYPE (h p) PL_COM_ACTOR then (0, c\<lparr>cf_com_actor := Some p\<rparr>, w1)
        else (- 1, c, w_logf LL_Error (not_a (pl_name (h p)) ''com'') w1))"

definition assign_com_notify :: "'w pheap \<Rightarrow> ptr \<Rightarrow> config \<times> 'p world \<Rightarrow> int \<times> config \<times> 'p world" where
  "assign_com_notify h p = (\<lambda>(c, w).
     let w1 = warn_if (cf_com_notify c \<noteq> None) ''com notify is reassigned'' w
     in if HAS_PL_TYPE (h p) PL_COM_EXTERN then (0, c\<lparr>cf_com_notify := Some p\<rparr>, w1)
        else (- 1, c, w_logf LL_Error (not_a (pl_name (h p)) ''com'') w1))"

definition assign_logger :: "'w pheap \<Rightarrow> ptr \<Rightarrow> config \<times> 'p world \<Rightarrow> int \<times> config \<times> 'p world" where
  "assign_logger h p = (\<lambda>(c, w).
     let w1 = warn_if (cf_logger c \<noteq> None) ''logger is reassigned'' w
     in if HAS_PL_TYPE (h p) PL_LOGGER then (0, c\<lparr>cf_logger := Some p\<rparr>, w1)
        else (- 1, c, w_logf LL_Error (not_a (pl_name (h p)) ''logger'') w1))"

definition assign_manager :: "'w pheap \<Rightarrow> ptr \<Rightarrow> config \<times> 'p world \<Rightarrow> int \<times> config \<times> 'p world" where
  "assign_manager h p = (\<lambda>(c, w).
     let w1 = warn_if (cf_fault_manager c \<noteq> None) ''fault manager is reassigned'' w
     in if HAS_PL_TYPE (h p) PL_FAULT_MANAGER then (0, c\<lparr>cf_fault_manager := Some p\<rparr>, w1)
        else (- 1, c, w_logf LL_Error (not_a (pl_name (h p)) ''fault manager'') w1))"

definition assign_tic :: "string \<Rightarrow> config \<times> 'p world \<Rightarrow> exn + int \<times> config \<times> 'p world" where
  "assign_tic value = (\<lambda>(c, w).
     let w1 = warn_if (cf_tic_length c \<noteq> 0) ''tic length is reassigned'' w
     in case stoul value of
          Stoul n \<Rightarrow> Inr (0, c\<lparr>cf_tic_length := n\<rparr>, w1)
        | Invalid_argument \<Rightarrow> Inl Exn_invalid_argument
        | Out_of_range \<Rightarrow> Inl Exn_out_of_range)"

text \<open>The switch itself. An identifier without a case, such as an unknown key, changes nothing.\<close>

definition assign :: "'w pheap \<Rightarrow> u32 \<Rightarrow> ptr \<Rightarrow> config \<times> 'p world \<Rightarrow> int \<times> config \<times> 'p world" where
  "assign h tid p cw =
     (if tid = com_all_id then
        let (r, cw1) = assign_com_actor h p cw
        in if r \<noteq> 0 then (r, cw1) else assign_com_notify h p cw1
      else if tid = com_actor_id then assign_com_actor h p cw
      else if tid = com_notify_id then assign_com_notify h p cw
      else if tid = logger_id then assign_logger h p cw
      else if tid = manager_id then assign_manager h p cw
      else (0, cw))"

definition eq_expected :: string where
  "eq_expected = [CHR 0x27] @ ''='' @ [CHR 0x27] @ '' expected in assignment''"

definition set_config ::
  "'w pheap \<Rightarrow> u32 \<Rightarrow> string \<Rightarrow> config \<times> 'p world \<Rightarrow> exn + int \<times> config \<times> 'p world" where
  "set_config h tid stream = (\<lambda>(c, w).
     case extract_token stream of
       None \<Rightarrow> Inr (- 1, c, w_logf LL_Error eq_expected w)
     | Some (eq, stream1) \<Rightarrow>
         if eq \<noteq> ''='' then Inr (- 1, c, w_logf LL_Error eq_expected w)
         else (case extract_token stream1 of
           None \<Rightarrow> Inr (- 1, c, w_logf LL_Error ''expected assignment before end of line'' w)
         | Some (value, _) \<Rightarrow>
             if tid = tic_id then assign_tic value (c, w)
             else (case get_by_name h (c_str value) (w_pm w) of
                     None \<Rightarrow> Inr (- 1, c, w_logf LL_Error (c_str (''plugin \"'' @ value @ ''\" is not loaded'')) w)
                   | Some p \<Rightarrow> Inr (assign h tid p (c, w)))))"

section \<open>The file\<close>

definition load_lib :: "'p loader \<Rightarrow> string \<Rightarrow> string \<Rightarrow> string \<Rightarrow> 'p world \<Rightarrow> int \<times> 'p world" where
  "load_lib dlmopen dlerror name args w =
     load_library dlmopen dlerror (c_str name) (map c_str (tokens args)) w"

text \<open>
  The body of the loop over the lines: the new section state, configuration and world, and 0 to
  go on or \<open>-1\<close> to stop. A failed extraction leaves the token empty.
\<close>

definition config_line ::
  "'p world pheap \<Rightarrow> 'p loader \<Rightarrow> string \<Rightarrow> string \<Rightarrow> u8 \<times> config \<times> 'p world
   \<Rightarrow> exn + int \<times> u8 \<times> config \<times> 'p world" where
  "config_line h dlmopen dlerror line = (\<lambda>(state, c, w).
     let w1 = w_logf LL_Debug (c_str (''Line: '' @ line)) w
     in case extract_token line of
          None \<Rightarrow> Inr (0, state, c, w1)
        | Some (token, linestr) \<Rightarrow>
            if hd token = CHR ''#'' then Inr (0, state, c, w1)
            else
              let tid = get_token_identifyer token
              in if tid AND decl_id = 0 then Inr (0, push_bit (unat tid) 1, c, w1)
                 else if state = push_bit (unat libs_id) 1 then
                   let (r, w2) = load_lib dlmopen dlerror token linestr w1
                   in Inr (if r \<noteq> 0 then - 1 else 0, state, c, w2)
                 else case set_config h tid linestr (c, w1) of
                        Inl e \<Rightarrow> Inl e
                      | Inr (r, c', w') \<Rightarrow> Inr (if r \<noteq> 0 then - 1 else 0, state, c', w'))"

function config_lines ::
  "'p world pheap \<Rightarrow> 'p loader \<Rightarrow> string \<Rightarrow> string \<Rightarrow> u8 \<times> config \<times> 'p world
   \<Rightarrow> exn + int \<times> config \<times> 'p world" where
  "config_lines h dlmopen dlerror text st =
     (case std_getline text of
        None \<Rightarrow> (case st of (state, c, w) \<Rightarrow> Inr (0, c\<lparr>cf_is_loaded := True\<rparr>, w))
      | Some (line, rest) \<Rightarrow>
          (case config_line h dlmopen dlerror line st of
             Inl e \<Rightarrow> Inl e
           | Inr (r, st') \<Rightarrow>
               if r \<noteq> 0 then Inr (r, snd st') else config_lines h dlmopen dlerror rest st'))"
  by pat_completeness auto
termination
  by (relation "measure (\<lambda>(h, dl, err, text, st). length text)") (auto dest: std_getline_less)

declare config_lines.simps [simp del]

definition load_config ::
  "'p world pheap \<Rightarrow> 'p loader \<Rightarrow> string \<Rightarrow> (string \<Rightarrow> string option) \<Rightarrow> string \<Rightarrow> config \<times> 'p world
   \<Rightarrow> exn + int \<times> config \<times> 'p world" where
  "load_config h dlmopen dlerror files filename = (\<lambda>(c, w).
     if cf_is_loaded c then Inr (1, c, w)
     else case files filename of
            None \<Rightarrow> Inr (- 1, c, w_logf LL_Error ''unable to open configuration file!'' w)
          | Some text \<Rightarrow> config_lines h dlmopen dlerror text (0, c, w))"

section \<open>Configured plugins are registered and capable\<close>

definition registered :: "pm \<Rightarrow> ptr set" where
  "registered s = fst ` set (pm_plugins s)"

definition capable :: "'w pheap \<Rightarrow> ptr set \<Rightarrow> u64 \<Rightarrow> ptr option \<Rightarrow> bool" where
  "capable h K t po = (case po of None \<Rightarrow> True | Some p \<Rightarrow> p \<in> K \<and> HAS_PL_TYPE (h p) t)"

definition config_inv :: "'w pheap \<Rightarrow> config \<Rightarrow> ptr set \<Rightarrow> bool" where
  "config_inv h c K \<longleftrightarrow> capable h K PL_COM_ACTOR (cf_com_actor c) \<and> capable h K PL_COM_EXTERN (cf_com_notify c)
     \<and> capable h K PL_FAULT_MANAGER (cf_fault_manager c) \<and> capable h K PL_LOGGER (cf_logger c)"

text \<open>
  What the configuration relies on from the libraries: their \<open>init\<close> functions keep the invariant
  of the plugin manager and never take a registered plugin away.
\<close>

definition well_behaved :: "'p world pheap \<Rightarrow> 'p loader \<Rightarrow> bool" where
  "well_behaved h dlmopen \<longleftrightarrow> (\<forall>file syms init argv w. dlmopen file = Some syms \<longrightarrow> syms ''init'' = Some init
     \<longrightarrow> pm_inv h (w_pm w) \<longrightarrow> pm_inv h (w_pm (snd (init argv w)))
        \<and> registered (w_pm w) \<subseteq> registered (w_pm (snd (init argv w))))"

lemma w_logf_pm [simp]:
  "pm_plugins (w_pm (w_logf l m w)) = pm_plugins (w_pm w)" "registered (w_pm (w_logf l m w)) = registered (w_pm w)"
  "pm_inv h (w_pm (w_logf l m w)) = pm_inv h (w_pm w)"
  by (simp_all add: w_logf_def registered_def)

lemma warn_if_plugins [simp]: "pm_plugins (w_pm (warn_if b m w)) = pm_plugins (w_pm w)"
  by (simp add: warn_if_def)

lemma new_config_inv [inv_intros]: "config_inv h new_config K"
  by (simp add: config_inv_def new_config_def capable_def)

lemma config_inv_mono: "config_inv h c K \<Longrightarrow> K \<subseteq> K' \<Longrightarrow> config_inv h c K'"
  by (auto simp: config_inv_def capable_def split: option.splits)

lemma pm_inv_plugins: "pm_plugins s = pm_plugins s' \<Longrightarrow> pm_inv h s \<longleftrightarrow> pm_inv h s'"
  by (simp add: pm_inv_def)

lemmas assign_defs = assign_com_actor_def assign_com_notify_def assign_logger_def assign_manager_def

lemma assign_field_plugins:
  "pm_plugins (w_pm (snd (snd (assign_com_actor h p cw)))) = pm_plugins (w_pm (snd cw))"
  "pm_plugins (w_pm (snd (snd (assign_com_notify h p cw)))) = pm_plugins (w_pm (snd cw))"
  "pm_plugins (w_pm (snd (snd (assign_logger h p cw)))) = pm_plugins (w_pm (snd cw))"
  "pm_plugins (w_pm (snd (snd (assign_manager h p cw)))) = pm_plugins (w_pm (snd cw))"
  by (cases cw, simp add: assign_defs Let_def)+

lemma assign_field_inv:
  assumes "p \<in> K" "config_inv h (fst cw) K"
  shows "config_inv h (fst (snd (assign_com_actor h p cw))) K"
    "config_inv h (fst (snd (assign_com_notify h p cw))) K"
    "config_inv h (fst (snd (assign_logger h p cw))) K"
    "config_inv h (fst (snd (assign_manager h p cw))) K"
  using assms by (cases cw, simp add: assign_defs config_inv_def capable_def Let_def)+

lemma assign_plugins [simp]: "pm_plugins (w_pm (snd (snd (assign h tid p cw)))) = pm_plugins (w_pm (snd cw))"
  by (simp add: assign_def assign_field_plugins split_beta Let_def)

lemma assign_inv:
  "p \<in> K \<Longrightarrow> config_inv h (fst cw) K \<Longrightarrow> config_inv h (fst (snd (assign h tid p cw))) K"
  by (simp add: assign_def assign_field_inv split_beta Let_def)

lemma set_config_plugins: "set_config h tid stream (c, w) = Inr (r, c', w') \<Longrightarrow> pm_plugins (w_pm w') = pm_plugins (w_pm w)"
  by (auto simp: set_config_def assign_tic_def Let_def split: option.splits if_splits stoul_result.splits)
     (metis assign_plugins snd_conv)

lemma set_config_inv:
  assumes inv: "config_inv h c (registered (w_pm w))" and set: "set_config h tid stream (c, w) = Inr (r, c', w')"
  shows "config_inv h c' (registered (w_pm w))"
proof -
  have "config_inv h (c\<lparr>cf_tic_length := n\<rparr>) (registered (w_pm w))" for n
    using inv by (simp add: config_inv_def)
  moreover have "config_inv h c' (registered (w_pm w))"
    if "assign h tid p (c, w) = (r, c', w')" "get_by_name h n (w_pm w) = Some p" for p n
    using assign_inv [of p "registered (w_pm w)" h "(c, w)" tid] that inv get_by_name_found [OF that(2)]
    by (simp add: registered_def)
  ultimately show ?thesis
    using set inv
    by (auto simp: set_config_def assign_tic_def Let_def split: option.splits if_splits stoul_result.splits)
qed

lemma pm_print_pm [simp]:
  "pm_inv h (w_pm (pm_print t w)) = pm_inv h (w_pm w)" "registered (w_pm (pm_print t w)) = registered (w_pm w)"
  by (simp_all add: pm_print_def pm_inv_def registered_def)

lemma load_library_inv:
  assumes wb: "well_behaved h dlmopen" and inv: "pm_inv h (w_pm w)"
  shows "pm_inv h (w_pm (snd (load_library dlmopen dlerror file argv w)))
    \<and> registered (w_pm w) \<subseteq> registered (w_pm (snd (load_library dlmopen dlerror file argv w)))"
proof (cases "dlmopen file")
  case None
  with inv show ?thesis by (simp add: load_library_def library_open_def new_library_def)
next
  case (Some syms)
  note opened = Some
  show ?thesis
  proof (cases "syms ''init''")
    case None
    with inv opened show ?thesis
      by (simp add: load_library_def library_open_def new_library_def get_sym_addr_def)
  next
    case (Some init)
    with wb opened inv have "pm_inv h (w_pm (snd (init argv w)))
        \<and> registered (w_pm w) \<subseteq> registered (w_pm (snd (init argv w)))"
      unfolding well_behaved_def by blast
    with Some opened show ?thesis
      by (simp add: load_library_def library_open_def new_library_def get_sym_addr_def split_beta Let_def)
         (simp add: pm_inv_def registered_def)
  qed
qed

lemma config_line_inv:
  assumes wb: "well_behaved h dlmopen"
    and inv: "pm_inv h (w_pm w)" "config_inv h c (registered (w_pm w))"
    and line: "config_line h dlmopen dlerror line (state, c, w) = Inr (r, state', c', w')"
  shows "pm_inv h (w_pm w') \<and> config_inv h c' (registered (w_pm w')) \<and> registered (w_pm w) \<subseteq> registered (w_pm w')"
proof -
  let ?w1 = "w_logf LL_Debug (c_str (''Line: '' @ line)) w"
  have lib: "pm_inv h (w_pm w2) \<and> config_inv h c (registered (w_pm w2)) \<and> registered (w_pm w) \<subseteq> registered (w_pm w2)"
    if "load_lib dlmopen dlerror name args ?w1 = (r, w2)" for name args r w2
    using load_library_inv [OF wb, of ?w1 dlerror "c_str name" "map c_str (tokens args)"] inv that
      config_inv_mono [OF inv(2)] by (simp add: load_lib_def)
  have set: "pm_inv h (w_pm w2) \<and> config_inv h c2 (registered (w_pm w2)) \<and> registered (w_pm w) \<subseteq> registered (w_pm w2)"
    if "set_config h tid stream (c, ?w1) = Inr (r, c2, w2)" for tid stream r c2 w2
    using set_config_plugins [OF that] set_config_inv [OF _ that] inv pm_inv_plugins [of "w_pm w2" "w_pm w" h]
    by (simp add: registered_def)
  show ?thesis
    using line inv lib set
    by (auto simp: config_line_def Let_def split: option.splits if_splits sum.splits prod.splits)
qed

theorem config_lines_inv:
  "\<lbrakk>well_behaved h dlmopen; pm_inv h (w_pm (snd (snd st)));
    config_inv h (fst (snd st)) (registered (w_pm (snd (snd st))));
    config_lines h dlmopen dlerror input st = Inr (r, c', w')\<rbrakk>
   \<Longrightarrow> pm_inv h (w_pm w') \<and> config_inv h c' (registered (w_pm w'))"
proof (induction h dlmopen dlerror input st rule: config_lines.induct)
  case (1 h dlmopen dlerror input st)
  note wb = "1.prems"(1) and inv = "1.prems"(2) "1.prems"(3) and run = "1.prems"(4)
  obtain state c w where st: "st = (state, c, w)" by (cases st)
  show ?case
  proof (cases "std_getline input")
    case None
    with inv run st show ?thesis by (auto simp: config_lines.simps [of _ _ _ input] config_inv_def)
  next
    case (Some lr)
    then obtain line rest where lr: "std_getline input = Some (line, rest)" by (cases lr) simp
    with run st obtain r1 st1 where l: "config_line h dlmopen dlerror line st = Inr (r1, st1)"
      by (auto simp: config_lines.simps [of _ _ _ input] split: sum.splits)
    obtain state1 c1 w1 where st1: "st1 = (state1, c1, w1)" by (cases st1)
    have inv1: "pm_inv h (w_pm w1)" "config_inv h c1 (registered (w_pm w1))"
      using config_line_inv [OF wb, of w c dlerror line state] inv l st st1 by simp_all
    show ?thesis
    proof (cases "r1 = 0")
      case True
      with run lr l have "config_lines h dlmopen dlerror rest st1 = Inr (r, c', w')"
        by (simp add: config_lines.simps [of _ _ _ input])
      then show ?thesis
        using "1.IH" [OF lr refl l refl] True wb inv1 st1 by simp
    next
      case False
      with run lr l inv1 st1 show ?thesis by (simp add: config_lines.simps [of _ _ _ input])
    qed
  qed
qed

lemma load_config_inv:
  assumes "well_behaved h dlmopen" "pm_inv h (w_pm w)"
    and "load_config h dlmopen dlerror files name (new_config, w) = Inr (r, conf, w')"
  shows "pm_inv h (w_pm w') \<and> config_inv h conf (registered (w_pm w'))"
proof (cases "files name")
  case None
  with assms(2,3) new_config_inv show ?thesis
    by (auto simp: load_config_def new_config_def pm_inv_plugins [of "w_pm w'" "w_pm w"])
next
  case (Some input)
  then have "config_lines h dlmopen dlerror input (0, new_config, w) = Inr (r, conf, w')"
    using assms(3) by (simp add: load_config_def new_config_def)
  from config_lines_inv [OF assms(1) _ _ this] assms(2) new_config_inv show ?thesis by auto
qed

end
