(* ===== verification/Server.thy ===== *)
theory Server
  imports Config
begin

text \<open>
  The server (\<open>srv/server.cpp\<close>): initialisation, the tic, the dispatch of faults, the
  asynchronous backchannel and the time keeping. The generated protobuf code is a parameter:
  \<open>serialize\<close> turns the failing and spare nodes into the external message, \<open>parse\<close> reads a
  message of the backchannel. The clock is a parameter too: \<open>clock k\<close> is the value of the
  \<open>k\<close>-th call of \<open>high_resolution_clock::now()\<close>, a signed 64-bit number of nanoseconds.
\<close>

section \<open>State\<close>

record 'w server =
  sv_tic :: u64
  sv_nodes :: "node list"
  sv_manager :: "'w fault_manager"
  sv_com_actor :: "'w com"
  sv_com_notify :: "'w com"
  sv_other_cb :: "msg_callback option"
  sv_forwarded :: "(msg_callback \<times> string) list"
  sv_tic_length :: u64
  sv_duration :: int
  sv_timestamp :: int
  sv_clock :: nat

definition on_message_addr :: msg_callback where
  "on_message_addr = 1"

section \<open>Initialisation\<close>

datatype 'w srv_init = Srv_ok "'w server" | Srv_failed | Srv_crash

fun post_inits :: "'p world pheap \<Rightarrow> ptr list \<Rightarrow> 'p world \<Rightarrow> bool \<times> 'p world" where
  "post_inits h [] w = (True, w)"
| "post_inits h (p # ps) w =
     (case pl_post_init (h p) of
        None \<Rightarrow> post_inits h ps w
      | Some f \<Rightarrow>
          let (r, w1) = f w
          in if r \<noteq> 0
             then (False, w_logf LL_Fatal (''error calling post init hook for '' @ pl_name (h p)) w1)
             else post_inits h ps w1)"

text \<open>Asynchronous backends get the server's callback; what \<open>set_callback\<close> returns is dropped.\<close>

definition connect_backchannel :: "'p world com \<Rightarrow> 'p world \<Rightarrow> 'p world option" where
  "connect_backchannel com w =
     (if com_capabilities com AND COM_ASYNC = COM_ASYNC then
        let w1 = w_logf LL_Debug ''asynchronous backchannel'' w
        in map_option (\<lambda>f. snd (f (Some on_message_addr) w1)) (com_set_callback com)
      else Some w)"

definition server_init :: "'p world pheap \<Rightarrow> config \<Rightarrow> 'p world \<Rightarrow> 'p world srv_init \<times> 'p world" where
  "server_init h conf w =
     (let w1 = w_logf LL_Debug ''config loaded successfully'' w;
          (ok, w2) = post_inits h (map fst (pm_plugins (w_pm w1))) w1
      in if \<not> ok then (Srv_failed, w2)
         else case (cf_com_actor conf, cf_com_notify conf, cf_fault_manager conf) of
           (Some pa, Some pn, Some pf) \<Rightarrow>
             (case (pl_c (h pa), pl_c (h pn)) of
                (Some ca, Some cn) \<Rightarrow>
                  (case connect_backchannel ca w2 of
                     None \<Rightarrow> (Srv_crash, w2)
                   | Some w3 \<Rightarrow>
                       (case pl_fm (h pf) of
                          None \<Rightarrow> (Srv_crash, w3)
                        | Some fm \<Rightarrow>
                            (case fm_get_nodes fm w3 of
                               (Nodes_crash, w4) \<Rightarrow> (Srv_crash, w4)
                             | (Nodes_error e, w4) \<Rightarrow> (Srv_failed, w_logf LL_Fatal ''unable to get nodes'' w4)
                             | (Nodes ns, w4) \<Rightarrow>
                                 (Srv_ok \<lparr>sv_tic = 0, sv_nodes = ns, sv_manager = fm, sv_com_actor = ca,
                                          sv_com_notify = cn, sv_other_cb = None, sv_forwarded = [],
                                          sv_tic_length = cf_tic_length conf,
                                          sv_duration = sint (cf_tic_length conf),
                                          sv_timestamp = 0, sv_clock = 0\<rparr>, w4))))
              | _ \<Rightarrow> (Srv_crash, w2))
         | _ \<Rightarrow> (Srv_failed, w_logf LL_Fatal ''configuration incomplete'' w2))"

section \<open>Nodes\<close>

definition all_nodes_ready :: "'w server \<Rightarrow> bool" where
  "all_nodes_ready s = list_all (\<lambda>n. node_state n = NODE_STATE_READY) (sv_nodes s)"

fun set_state_in :: "string \<Rightarrow> u32 \<Rightarrow> node list \<Rightarrow> int \<times> node list" where
  "set_state_in name state [] = (1, [])"
| "set_state_in name state (n # ns) =
     (if name = node_name n then (0, n\<lparr>node_state := state\<rparr> # ns)
      else let (r, ns') = set_state_in name state ns in (r, n # ns'))"

definition set_node_state :: "string \<Rightarrow> u32 \<Rightarrow> 'w server \<Rightarrow> int \<times> 'w server" where
  "set_node_state name state s =
     (let (r, ns) = set_state_in name state (sv_nodes s) in (r, s\<lparr>sv_nodes := ns\<rparr>))"

section \<open>The backchannel\<close>

datatype bc_type = BC_LOG | BC_ERROR | BC_STATUS | BC_OTHER
datatype bc_status = STREADY | STERROR | STFINISHED | ST_OTHER

record backchannel =
  bc_nodename :: string
  bc_msgtype :: bc_type
  bc_logerrmsg :: "string option"
  bc_newstatus :: "bc_status option"

fun status_state :: "bc_status \<Rightarrow> string \<times> u32" where
  "status_state STREADY = (''ready'', NODE_STATE_READY)"
| "status_state STERROR = (''error'', NODE_STATE_ERROR)"
| "status_state STFINISHED = (''finished'', NODE_STATE_FINISHED)"
| "status_state ST_OTHER = (''unknown status'', NODE_STATE_UNKNOWN)"

text \<open>\<open>srv_instance\<close> is None before the server exists.\<close>

definition on_message ::
  "(string \<Rightarrow> backchannel option) \<Rightarrow> string \<Rightarrow> 'w server option \<Rightarrow> 'p world \<Rightarrow> 'w server option \<times> 'p world" where
  "on_message parse msg srv w =
     (case srv of
        None \<Rightarrow> (None, w)
      | Some s \<Rightarrow>
          (case parse msg of
             None \<Rightarrow> (Some s, w_logf LL_Warning ''unable to decode message on backchannel'' w)
           | Some back \<Rightarrow>
               (case bc_msgtype back of
                  BC_LOG \<Rightarrow>
                    (Some s, case bc_logerrmsg back of None \<Rightarrow> w | Some m \<Rightarrow> w_logf LL_Info (c_str m) w)
                | BC_ERROR \<Rightarrow>
                    (Some s, case bc_logerrmsg back of None \<Rightarrow> w | Some m \<Rightarrow> w_logf LL_Error (c_str m) w)
                | BC_STATUS \<Rightarrow>
                    (case bc_newstatus back of
                       None \<Rightarrow> (Some s, w_logf LL_Warning ''status message did not contain a status'' w)
                     | Some st \<Rightarrow>
                         let (status, state) = status_state st; name = c_str (bc_nodename back)
                         in (Some (snd (set_node_state name state s)),
                             w_logf LL_Info (snprintf 127 (''['' @ name @ ''] new status: '' @ status)) w))
                | BC_OTHER \<Rightarrow>
                    (case sv_other_cb s of
                       None \<Rightarrow> (Some s, w)
                     | Some cb \<Rightarrow> (Some (s\<lparr>sv_forwarded := sv_forwarded s @ [(cb, msg)]\<rparr>), w)))))"

definition get_messages :: "'w server \<Rightarrow> nat" where
  "get_messages s = 0"

section \<open>The tic\<close>

fun send_synced :: "'w com \<Rightarrow> node list \<Rightarrow> 'w \<Rightarrow> 'w" where
  "send_synced com [] w = w"
| "send_synced com (n # ns) w = send_synced com ns (snd (com_notify_fail com (node_name n) None 0 w))"

definition send_synced_signal :: "'w server \<Rightarrow> 'w \<Rightarrow> 'w" where
  "send_synced_signal s w = send_synced (sv_com_actor s) (sv_nodes s) w"

text \<open>The loop over the faults; the accumulators are the failing and the spare nodes of the message.\<close>

fun dispatch :: "'p world com \<Rightarrow> fault list \<Rightarrow> string list \<Rightarrow> string list \<Rightarrow> 'p world
    \<Rightarrow> string list \<times> string list \<times> 'p world" where
  "dispatch com [] failing spare w = (failing, spare, w)"
| "dispatch com (f # fs) failing spare w =
     (let w1 = snd (com_notify_fail com (fault_node f) (fault_component f) (fault_severity f) w)
      in if fault_component f = None then
           let w2 = w_logf LL_Info (snprintf 512 (''Node '' @ fault_node f @ '' ''
                      @ (if fault_severity f \<noteq> 0 then ''failed'' else ''recovered''))) w1
           in if fault_severity f = 0 then dispatch com fs failing (spare @ [fault_node f]) w2
              else dispatch com fs (failing @ [fault_node f]) spare w2
         else dispatch com fs failing spare w1)"

definition manage_fails :: "(string list \<Rightarrow> string list \<Rightarrow> string) \<Rightarrow> 'p world server \<Rightarrow> 'p world \<Rightarrow> 'p world" where
  "manage_fails serialize s w =
     (let (failed, w1) = fm_get_fail (sv_manager s) w
      in if failed = [] then w1
         else
           let w2 = w_logf LL_Info (snprintf 512 (''Tic #'' @ show_unsigned (sv_tic s))) w1;
               (failing, spare, w3) = dispatch (sv_com_actor s) failed [] [] w2
           in snd (com_notify_extern (sv_com_notify s) (serialize failing spare) w3))"

text \<open>
  The loop that steps over missed tics. It ends because a clock reading is below \<open>2 ^ 63\<close> and the
  duration is positive; for a tic length of \<open>2 ^ 63\<close> or more the signed duration is negative and
  None says that the loop does not return.
\<close>

function skip_loop :: "(nat \<Rightarrow> u64) \<Rightarrow> int \<Rightarrow> int \<Rightarrow> nat \<Rightarrow> u32 \<Rightarrow> (int \<times> nat \<times> u32) option" where
  "skip_loop clock dur ts k skip =
     (if ts < sint (clock k)
      then if 0 < dur then skip_loop clock dur (ts + dur) (Suc k) (skip + 1) else None
      else Some (ts, Suc k, skip))"
  by pat_completeness auto
termination
proof (relation "measure (\<lambda>(clock, dur, ts, k, skip). nat (2 ^ 63 - ts))")
  fix clock :: "nat \<Rightarrow> u64" and dur ts :: int and k :: nat and skip :: u32
  assume "ts < sint (clock k)" "0 < dur"
  moreover have "sint (clock k) < 2 ^ 63" using sint_less [of "clock k"] by simp
  ultimately show "((clock, dur, ts + dur, Suc k, skip + 1), clock, dur, ts, k, skip)
      \<in> measure (\<lambda>(clock, dur, ts, k, skip). nat (2 ^ 63 - ts))"
    by simp
qed simp

declare skip_loop.simps [simp del]

definition skip_to_end_of_tic ::
  "(nat \<Rightarrow> u64) \<Rightarrow> 'w server \<times> 'p world \<Rightarrow> ('w server \<times> 'p world) option" where
  "skip_to_end_of_tic clock = (\<lambda>(s, w).
     let s1 = s\<lparr>sv_tic := sv_tic s + 1\<rparr>
     in if sv_tic_length s = 0 then Some (s1, w)
        else case skip_loop clock (sv_duration s) (sv_timestamp s + sv_duration s) (sv_clock s) 0 of
               None \<Rightarrow> None
             | Some (ts, k, skip) \<Rightarrow>
                 Some (s1\<lparr>sv_timestamp := ts, sv_clock := k, sv_tic := sv_tic s1 + ucast skip\<rparr>,
                       if skip \<noteq> 0
                       then w_logf LL_Warning (show_unsigned skip @ '' tics skipped - increase tic time?'') w
                       else w))"

definition do_tic ::
  "(string list \<Rightarrow> string list \<Rightarrow> string) \<Rightarrow> (nat \<Rightarrow> u64) \<Rightarrow> 'p world server \<times> 'p world
   \<Rightarrow> ('p world server \<times> 'p world) option" where
  "do_tic serialize clock = (\<lambda>(s, w).
     let s0 = (if sv_tic s = 0
               then s\<lparr>sv_timestamp := sint (clock (sv_clock s)), sv_clock := Suc (sv_clock s)\<rparr> else s);
         w1 = fm_tic (sv_manager s0) w;
         w2 = manage_fails serialize s0 w1
     in skip_to_end_of_tic clock (s0, w2))"

fun run_tics ::
  "(string list \<Rightarrow> string list \<Rightarrow> string) \<Rightarrow> (nat \<Rightarrow> u64) \<Rightarrow> nat \<Rightarrow> 'p world server \<times> 'p world
   \<Rightarrow> ('p world server \<times> 'p world) option" where
  "run_tics serialize clock 0 sw = Some sw"
| "run_tics serialize clock (Suc n) sw =
     (case do_tic serialize clock sw of None \<Rightarrow> None | Some sw' \<Rightarrow> run_tics serialize clock n sw')"

section \<open>Time keeping\<close>

text \<open>
  The loop stops at the first tic whose end is not over yet: it steps over exactly the tics that
  ended before the reading taken for them.
\<close>

lemma skip_loop_result:
  assumes "0 < dur"
  obtains j where "skip_loop clock dur ts k skip = Some (ts + dur * int j, k + j + 1, skip + of_nat j)"
    "sint (clock (k + j)) \<le> ts + dur * int j"
    "\<forall>i<j. ts + dur * int i < sint (clock (k + i))"
  using assms
proof (induction clock dur ts k skip arbitrary: thesis rule: skip_loop.induct)
  case (1 clock dur ts k skip)
  show ?case
  proof (cases "ts < sint (clock k)")
    case True
    obtain j where j: "skip_loop clock dur (ts + dur) (Suc k) (skip + 1)
        = Some (ts + dur + dur * int j, Suc k + j + 1, skip + 1 + of_nat j)"
      "sint (clock (Suc k + j)) \<le> ts + dur + dur * int j"
      "\<forall>i<j. ts + dur + dur * int i < sint (clock (Suc k + i))"
      using "1.IH" [OF True "1.prems"(2)] "1.prems"(2) by blast
    have "\<forall>i<Suc j. ts + dur * int i < sint (clock (k + i))"
    proof (intro allI impI)
      fix i assume "i < Suc j"
      then show "ts + dur * int i < sint (clock (k + i))"
        using True j(3) by (cases i) (auto simp: algebra_simps)
    qed
    with j True "1.prems" show ?thesis
      by (intro "1.prems"(1) [of "Suc j"]) (simp_all add: skip_loop.simps algebra_simps)
  next
    case False
    then show ?thesis
      by (intro "1.prems"(1) [of 0]) (simp_all add: skip_loop.simps)
  qed
qed

section \<open>What init leaves behind\<close>

lemma server_init_ok:
  assumes "server_init h conf w = (Srv_ok s, w1)"
  shows "sv_other_cb s = None" "sv_forwarded s = []" "sv_tic s = 0"
    "sv_tic_length s = cf_tic_length conf" "sv_duration s = sint (cf_tic_length conf)"
    "cf_com_actor conf = Some pa \<Longrightarrow> pl_c (h pa) = Some (sv_com_actor s)"
    "cf_com_notify conf = Some pn \<Longrightarrow> pl_c (h pn) = Some (sv_com_notify s)"
    "cf_fault_manager conf = Some pf \<Longrightarrow> pl_fm (h pf) = Some (sv_manager s)"
  using assms by (auto simp: server_init_def Let_def split: prod.splits option.splits if_splits nodes_result.splits)

text \<open>
  The function table of a plugin is complete when it has a function for every capability: a
  communication backend, with a way to set the callback when it is asynchronous, a fault manager, a
  logger. Then \<open>init\<close> calls no null pointer for a configuration that respects the capabilities.
\<close>

definition complete_table :: "'w plugin \<Rightarrow> bool" where
  "complete_table pl \<longleftrightarrow>
     (HAS_PL_TYPE pl PL_COM_ACTOR \<or> HAS_PL_TYPE pl PL_COM_EXTERN \<longrightarrow>
        (case pl_c pl of
           None \<Rightarrow> False
         | Some c \<Rightarrow> com_capabilities c AND COM_ASYNC = COM_ASYNC \<longrightarrow> com_set_callback c \<noteq> None))
     \<and> (HAS_PL_TYPE pl PL_FAULT_MANAGER \<longrightarrow> pl_fm pl \<noteq> None)
     \<and> (HAS_PL_TYPE pl PL_LOGGER \<longrightarrow> pl_lf pl)"

lemma connect_backchannel_complete:
  "com_capabilities c AND COM_ASYNC = COM_ASYNC \<longrightarrow> com_set_callback c \<noteq> None \<Longrightarrow> connect_backchannel c w \<noteq> None"
  by (auto simp: connect_backchannel_def Let_def)

lemma server_init_complete:
  assumes "config_inv h conf K" "\<forall>p \<in> K. complete_table (h p)"
    and "\<forall>p fm w. pl_fm (h p) = Some fm \<longrightarrow> fst (fm_get_nodes fm w) \<noteq> Nodes_crash"
  shows "fst (server_init h conf w) \<noteq> Srv_crash"
proof -
  have actor: "\<exists>c. pl_c (h p) = Some c \<and> (\<forall>w. \<exists>w'. connect_backchannel c w = Some w')"
    if "cf_com_actor conf = Some p" for p
  proof -
    have "p \<in> K" "HAS_PL_TYPE (h p) PL_COM_ACTOR" using assms(1) that by (simp_all add: config_inv_def capable_def)
    then obtain c where c: "pl_c (h p) = Some c"
      "com_capabilities c AND COM_ASYNC = COM_ASYNC \<longrightarrow> com_set_callback c \<noteq> None"
      using assms(2) by (auto simp: complete_table_def split: option.splits)
    then show ?thesis using connect_backchannel_complete [OF c(2)] by blast
  qed
  have notify: "\<exists>c. pl_c (h p) = Some c" if "cf_com_notify conf = Some p" for p
  proof -
    have "p \<in> K" "HAS_PL_TYPE (h p) PL_COM_EXTERN" using assms(1) that by (simp_all add: config_inv_def capable_def)
    then show ?thesis using assms(2) by (auto simp: complete_table_def split: option.splits)
  qed
  have manager: "\<exists>fm. pl_fm (h p) = Some fm" if "cf_fault_manager conf = Some p" for p
    using assms(1,2) that by (auto simp: config_inv_def capable_def complete_table_def)
  obtain ok w2 where posts: "post_inits h (map fst (pm_plugins (w_pm (w_logf LL_Debug ''config loaded successfully'' w))))
      (w_logf LL_Debug ''config loaded successfully'' w) = (ok, w2)" by fastforce
  show ?thesis
  proof (cases "ok \<and> cf_com_actor conf \<noteq> None \<and> cf_com_notify conf \<noteq> None \<and> cf_fault_manager conf \<noteq> None")
    case True
    then obtain pa pn pf where c: "cf_com_actor conf = Some pa" "cf_com_notify conf = Some pn" "cf_fault_manager conf = Some pf"
      by blast
    obtain ca w3 cn fm where t: "pl_c (h pa) = Some ca" "connect_backchannel ca w2 = Some w3"
      "pl_c (h pn) = Some cn" "pl_fm (h pf) = Some fm"
      using actor [OF c(1)] notify [OF c(2)] manager [OF c(3)] by blast
    have "fst (fm_get_nodes fm w3) \<noteq> Nodes_crash" using assms(3) t(4) by blast
    with True posts c t show ?thesis
      by (cases "fm_get_nodes fm w3"; cases "fst (fm_get_nodes fm w3)") (simp_all add: server_init_def)
  next
    case False
    with posts show ?thesis by (auto simp: server_init_def split: option.splits)
  qed
qed

section \<open>Reference runs\<close>

definition well_timed :: "'w server \<Rightarrow> bool" where
  "well_timed s \<longleftrightarrow> sv_tic_length s = 0 \<or> 0 < sv_duration s"

lemma well_timed_tic_length:
  "sv_duration s = sint (sv_tic_length s) \<Longrightarrow> sv_tic_length s < 2 ^ 63 \<Longrightarrow> well_timed s"
proof -
  assume dur: "sv_duration s = sint (sv_tic_length s)" and less: "sv_tic_length s < 2 ^ 63"
  have "uint (sv_tic_length s) < 2 ^ 63" using less by (simp add: word_less_alt)
  then have "sint (sv_tic_length s) = uint (sv_tic_length s)"
    unfolding sint_uint by (intro signed_take_bit_int_eq_self order.trans [OF _ uint_ge_0]) simp_all
  then show ?thesis
    using dur by (auto simp: well_timed_def word_neq_0_conv [symmetric] word_greater_zero_iff
        less_le uint_0_iff)
qed

lemma skip_to_end_of_tic_untimed:
  "sv_tic_length s = 0 \<Longrightarrow> skip_to_end_of_tic clock (s, w) = Some (s\<lparr>sv_tic := sv_tic s + 1\<rparr>, w)"
  by (simp add: skip_to_end_of_tic_def Let_def)

lemma skip_to_end_of_tic_timed:
  assumes "sv_tic_length s \<noteq> 0" "0 < sv_duration s"
  obtains j w' where "skip_to_end_of_tic clock (s, w) =
      Some (s\<lparr>sv_tic := sv_tic s + 1 + ucast (of_nat j :: u32),
              sv_timestamp := sv_timestamp s + sv_duration s * (int j + 1),
              sv_clock := sv_clock s + j + 1\<rparr>, w')"
    "w_plug w' = w_plug w"
    "sint (clock (sv_clock s + j)) \<le> sv_timestamp s + sv_duration s * (int j + 1)"
    "\<forall>i<j. sv_timestamp s + sv_duration s * (int i + 1) < sint (clock (sv_clock s + i))"
proof -
  obtain j where j: "skip_loop clock (sv_duration s) (sv_timestamp s + sv_duration s) (sv_clock s) 0
      = Some (sv_timestamp s + sv_duration s + sv_duration s * int j, sv_clock s + j + 1, 0 + of_nat j)"
    "sint (clock (sv_clock s + j)) \<le> sv_timestamp s + sv_duration s + sv_duration s * int j"
    "\<forall>i<j. sv_timestamp s + sv_duration s + sv_duration s * int i < sint (clock (sv_clock s + i))"
    using skip_loop_result [OF assms(2), where clock = clock and ts = "sv_timestamp s + sv_duration s"
        and k = "sv_clock s" and skip = 0] by metis
  then show thesis
    using assms(1)
    by (intro that [of j "if (of_nat j :: u32) \<noteq> 0
          then w_logf LL_Warning (show_unsigned (of_nat j :: u32) @ '' tics skipped - increase tic time?'') w
          else w"])
       (auto simp: skip_to_end_of_tic_def w_logf_def algebra_simps)
qed

text \<open>The parts of the server that no tic changes.\<close>

definition same_setup :: "'w server \<Rightarrow> 'w server \<Rightarrow> bool" where
  "same_setup s s' \<longleftrightarrow> sv_manager s' = sv_manager s \<and> sv_com_actor s' = sv_com_actor s
     \<and> sv_com_notify s' = sv_com_notify s \<and> sv_tic_length s' = sv_tic_length s
     \<and> sv_duration s' = sv_duration s \<and> sv_nodes s' = sv_nodes s \<and> sv_other_cb s' = sv_other_cb s"

lemma same_setup_refl [simp]: "same_setup s s"
  by (simp add: same_setup_def)

lemma same_setup_trans: "same_setup a b \<Longrightarrow> same_setup b c \<Longrightarrow> same_setup a c"
  by (simp add: same_setup_def)

lemma same_setup_timed: "same_setup s s' \<Longrightarrow> well_timed s' = well_timed s"
  by (simp add: same_setup_def well_timed_def)

lemma skip_to_end_of_tic_returns:
  assumes "well_timed s"
  obtains s' w' where "skip_to_end_of_tic clock (s, w) = Some (s', w')" "w_plug w' = w_plug w" "same_setup s s'"
proof (cases "sv_tic_length s = 0")
  case True
  then show thesis
    by (intro that [OF skip_to_end_of_tic_untimed]) (simp_all add: same_setup_def)
next
  case False
  with assms have "0 < sv_duration s" by (simp add: well_timed_def)
  from False this show thesis
    by (rule skip_to_end_of_tic_timed [where clock = clock and w = w])
       (erule that, simp_all add: same_setup_def)
qed

section \<open>Faults reach the backend\<close>

text \<open>
  The plugins of a world with the fault manager's state \<open>'m\<close> and the state \<open>'c\<close> of the
  communication backends. A manager or a backend over its own state acts on its part of the world.
\<close>

definition on_manager :: "('m \<Rightarrow> 'a \<times> 'm) \<Rightarrow> ('m \<times> 'c) world \<Rightarrow> 'a \<times> ('m \<times> 'c) world" where
  "on_manager f w = (let (a, m) = f (fst (w_plug w)) in (a, w\<lparr>w_plug := (m, snd (w_plug w))\<rparr>))"

definition on_com :: "('c \<Rightarrow> 'a \<times> 'c) \<Rightarrow> ('m \<times> 'c) world \<Rightarrow> 'a \<times> ('m \<times> 'c) world" where
  "on_com f w = (let (a, c) = f (snd (w_plug w)) in (a, w\<lparr>w_plug := (fst (w_plug w), c)\<rparr>))"

definition world_manager :: "'m fault_manager \<Rightarrow> ('m \<times> 'c) world fault_manager" where
  "world_manager fm =
     \<lparr>fm_version = fm_version fm,
      fm_get_nodes = on_manager (fm_get_nodes fm),
      fm_tic = (\<lambda>w. snd (on_manager (\<lambda>m. ((), fm_tic fm m)) w)),
      fm_get_fail = on_manager (fm_get_fail fm),
      fm_inject_fail = (\<lambda>f. on_manager (fm_inject_fail fm f))\<rparr>"

definition world_com :: "'c com \<Rightarrow> ('m \<times> 'c) world com" where
  "world_com com =
     \<lparr>com_capabilities = com_capabilities com,
      com_notify_fail = (\<lambda>n c s. on_com (com_notify_fail com n c s)),
      com_notify_extern = (\<lambda>t. on_com (com_notify_extern com t)),
      com_set_mode = map_option (\<lambda>f m. on_com (f m)) (com_set_mode com),
      com_set_callback = map_option (\<lambda>f cb. on_com (f cb)) (com_set_callback com),
      com_get_msg = map_option on_com (com_get_msg com)\<rparr>"

text \<open>
  The specification of a tic towards the backends: one \<open>notify_fail\<close> for each fault in its order,
  then, unless there was no fault, one external message with the nodes that failed and recovered
  as a whole.
\<close>

definition failing_nodes :: "fault_data list \<Rightarrow> string list" where
  "failing_nodes fds = [n. (n, c, sev) \<leftarrow> fds, c = None \<and> sev \<noteq> 0]"

definition spare_nodes :: "fault_data list \<Rightarrow> string list" where
  "spare_nodes fds = [n. (n, c, sev) \<leftarrow> fds, c = None \<and> sev = 0]"

definition notify_all :: "'c com \<Rightarrow> fault_data list \<Rightarrow> 'c \<Rightarrow> 'c" where
  "notify_all com = fold (\<lambda>(n, c, sev) st. snd (com_notify_fail com n c sev st))"

definition deliver ::
  "(string list \<Rightarrow> string list \<Rightarrow> string) \<Rightarrow> 'c com \<Rightarrow> 'c com \<Rightarrow> fault_data list \<Rightarrow> 'c \<Rightarrow> 'c" where
  "deliver serialize actor notify fds st =
     (if fds = [] then st
      else snd (com_notify_extern notify (serialize (failing_nodes fds) (spare_nodes fds))
                  (notify_all actor fds st)))"

lemma w_logf_plug [simp]: "w_plug (w_logf l m w) = w_plug w"
  by (simp add: w_logf_def)

lemma world_notify [simp]:
  "w_plug (snd (com_notify_fail (world_com com) n c sev w)) =
     (fst (w_plug w), snd (com_notify_fail com n c sev (snd (w_plug w))))"
  "w_plug (snd (com_notify_extern (world_com com) t w)) =
     (fst (w_plug w), snd (com_notify_extern com t (snd (w_plug w))))"
  by (simp_all add: world_com_def on_com_def split_beta Let_def)

lemma world_manager_sel [simp]:
  "w_plug (fm_tic (world_manager fm) w) = (fm_tic fm (fst (w_plug w)), snd (w_plug w))"
  "fst (fm_get_fail (world_manager fm) w) = fst (fm_get_fail fm (fst (w_plug w)))"
  "w_plug (snd (fm_get_fail (world_manager fm) w)) = (snd (fm_get_fail fm (fst (w_plug w))), snd (w_plug w))"
  by (simp_all add: world_manager_def on_manager_def split_beta Let_def)

lemma delivery_Nil: "failing_nodes [] = []" "spare_nodes [] = []" "notify_all com [] st = st"
  by (simp_all add: failing_nodes_def spare_nodes_def notify_all_def)

lemma delivery_Cons:
  "failing_nodes (fault_data f # fds) =
     (if fault_component f = None \<and> fault_severity f \<noteq> 0 then [fault_node f] else []) @ failing_nodes fds"
  "spare_nodes (fault_data f # fds) =
     (if fault_component f = None \<and> fault_severity f = 0 then [fault_node f] else []) @ spare_nodes fds"
  "notify_all com (fault_data f # fds) st =
     notify_all com fds (snd (com_notify_fail com (fault_node f) (fault_component f) (fault_severity f) st))"
  by (simp_all add: failing_nodes_def spare_nodes_def notify_all_def fault_data_def)

lemma dispatch_world:
  "dispatch (world_com com) fs failing spare w = (failing', spare', w') \<Longrightarrow>
   failing' = failing @ failing_nodes (map fault_data fs) \<and> spare' = spare @ spare_nodes (map fault_data fs)
   \<and> w_plug w' = (fst (w_plug w), notify_all com (map fault_data fs) (snd (w_plug w)))"
proof (induction fs arbitrary: failing spare w)
  case (Cons f fs)
  consider "fault_component f = None" "fault_severity f = 0" | "fault_component f = None" "fault_severity f \<noteq> 0"
    | "fault_component f \<noteq> None" by blast
  then show ?case
    using Cons.prems
    by cases (simp_all add: delivery_Cons Let_def, (drule Cons.IH, simp)+)
qed (simp add: delivery_Nil)

lemma manage_fails_world:
  assumes "sv_manager s = world_manager fm" "sv_com_actor s = world_com actor" "sv_com_notify s = world_com notify"
    and "fm_get_fail fm (fst (w_plug w)) = (fs, m)"
  shows "w_plug (manage_fails serialize s w) =
    (m, deliver serialize actor notify (map fault_data fs) (snd (w_plug w)))"
proof -
  obtain w1 where w1: "fm_get_fail (world_manager fm) w = (fs, w1)" "w_plug w1 = (m, snd (w_plug w))"
    using world_manager_sel(2,3) [of fm w] assms(4) by (metis fst_conv prod.collapse snd_conv)
  show ?thesis
  proof (cases "fs = []")
    case False
    let ?w2 = "w_logf LL_Info (snprintf 512 (''Tic #'' @ show_unsigned (sv_tic s))) w1"
    obtain fl sp w3 where d: "dispatch (world_com actor) fs [] [] ?w2 = (fl, sp, w3)"
      by (metis prod.exhaust)
    from dispatch_world [OF d] w1 False show ?thesis
      unfolding manage_fails_def assms(1-3) w1(1) Let_def prod.case d by (simp add: deliver_def)
  qed (use w1 in \<open>simp add: manage_fails_def assms(1) deliver_def\<close>)
qed

definition wired :: "'m fault_manager \<Rightarrow> 'c com \<Rightarrow> 'c com \<Rightarrow> ('m \<times> 'c) world server \<Rightarrow> bool" where
  "wired fm actor notify s \<longleftrightarrow> sv_manager s = world_manager fm \<and> sv_com_actor s = world_com actor
     \<and> sv_com_notify s = world_com notify"

definition tic_begin :: "(nat \<Rightarrow> u64) \<Rightarrow> 'w server \<Rightarrow> 'w server" where
  "tic_begin clock s =
     (if sv_tic s = 0 then s\<lparr>sv_timestamp := sint (clock (sv_clock s)), sv_clock := Suc (sv_clock s)\<rparr> else s)"

lemma do_tic_eq:
  "do_tic serialize clock (s, w) =
     (let s0 = tic_begin clock s
      in skip_to_end_of_tic clock (s0, manage_fails serialize s0 (fm_tic (sv_manager s0) w)))"
  by (simp add: do_tic_def tic_begin_def Let_def)

lemma tic_begin_setup [simp]: "same_setup s (tic_begin clock s)" "sv_tic (tic_begin clock s) = sv_tic s"
  by (simp_all add: tic_begin_def same_setup_def)

lemma do_tic_world:
  assumes "wired fm actor notify s" "well_timed s" "fm_step fm (fst (w_plug w)) = (fs, m)"
  obtains s' w' where "do_tic serialize clock (s, w) = Some (s', w')" "same_setup s s'"
    "w_plug w' = (m, deliver serialize actor notify (map fault_data fs) (snd (w_plug w)))"
proof -
  let ?s0 = "tic_begin clock s"
  let ?w1 = "manage_fails serialize ?s0 (fm_tic (sv_manager ?s0) w)"
  have same: "same_setup s ?s0" by simp
  then have wired: "wired fm actor notify ?s0" using assms(1) by (simp add: wired_def same_setup_def)
  then have plug: "w_plug ?w1 = (m, deliver serialize actor notify (map fault_data fs) (snd (w_plug w)))"
    using assms(3) by (simp add: wired_def manage_fails_world fm_step_def)
  have "well_timed ?s0" using same_setup_timed [OF same] assms(2) by simp
  then obtain s' w' where "skip_to_end_of_tic clock (?s0, ?w1) = Some (s', w')"
    "w_plug w' = w_plug ?w1" "same_setup ?s0 s'"
    by (rule skip_to_end_of_tic_returns)
  with plug same show thesis
    by (intro that [of s' w']) (simp_all add: do_tic_eq Let_def same_setup_def)
qed

text \<open>
  Refinement: for the backends, \<open>n\<close> tics of the server are \<open>n\<close> deliveries of what the fault
  manager reports, whatever the clock shows.
\<close>

lemma run_tics_world:
  assumes "wired fm actor notify s" "well_timed s" "fm_run fm n (fst (w_plug w)) = (fss, m)"
  shows "\<exists>s' w'. run_tics serialize clock n (s, w) = Some (s', w') \<and> same_setup s s'
    \<and> w_plug w' = (m, fold (deliver serialize actor notify) (map (map fault_data) fss) (snd (w_plug w)))"
  using assms
proof (induction n arbitrary: s w fss m)
  case (Suc n)
  obtain fs m1 where step: "fm_step fm (fst (w_plug w)) = (fs, m1)" by fastforce
  obtain fss1 where run: "fm_run fm n m1 = (fss1, m)" and fss: "fss = fs # fss1"
    using Suc.prems(3) by (auto simp: step split: prod.splits)
  obtain s1 w1 where tic: "do_tic serialize clock (s, w) = Some (s1, w1)" "same_setup s s1"
    "w_plug w1 = (m1, deliver serialize actor notify (map fault_data fs) (snd (w_plug w)))"
    using do_tic_world [OF Suc.prems(1,2) step] by blast
  have "wired fm actor notify s1" "well_timed s1"
    using Suc.prems(1,2) tic(2) same_setup_timed [OF tic(2)] by (simp_all add: wired_def same_setup_def)
  from Suc.IH [OF this, of w1 fss1 m] run tic fss show ?case
    by (auto intro: same_setup_trans)
qed simp

lemma run_tics_plug:
  assumes "wired fm actor notify s" "well_timed s" "w_plug w = (m, c)"
  obtains s' w' where "run_tics serialize clock n (s, w) = Some (s', w')"
    "w_plug w' = (snd (fm_run fm n m),
       fold (deliver serialize actor notify) (map (map fault_data) (fst (fm_run fm n m))) c)"
proof -
  have "fm_run fm n (fst (w_plug w)) = (fst (fm_run fm n m), snd (fm_run fm n m))" using assms(3) by simp
  from run_tics_world [OF assms(1,2) this, of serialize clock] show thesis using assms(3) that by auto
qed

section \<open>Tics and time\<close>

text \<open>After \<open>k\<close> tics the schedule is at \<open>t0 + k * duration\<close>, skipped tics included.\<close>

definition on_schedule :: "int \<Rightarrow> 'w server \<Rightarrow> bool" where
  "on_schedule t0 s \<longleftrightarrow> (\<exists>k. sv_tic s = of_nat k \<and> sv_timestamp s = t0 + sv_duration s * int k)"

lemma skip_to_end_of_tic_schedule:
  assumes timed: "sv_tic_length s \<noteq> 0" "0 < sv_duration s" and sched: "on_schedule t0 s"
    and clock: "\<forall>i. sint (clock i) \<le> sv_timestamp s + sv_duration s * 2 ^ 32"
    and skip: "skip_to_end_of_tic clock (s, w) = Some (s', w')"
  shows "on_schedule t0 s' \<and> sint (clock (sv_clock s' - 1)) \<le> sv_timestamp s'"
proof -
  obtain j w1 where j: "skip_to_end_of_tic clock (s, w) =
      Some (s\<lparr>sv_tic := sv_tic s + 1 + ucast (of_nat j :: u32),
              sv_timestamp := sv_timestamp s + sv_duration s * (int j + 1),
              sv_clock := sv_clock s + j + 1\<rparr>, w1)"
    "sint (clock (sv_clock s + j)) \<le> sv_timestamp s + sv_duration s * (int j + 1)"
    "\<forall>i<j. sv_timestamp s + sv_duration s * (int i + 1) < sint (clock (sv_clock s + i))"
    using skip_to_end_of_tic_timed [OF timed, of clock w] by blast
  have "j < 2 ^ 32"
  proof (rule ccontr)
    assume "\<not> j < 2 ^ 32"
    then have "4294967295 < j" by simp
    with j(3) have "sv_timestamp s + sv_duration s * (int 4294967295 + 1) < sint (clock (sv_clock s + 4294967295))"
      by blast
    moreover have "sint (clock (sv_clock s + 4294967295)) \<le> sv_timestamp s + sv_duration s * 2 ^ 32"
      using clock by blast
    ultimately show False by simp
  qed
  then have "ucast (of_nat j :: u32) = (of_nat j :: u64)"
    by (simp add: unsigned_of_nat take_bit_nat_eq_self)
  moreover obtain k where "sv_tic s = of_nat k" "sv_timestamp s = t0 + sv_duration s * int k"
    using sched by (auto simp: on_schedule_def)
  ultimately have "on_schedule t0 s'"
    using j(1) skip by (auto simp: on_schedule_def algebra_simps intro!: exI [of _ "k + 1 + j"])
  then show ?thesis using j(1,2) skip by auto
qed

lemma do_tic_schedule:
  assumes timed: "sv_tic_length s \<noteq> 0" "0 < sv_duration s"
    and start: "if sv_tic s = 0 then t0 = sint (clock (sv_clock s)) else on_schedule t0 s"
    and clock: "\<forall>i. sint (clock i) \<le> sv_timestamp (tic_begin clock s) + sv_duration s * 2 ^ 32"
    and tic: "do_tic serialize clock (s, w) = Some (s', w')"
  shows "on_schedule t0 s' \<and> sint (clock (sv_clock s' - 1)) \<le> sv_timestamp s'"
proof -
  let ?s0 = "tic_begin clock s"
  have same: "sv_tic_length ?s0 = sv_tic_length s" "sv_duration ?s0 = sv_duration s"
    by (simp_all add: tic_begin_def)
  have "on_schedule t0 ?s0"
    using start by (auto simp: on_schedule_def tic_begin_def intro: exI [of _ 0] split: if_splits)
  from skip_to_end_of_tic_schedule [OF _ _ this, unfolded same, OF timed clock] tic
  show ?thesis by (simp add: do_tic_eq Let_def)
qed

section \<open>Node states\<close>

lemma set_state_in_map:
  "distinct (map node_name ns) \<Longrightarrow>
   set_state_in name state ns =
     (if name \<in> node_name ` set ns then 0 else 1,
      map (\<lambda>n. if node_name n = name then n\<lparr>node_state := state\<rparr> else n) ns)"
proof (induction ns)
  case (Cons n ns)
  have "map (\<lambda>n. if node_name n = name then n\<lparr>node_state := state\<rparr> else n) ns = ns"
    if "name = node_name n" using Cons.prems that by (intro map_idI) (auto simp: image_iff)
  with Cons show ?case by auto
qed simp

text \<open>The state a message gives to the node of a name: the status in it, if it is for that node.\<close>

definition reported :: "(string \<Rightarrow> backchannel option) \<Rightarrow> string \<Rightarrow> string \<Rightarrow> u32 \<Rightarrow> u32" where
  "reported parse name msg old =
     (case parse msg of
        Some back \<Rightarrow>
          (case bc_newstatus back of
             Some st \<Rightarrow> if bc_msgtype back = BC_STATUS \<and> c_str (bc_nodename back) = name
                       then snd (status_state st) else old
           | None \<Rightarrow> old)
      | None \<Rightarrow> old)"

definition report :: "(string \<Rightarrow> backchannel option) \<Rightarrow> string \<Rightarrow> node \<Rightarrow> node" where
  "report parse msg n = n\<lparr>node_state := reported parse (node_name n) msg (node_state n)\<rparr>"

lemma report_sel [simp]: "node_name (report parse msg n) = node_name n"
  by (simp add: report_def)

lemma on_message_nodes:
  assumes "distinct (map node_name (sv_nodes s))"
  shows "\<exists>s' w'. on_message parse msg (Some s) w = (Some s', w')
    \<and> sv_nodes s' = map (report parse msg) (sv_nodes s) \<and> sv_other_cb s' = sv_other_cb s"
proof (cases "parse msg")
  case None
  then have "report parse msg = (\<lambda>n. n)" by (simp add: fun_eq_iff report_def reported_def)
  with None show ?thesis by (simp add: on_message_def)
next
  case (Some bk)
  show ?thesis
  proof (cases "bc_msgtype bk = BC_STATUS \<and> bc_newstatus bk \<noteq> None")
    case True
    then obtain st where st: "bc_newstatus bk = Some st" by blast
    have "report parse msg = (\<lambda>n. if node_name n = c_str (bc_nodename bk)
        then n\<lparr>node_state := snd (status_state st)\<rparr> else n)"
      using Some True st by (auto simp: fun_eq_iff report_def reported_def)
    with True Some st show ?thesis
      by (simp add: on_message_def set_node_state_def set_state_in_map assms split_beta Let_def)
  next
    case False
    then have "report parse msg = (\<lambda>n. n)"
      using Some by (auto simp: fun_eq_iff report_def reported_def split: option.splits)
    with False Some show ?thesis
      by (cases "bc_msgtype bk") (auto simp: on_message_def split: option.splits)
  qed
qed

text \<open>
  The messages of the backchannel in the order they arrive. The state of a node is what the last
  status message for it says: messages for other nodes, log messages and garbage do not matter.
\<close>

fun on_messages ::
  "(string \<Rightarrow> backchannel option) \<Rightarrow> string list \<Rightarrow> 'w server \<times> 'p world \<Rightarrow> 'w server \<times> 'p world" where
  "on_messages parse [] sw = sw"
| "on_messages parse (msg # msgs) (s, w) =
     (case on_message parse msg (Some s) w of
        (Some s', w') \<Rightarrow> on_messages parse msgs (s', w')
      | (None, w') \<Rightarrow> (s, w'))"

lemma on_messages_nodes:
  "distinct (map node_name (sv_nodes s)) \<Longrightarrow>
   sv_nodes (fst (on_messages parse msgs (s, w))) =
     map (\<lambda>n. n\<lparr>node_state := fold (reported parse (node_name n)) msgs (node_state n)\<rparr>) (sv_nodes s)"
proof (induction msgs arbitrary: s w)
  case (Cons msg msgs)
  obtain s' w' where step: "on_message parse msg (Some s) w = (Some s', w')"
    "sv_nodes s' = map (report parse msg) (sv_nodes s)"
    using on_message_nodes [OF Cons.prems] by blast
  then have "distinct (map node_name (sv_nodes s'))" using Cons.prems by (simp add: comp_def)
  from Cons.IH [OF this] step show ?case by (simp add: report_def comp_def)
qed (simp add: map_idI)

text \<open>Without a callback for other messages nothing is forwarded.\<close>

lemma on_message_no_cb:
  "sv_other_cb s = None \<Longrightarrow> \<exists>s' w'. on_message parse msg (Some s) w = (Some s', w')
     \<and> sv_other_cb s' = None \<and> sv_forwarded s' = sv_forwarded s"
  by (auto simp: on_message_def set_node_state_def split_beta Let_def split: option.split bc_type.split)

end
