(* ===== verification/Echo.thy ===== *)
theory Echo
  imports Server
begin

text \<open>
  What the server relies on from a communication backend (\<open>include/lausim/com.h\<close>), and the echo
  plugin (\<open>plugins/echo/echo.c\<close>), which prints the notifications.
\<close>

section \<open>What a backend promises\<close>

text \<open>
  \<open>out\<close> is what the backend has sent so far, in the order it was sent. Every notification appends
  its own output, whatever was sent before.
\<close>

locale com_backend =
  fixes com :: "'c com" and invar :: "'c \<Rightarrow> bool" and out :: "'c \<Rightarrow> 'o list"
    and emit_fail :: "fault_data \<Rightarrow> 'o list" and emit_extern :: "string \<Rightarrow> 'o list"
  assumes invar_fail: "invar c \<Longrightarrow> invar (snd (com_notify_fail com n p sev c))"
    and invar_extern: "invar c \<Longrightarrow> invar (snd (com_notify_extern com t c))"
    and out_fail: "invar c \<Longrightarrow> out (snd (com_notify_fail com n p sev c)) = out c @ emit_fail (n, p, sev)"
    and out_extern: "invar c \<Longrightarrow> out (snd (com_notify_extern com t c)) = out c @ emit_extern t"
begin

definition tic_output :: "(string list \<Rightarrow> string list \<Rightarrow> string) \<Rightarrow> fault_data list \<Rightarrow> 'o list" where
  "tic_output serialize fds =
     (if fds = [] then []
      else concat (map emit_fail fds) @ emit_extern (serialize (failing_nodes fds) (spare_nodes fds)))"

lemma notify_all_out:
  "invar c \<Longrightarrow> invar (notify_all com fds c) \<and> out (notify_all com fds c) = out c @ concat (map emit_fail fds)"
proof (induction fds arbitrary: c)
  case (Cons fd fds)
  obtain n p sev where fd: "fd = (n, p, sev)" by (cases fd)
  have step: "notify_all com (fd # fds) c = notify_all com fds (snd (com_notify_fail com n p sev c))"
    by (simp add: notify_all_def fd)
  show ?case
    using Cons.IH [OF invar_fail [OF Cons.prems]] out_fail [OF Cons.prems] unfolding step by (simp add: fd)
qed (simp add: notify_all_def)

lemma deliver_out:
  "invar c \<Longrightarrow> invar (deliver serialize com com fds c)
     \<and> out (deliver serialize com com fds c) = out c @ tic_output serialize fds"
  using notify_all_out [of c fds]
  by (simp add: deliver_def tic_output_def invar_extern out_extern)

lemma deliveries_out:
  "invar c \<Longrightarrow> invar (fold (deliver serialize com com) fdss c)
     \<and> out (fold (deliver serialize com com) fdss c) = out c @ concat (map (tic_output serialize) fdss)"
  by (induction fdss arbitrary: c) (simp_all add: deliver_out)

end

section \<open>The echo plugin\<close>

record echo =
  ec_out :: string
  ec_log :: "log_call list"

definition echo_fail_line :: "fault_data \<Rightarrow> string" where
  "echo_fail_line = (\<lambda>(node, component, sev).
     case component of
       Some c \<Rightarrow> ''Node \"'' @ node @ ''\" Component \"'' @ c @ ''\" failed with severity '' @ show_signed sev @ [newline]
     | None \<Rightarrow> ''Node \"'' @ node @ ''\" '' @ (if sev \<noteq> 0 then ''failed'' else ''recovered'') @ [newline])"

definition echo_notify_fail :: "string \<Rightarrow> string option \<Rightarrow> u32 \<Rightarrow> echo \<Rightarrow> int \<times> echo" where
  "echo_notify_fail node component sev e = (0, e\<lparr>ec_out := ec_out e @ echo_fail_line (node, component, sev)\<rparr>)"

definition echo_extern_line :: "string \<Rightarrow> string" where
  "echo_extern_line msg = ''Node Failed: '' @ c_str msg @ [newline]"

definition echo_notify_extern :: "string \<Rightarrow> echo \<Rightarrow> int \<times> echo" where
  "echo_notify_extern msg e = (0, e\<lparr>ec_out := ec_out e @ echo_extern_line msg\<rparr>)"

definition echo_com :: "echo com" where
  "echo_com = \<lparr>com_capabilities = COM_NONE, com_notify_fail = echo_notify_fail,
               com_notify_extern = echo_notify_extern, com_set_mode = None, com_set_callback = None,
               com_get_msg = None\<rparr>"

fun echo_log_args :: "nat \<Rightarrow> string list \<Rightarrow> echo \<Rightarrow> echo" where
  "echo_log_args n [] e = e"
| "echo_log_args n (a # as) e =
     echo_log_args (Suc n) as
       (e\<lparr>ec_log := ec_log e @ [(LL_Debug, snprintf 512 (''[ECHO] Arg #'' @ show_nat n @ '': '' @ a))]\<rparr>)"

text \<open>\<open>init\<close>: its result, and whether it registers the plugin.\<close>

definition echo_init :: "int \<Rightarrow> string list \<Rightarrow> echo \<Rightarrow> int \<times> echo \<times> bool" where
  "echo_init version argv e =
     (if version \<noteq> PL_INTF_VERSION
      then (1, e\<lparr>ec_out := ec_out e @ ''[ECHO] Plugin interface version missmatch'' @ [newline]\<rparr>, False)
      else (0, echo_log_args 0 argv e, True))"

interpretation echo: com_backend echo_com "\<lambda>_. True" ec_out echo_fail_line echo_extern_line
  by unfold_locales (simp_all add: echo_com_def echo_notify_fail_def echo_notify_extern_def)

end
