(* ===== verification/Mosquitto.thy ===== *)
theory Mosquitto
  imports Echo
begin

text \<open>
  The MQTT plugin of the server (\<open>plugins/mosquitto/com_mosquitto.cpp\<close>). The mosquitto library is
  a parameter: the plugin's calls of it are kept in a list, and \<open>ret\<close> gives the result of a call
  after the calls made before it; \<open>strerror\<close> is its table of messages. Text on standard error is
  not modelled.
\<close>

section \<open>State\<close>

datatype mosq_call =
    Lib_init
  | Lib_cleanup
  | Connect string int u32
  | Subscribe string int
  | Will_set string string
  | Publish string string
  | Disconnect
  | Loop_start
  | Loop_stop
  | Destroy

type_synonym mosq_ret = "mosq_call list \<Rightarrow> mosq_call \<Rightarrow> int"

record mosq =
  mq_init_state :: bool
  mq_id :: string
  mq_is_init :: bool
  mq_callback :: "msg_callback option"
  mq_calls :: "mosq_call list"
  mq_log :: "log_call list"

definition mosq_load :: mosq where
  "mosq_load = \<lparr>mq_init_state = False, mq_id = [], mq_is_init = False, mq_callback = None,
                mq_calls = [], mq_log = []\<rparr>"

definition mq_logf :: "log_level \<Rightarrow> string \<Rightarrow> mosq \<Rightarrow> mosq" where
  "mq_logf l m s = s\<lparr>mq_log := mq_log s @ [(l, m)]\<rparr>"

definition mq_call :: "mosq_ret \<Rightarrow> mosq_call \<Rightarrow> mosq \<Rightarrow> int \<times> mosq" where
  "mq_call ret c s = (ret (mq_calls s) c, s\<lparr>mq_calls := mq_calls s @ [c]\<rparr>)"

definition mq_back_topic :: string where "mq_back_topic = ''envelope/master/#''"
definition LAST_WILL_TOPIC :: string where "LAST_WILL_TOPIC = ''last_will''"

section \<open>Start and stop\<close>

definition init_mosquitto :: "mosq_ret \<Rightarrow> mosq \<Rightarrow> int \<times> mosq" where
  "init_mosquitto ret s =
     (let (r, s1) = (if \<not> mq_init_state s
                     then let (r, s') = mq_call ret Lib_init s
                          in (r, if r = 0 then s'\<lparr>mq_init_state := True\<rparr> else s')
                     else (0, s))
      in (r, mq_logf LL_Debug ''[MQTT] lib initialized'' s1))"

definition cleanup_mosquitto :: "mosq_ret \<Rightarrow> mosq \<Rightarrow> int \<times> mosq" where
  "cleanup_mosquitto ret s =
     (let (r, s1) = (if mq_init_state s then mq_call ret Lib_cleanup s else (0, s))
      in (r, mq_logf LL_Debug ''[MQTT] lib cleanup'' s1))"

definition mosq_connect ::
  "mosq_ret \<Rightarrow> (int \<Rightarrow> string) \<Rightarrow> string \<Rightarrow> int \<Rightarrow> u32 \<Rightarrow> mosq \<Rightarrow> int \<times> mosq" where
  "mosq_connect ret strerror addr port keep_alive s =
     (if mq_is_init s \<or> \<not> mq_init_state s then (- 1, s)
      else
        let (e, s1) = mq_call ret (Connect addr port keep_alive) (mq_logf LL_Debug ''[MQTT] connecting'' s)
        in if e \<noteq> 0 then (- 1, mq_logf LL_Error (strerror e) s1)
           else
             let (e2, s2) = mq_call ret (Subscribe mq_back_topic 0) (mq_logf LL_Debug ''[MQTT] connected'' s1);
                 s3 = (if e2 \<noteq> 0 then mq_logf LL_Warning (strerror e2) s2 else s2);
                 (_, s4) = mq_call ret (Will_set LAST_WILL_TOPIC (mq_id s3)) s3
             in (0, s4\<lparr>mq_is_init := True\<rparr>))"

text \<open>
  The plugin's \<open>init\<close>: host, port and keep-alive time default to localhost, 1883 and 60. The logger
  is unset when there is no argument: None stands for the call through that null pointer. The
  flag of the result says whether the plugin asks to be registered, \<open>reg\<close> what the plugin
  manager answers.
\<close>

definition mosq_arg_int :: "string \<Rightarrow> int" where
  "mosq_arg_int a = sint (ucast (strtoul_val 0 a) :: u32)"

definition mosq_args :: "string list \<Rightarrow> string \<times> int \<times> u32" where
  "mosq_args argv =
     (case argv of
        _ # addr # port # keep # _ \<Rightarrow> (addr, mosq_arg_int port, ucast (strtoul_val 0 keep))
      | [_, addr, port] \<Rightarrow> (addr, mosq_arg_int port, 60)
      | [_, addr] \<Rightarrow> (addr, 1883, 60)
      | _ \<Rightarrow> (''localhost'', 1883, 60))"

definition new_ComMosquitto :: "string \<Rightarrow> mosq \<Rightarrow> mosq" where
  "new_ComMosquitto name s = s\<lparr>mq_id := name, mq_is_init := False, mq_callback := None\<rparr>"

definition mosq_init ::
  "mosq_ret \<Rightarrow> (int \<Rightarrow> string) \<Rightarrow> int \<Rightarrow> int \<Rightarrow> string list \<Rightarrow> mosq \<Rightarrow> (int \<times> mosq \<times> bool) option" where
  "mosq_init ret strerror reg version argv s =
     (case argv of
        [] \<Rightarrow> None
      | name # _ \<Rightarrow>
          if version \<noteq> PL_INTF_VERSION then Some (1, s, False)
          else
            let (_, s1) = init_mosquitto ret s;
                (addr, port, keep) = mosq_args argv;
                (sc, s2) = mosq_connect ret strerror addr port keep
                             (new_ComMosquitto name s1)
            in if sc \<noteq> 0 then Some (sc, mq_logf LL_Error ''[MQTT] initialization failed'' s2, False)
               else
                 let s3 = mq_logf LL_Debug ''[MQTT] init finished'' s2
                 in if reg \<noteq> 0 then Some (1, snd (cleanup_mosquitto ret s3), True)
                    else Some (0, s3, True))"

definition mosq_post_init :: "mosq_ret \<Rightarrow> mosq \<Rightarrow> int \<times> mosq" where
  "mosq_post_init ret s = (0, snd (mq_call ret Loop_start s))"

text \<open>
  Deleting the instance destroys the connection twice: the destructor calls that of its base class,
  which runs again behind it.
\<close>

definition delete_ComMosquitto :: "mosq_ret \<Rightarrow> mosq \<Rightarrow> mosq" where
  "delete_ComMosquitto ret s = snd (mq_call ret Destroy (snd (mq_call ret Destroy s)))"

definition mosq_cleanup :: "mosq_ret \<Rightarrow> mosq \<Rightarrow> int \<times> mosq" where
  "mosq_cleanup ret s =
     (let s1 = (if mq_is_init s then snd (mq_call ret Loop_stop (snd (mq_call ret Disconnect s))) else s)
      in (0, snd (cleanup_mosquitto ret (delete_ComMosquitto ret s1))))"

section \<open>Messages\<close>

definition mosq_topic :: "string \<Rightarrow> string option \<Rightarrow> string" where
  "mosq_topic target cmp = ''envelope/'' @ target @ (case cmp of None \<Rightarrow> [] | Some c \<Rightarrow> ''/'' @ c)"

definition mosq_payload :: "u32 \<Rightarrow> string" where
  "mosq_payload severity = ''0x'' @ show_hex severity"

text \<open>Without a connection \<open>notify_fail\<close> returns \<open>false\<close>, which is 0.\<close>

definition mosq_notify_fail ::
  "mosq_ret \<Rightarrow> (int \<Rightarrow> string) \<Rightarrow> string \<Rightarrow> string option \<Rightarrow> u32 \<Rightarrow> mosq \<Rightarrow> int \<times> mosq" where
  "mosq_notify_fail ret strerror target cmp severity s =
     (if \<not> mq_is_init s then (0, s)
      else
        let (e, s1) = mq_call ret (Publish (mosq_topic target cmp) (mosq_payload severity))
                        (mq_logf LL_Debug ''sending msg'' s)
        in if e \<noteq> 0 then (- 1, mq_logf LL_Error (strerror e) s1) else (0, s1))"

definition mosq_notify_extern :: "mosq_ret \<Rightarrow> string \<Rightarrow> mosq \<Rightarrow> int \<times> mosq" where
  "mosq_notify_extern ret msg s =
     (if \<not> mq_is_init s then (1, s) else (0, snd (mq_call ret (Publish ''envelope/lausim'' msg) s)))"

definition mosq_set_callback :: "msg_callback option \<Rightarrow> mosq \<Rightarrow> msg_callback option \<times> mosq" where
  "mosq_set_callback cb s = (mq_callback s, s\<lparr>mq_callback := cb\<rparr>)"

text \<open>A message of the broker: the callback that is called and what it gets.\<close>

definition mosq_on_message :: "string \<Rightarrow> mosq \<Rightarrow> (msg_callback \<times> string) option \<times> mosq" where
  "mosq_on_message payload s =
     (let s1 = mq_logf LL_Debug ''[MQTT] message received'' s
      in (if payload = [] then None else map_option (\<lambda>cb. (cb, payload)) (mq_callback s1), s1))"

definition mosq_com :: "mosq_ret \<Rightarrow> (int \<Rightarrow> string) \<Rightarrow> mosq com" where
  "mosq_com ret strerror =
     \<lparr>com_capabilities = COM_ASYNC, com_notify_fail = mosq_notify_fail ret strerror,
      com_notify_extern = mosq_notify_extern ret, com_set_mode = None,
      com_set_callback = Some mosq_set_callback, com_get_msg = None\<rparr>"

section \<open>The backend contract\<close>

fun published :: "mosq_call list \<Rightarrow> (string \<times> string) list" where
  "published [] = []"
| "published (Publish t p # cs) = (t, p) # published cs"
| "published (_ # cs) = published cs"

lemma published_append [simp]: "published (xs @ ys) = published xs @ published ys"
  by (induction xs rule: published.induct) simp_all

definition mosq_message :: "fault_data \<Rightarrow> string \<times> string" where
  "mosq_message = (\<lambda>(n, c, sev). (mosq_topic n c, mosq_payload sev))"

interpretation mosq: com_backend "mosq_com ret strerror" mq_is_init "\<lambda>s. published (mq_calls s)"
    "\<lambda>fd. [mosq_message fd]" "\<lambda>msg. [(''envelope/lausim'', msg)]"
  for ret :: mosq_ret and strerror :: "int \<Rightarrow> string"
  by unfold_locales
     (simp_all add: mosq_com_def mosq_notify_fail_def mosq_notify_extern_def mq_call_def mq_logf_def
        mosq_message_def split_beta Let_def)

text \<open>A plugin that came up is connected; the calls of its start publish nothing.\<close>

lemma mosq_init_ready:
  "mosq_init ret strerror reg version argv s = Some (0, s', asked) \<Longrightarrow>
   mq_is_init s' \<and> published (mq_calls s') = published (mq_calls s)"
  by (auto simp: mosq_init_def new_ComMosquitto_def mosq_connect_def init_mosquitto_def cleanup_mosquitto_def mq_call_def
      mq_logf_def Let_def split: list.splits if_splits prod.splits)

end
