(* ===== verification/Plugin_Hooks.thy ===== *)
theory Plugin_Hooks
  imports Config Record_Replay
begin

text \<open>
  How the recorder and the replay plugin come up (\<open>init\<close> and \<open>post\<close> of
  \<open>plugins/transcribe/transcribe.c\<close> and \<open>plugins/replay/replay.c\<close>): they register with the plugin
  manager, and the recorder takes the place of the fault manager it wraps. The file system is a
  parameter: which files can be written and the text of those that can be read. Both plugins log
  through the logger of the plugin manager.
\<close>

section \<open>The recorder\<close>

text \<open>The result of \<open>init\<close> with the names of the nested manager and of the file.\<close>

definition transcribe_init ::
  "plugin_manager_interface \<Rightarrow> ptr \<Rightarrow> (string \<Rightarrow> bool) \<Rightarrow> string list \<Rightarrow> pm
   \<Rightarrow> int \<times> (string \<times> string) option \<times> pm" where
  "transcribe_init intf tp fopen argv s =
     (if pi_version intf \<noteq> PL_INTF_VERSION
      then (1, None, pm_logf LL_Error ''[TRANSCRIBE] Plugin interface version missmatch'' s)
      else case argv of
             nested # filename # _ \<Rightarrow>
               if \<not> fopen filename then (- 1, None, pm_logf LL_Error ''[TRANSCRIBE] unable to open file'' s)
               else (0, Some (nested, filename), snd (pi_register_plugin intf tp s))
           | _ \<Rightarrow> (- 1, None, pm_logf LL_Error ''[TRANSCRIBE] usage: transcribe.so nested_manager filename'' s))"

text \<open>
  \<open>post\<close> finds the nested manager and moves the role of the fault manager to it. A plugin that is
  no fault manager has no \<open>fm\<close> function: the call through the null pointer is \<open>Post_crash\<close>.
\<close>

datatype post_result = Post_ok ptr pm | Post_failed pm | Post_uncaught exn | Post_crash

definition transcribe_post :: "plugin_manager_interface \<Rightarrow> 'w pheap \<Rightarrow> ptr \<Rightarrow> string \<Rightarrow> pm \<Rightarrow> post_result" where
  "transcribe_post intf h tp name s =
     (case pi_by_name intf name s of
        None \<Rightarrow> Post_failed (pm_logf LL_Error ''[TRANSCRIBE] unable aquire nested fault manager'' s)
      | Some fmpl \<Rightarrow>
          (case pi_add_role intf (Some fmpl) PL_FAULT_MANAGER s of
             Inl e \<Rightarrow> Post_uncaught e
           | Inr (_, s1) \<Rightarrow>
               (case pi_set_role intf (Some tp) PL_OTHER s1 of
                  Inl e \<Rightarrow> Post_uncaught e
                | Inr (_, s2) \<Rightarrow>
                    (case pl_fm (h fmpl) of None \<Rightarrow> Post_crash | Some _ \<Rightarrow> Post_ok fmpl s2))))"

section \<open>The replay plugin\<close>

definition replay_init ::
  "plugin_manager_interface \<Rightarrow> ptr \<Rightarrow> (string \<Rightarrow> string option) \<Rightarrow> string list \<Rightarrow> pm
   \<Rightarrow> int \<times> replay option \<times> pm" where
  "replay_init intf rep files argv s =
     (if pi_version intf \<noteq> PL_INTF_VERSION
      then (1, None, pm_logf LL_Error ''[REPLAY] Plugin interface version missmatch'' s)
      else case argv of
             [] \<Rightarrow> (- 1, None, pm_logf LL_Error ''[REPLAY] usage: libreplay.so filename'' s)
           | filename # _ \<Rightarrow>
               (case files filename of
                  None \<Rightarrow> (- 1, None, pm_logf LL_Error ''[REPLAY] unable to open file'' s)
                | Some content \<Rightarrow> (0, Some (replay_start content), snd (pi_register_plugin intf rep s))))"

section \<open>They are good citizens\<close>

lemma registered_logf [simp]: "registered (pm_logf l m s) = registered s"
  by (simp add: registered_def)

lemma register_plugin_mono: "registered s \<subseteq> registered (snd (register_plugin h p s))"
  by (auto simp: register_plugin_def registered_def Let_def set_insort_key)

lemma register_plugin_keeps: "pm_inv h s \<Longrightarrow> pm_inv h (snd (register_plugin h p s))"
  by (rule pmr.invar_reg)

lemma transcribe_init_keeps:
  "pm_inv h s \<Longrightarrow> pm_inv h (snd (snd (transcribe_init (interface h) tp fopen argv s)))
     \<and> registered s \<subseteq> registered (snd (snd (transcribe_init (interface h) tp fopen argv s)))"
  by (simp add: transcribe_init_def register_plugin_keeps register_plugin_mono split: list.split)

lemma replay_init_keeps:
  "pm_inv h s \<Longrightarrow> pm_inv h (snd (snd (replay_init (interface h) rep files argv s)))
     \<and> registered s \<subseteq> registered (snd (snd (replay_init (interface h) rep files argv s)))"
  by (simp add: replay_init_def register_plugin_keeps register_plugin_mono split: list.split option.split)

text \<open>
  The loader that knows these two libraries; the plugins keep their state in the second part of
  the world. It gives the configuration what it relies on.
\<close>

definition shipped_loader ::
  "('p \<times> replay option) world pheap \<Rightarrow> ptr \<Rightarrow> ptr \<Rightarrow> (string \<Rightarrow> bool) \<Rightarrow> (string \<Rightarrow> string option)
   \<Rightarrow> ('p \<times> replay option) loader" where
  "shipped_loader h tp rep fopen files name =
     (if name = ''libtranscribe.so'' then
        Some (\<lambda>sym. if sym = ''init'' then
                Some (\<lambda>argv w. let (r, _, pm') = transcribe_init (interface h) tp fopen argv (w_pm w)
                               in (r, w\<lparr>w_pm := pm'\<rparr>)) else None)
      else if name = ''libreplay.so'' then
        Some (\<lambda>sym. if sym = ''init'' then
                Some (\<lambda>argv w. let (r, st, pm') = replay_init (interface h) rep files argv (w_pm w)
                               in (r, w\<lparr>w_pm := pm', w_plug := (fst (w_plug w), st)\<rparr>)) else None)
      else None)"

lemma shipped_loader_well_behaved: "well_behaved h (shipped_loader h tp rep fopen files)"
  unfolding well_behaved_def shipped_loader_def
  using transcribe_init_keeps [of h] replay_init_keeps [of h]
  by (auto simp: split_beta Let_def split: if_splits)

section \<open>The recorder hands the role over\<close>

lemma get_by_type_role:
  "get_by_type t s = Some p \<Longrightarrow> \<exists>r. (p, r) \<in> set (pm_plugins s) \<and> r AND t = t"
  using get_by_type_Some by blast

text \<open>Behind \<open>post\<close> the lookup by role no longer finds the recorder but a capable fault manager.\<close>

lemma transcribe_post_ok:
  assumes inv: "pm_inv h s" and post: "transcribe_post (interface h) h tp name s = Post_ok fmpl s'"
    and types: "pl_type (h tp) AND PL_OTHER = PL_OTHER"
  shows "pm_inv h s' \<and> pl_name (h fmpl) = name \<and> fmpl \<in> registered s
    \<and> (pl_type (h fmpl) AND PL_FAULT_MANAGER = PL_FAULT_MANAGER \<and> fmpl \<noteq> tp \<longrightarrow> get_by_type PL_FAULT_MANAGER s' \<noteq> None)
    \<and> (\<forall>p. get_by_type PL_FAULT_MANAGER s' = Some p \<longrightarrow> p \<noteq> tp \<and> pl_type (h p) AND PL_FAULT_MANAGER = PL_FAULT_MANAGER)"
proof -
  obtain s1 r1 r2 where s1: "add_role h (Some fmpl) PL_FAULT_MANAGER s = Inr (r1, s1)"
    "set_role h (Some tp) PL_OTHER s1 = Inr (r2, s')" "get_by_name h name s = Some fmpl"
    using post by (auto simp: transcribe_post_def split: option.splits sum.splits prod.splits)
  have inv': "pm_inv h s'" using inv s1 add_role_inv set_role_inv by blast
  have s': "s' = s1\<lparr>pm_plugins := map (\<lambda>(q, r). (q, if q = tp then PL_OTHER else r)) (pm_plugins s1)\<rparr>"
    using s1(2) types by (auto simp: set_role_def update_role_def split: if_splits)
  have "p \<noteq> tp" if p: "get_by_type PL_FAULT_MANAGER s' = Some p" for p
  proof
    assume "p = tp"
    moreover obtain r where "(p, r) \<in> set (pm_plugins s')" "r AND PL_FAULT_MANAGER = PL_FAULT_MANAGER"
      using get_by_type_role [OF p] by blast
    ultimately have "(32 :: u64) AND 4 = 4" by (auto simp: s')
    then show False by simp
  qed
  moreover have "get_by_type PL_FAULT_MANAGER s' \<noteq> None"
    if "pl_type (h fmpl) AND PL_FAULT_MANAGER = PL_FAULT_MANAGER" "fmpl \<noteq> tp"
  proof -
    obtain r where "(fmpl, r) \<in> set (pm_plugins s)" using get_by_name_found [OF s1(3)] by (auto simp: registered_def)
    then have "(fmpl, r OR 4) \<in> set (pm_plugins s1)"
      using s1(1) that(1) by (force simp: add_role_def update_role_def split: if_splits)
    then have "(fmpl, r OR 4) \<in> set (pm_plugins s')" using that(2) by (force simp: s')
    moreover have "(r OR 4) AND 4 = 4" by (rule bit_word_eqI) (auto simp: bit_simps)
    ultimately show ?thesis unfolding get_by_type_None by blast
  qed
  ultimately show ?thesis
    using inv' get_by_name_found [OF s1(3)] get_by_type_capable [OF inv'] by (auto simp: registered_def)
qed

end
