(* ===== verification/Logging.thy ===== *)
theory Logging
  imports Lausim_Types
begin

text \<open>
  The two loggers: the one built into the server (\<open>srv/stdoutLog.cpp\<close>) and the file logger
  plugin (\<open>plugins/filelogger/filelogger.c\<close>). Each is a minimum level and the text written so
  far; the mutex makes a call of \<open>log_fun\<close> one step. The contract of \<open>include/lausim/logger.h\<close>
  is a locale that both loggers interpret.
\<close>

section \<open>The built-in logger\<close>

record stdout_log =
  ll_min :: log_level
  cerr :: string

definition log_level_from_int :: "u32 \<Rightarrow> log_level" where
  "log_level_from_int level =
     (if level = 0 then LL_None else if level = 1 then LL_Debug else if level = 2 then LL_Info
      else if level = 3 then LL_Warning else if level = 4 then LL_Error
      else if level = 5 then LL_Fatal else LL_Warning)"

fun stdout_prefix :: "log_level \<Rightarrow> string" where
  "stdout_prefix LL_None = ''[NONE] ''"
| "stdout_prefix LL_Debug = ''[DEBUG]''"
| "stdout_prefix LL_Info = ''[INFO] ''"
| "stdout_prefix LL_Warning = ''[WARN] ''"
| "stdout_prefix LL_Error = ''[ERROR]''"
| "stdout_prefix LL_Fatal = ''[FATAL]''"

definition log_stdout :: "log_level \<Rightarrow> string \<Rightarrow> stdout_log \<Rightarrow> stdout_log" where
  "log_stdout l str s =
     (if l < ll_min s then s
      else s\<lparr>cerr := cerr s @ stdout_prefix l @ '' '' @ str @ [newline]\<rparr>)"

definition set_min_log_level :: "log_level \<Rightarrow> stdout_log \<Rightarrow> stdout_log" where
  "set_min_log_level l s = s\<lparr>ll_min := l\<rparr>"

definition standard_log :: stdout_log where
  "standard_log = \<lparr>ll_min = LL_None, cerr = []\<rparr>"

section \<open>The file logger\<close>

record file_log =
  fl_lvl :: log_level
  fl_file :: string

fun filelog_prefix :: "log_level \<Rightarrow> string" where
  "filelog_prefix LL_None = ''[NONE] ''"
| "filelog_prefix LL_Debug = ''[DEBUG]''"
| "filelog_prefix LL_Info = ''[INFO] ''"
| "filelog_prefix LL_Warning = ''[WARN] ''"
| "filelog_prefix LL_Error = ''[ERROR]''"
| "filelog_prefix LL_Fatal = ''[FATAL]''"

definition set_log_level :: "log_level \<Rightarrow> file_log \<Rightarrow> file_log" where
  "set_log_level level s = s\<lparr>fl_lvl := level\<rparr>"

definition logging_fun :: "log_level \<Rightarrow> string \<Rightarrow> file_log \<Rightarrow> file_log" where
  "logging_fun level msg s =
     (if fl_lvl s \<le> level
      then s\<lparr>fl_file := fl_file s @ filelog_prefix level @ '' '' @ msg @ [newline]\<rparr> else s)"

text \<open>
  \<open>init\<close> refuses a negative \<open>argc\<close> only: without arguments it reads \<open>argv[0]\<close> behind the end of
  an array of length 0 (\<open>Init_undefined\<close>). \<open>fopen\<close> says whether a file can be opened.
\<close>

datatype 's init_result = Init_ok 's | Init_failed int | Init_undefined

definition filelogger_init :: "(string \<Rightarrow> bool) \<Rightarrow> string list \<Rightarrow> file_log init_result" where
  "filelogger_init fopen argv =
     (if int (length argv) < 0 then Init_failed 1
      else case argv of
             [] \<Rightarrow> Init_undefined
           | name # _ \<Rightarrow> if fopen name then Init_ok \<lparr>fl_lvl = LL_None, fl_file = []\<rparr> else Init_failed 1)"

section \<open>The contract of a logger\<close>

type_synonym 's log_fun = "log_level \<Rightarrow> string \<Rightarrow> 's \<Rightarrow> 's"

text \<open>The calls of a component, in order, on a logger.\<close>

definition run_log :: "'s log_fun \<Rightarrow> log_call list \<Rightarrow> 's \<Rightarrow> 's" where
  "run_log f calls s = fold (\<lambda>(l, m). f l m) calls s"

locale logger =
  fixes set_ll :: "log_level \<Rightarrow> 's \<Rightarrow> 's"
    and log_fun :: "'s log_fun"
    and level :: "'s \<Rightarrow> log_level"
    and written :: "'s \<Rightarrow> string"
    and log_line :: "log_level \<Rightarrow> string \<Rightarrow> string"
  assumes level_set_ll: "level (set_ll l s) = l"
    and written_set_ll: "written (set_ll l s) = written s"
    and level_log: "level (log_fun l m s) = level s"
    and written_log: "written (log_fun l m s) =
      (if level s \<le> l then written s @ log_line l m else written s)"
begin

lemma run_log_level: "level (run_log log_fun calls s) = level s"
  by (induction calls arbitrary: s) (auto simp: run_log_def level_log)

theorem run_log_written:
  "written (run_log log_fun calls s) =
     written s @ concat (map (\<lambda>(l, m). log_line l m) (filter (\<lambda>(l, m). level s \<le> l) calls))"
proof (induction calls arbitrary: s)
  case (Cons c calls)
  then show ?case by (cases c) (simp add: run_log_def level_log written_log)
qed (simp add: run_log_def)

end

interpretation slog: logger set_min_log_level log_stdout ll_min cerr
  "\<lambda>l m. stdout_prefix l @ '' '' @ m @ [newline]"
  by unfold_locales (auto simp: set_min_log_level_def log_stdout_def)

interpretation flog: logger set_log_level logging_fun fl_lvl fl_file
  "\<lambda>l m. filelog_prefix l @ '' '' @ m @ [newline]"
  by unfold_locales (auto simp: set_log_level_def logging_fun_def)

lemma prefix_eq: "stdout_prefix l = filelog_prefix l"
  by (cases l) simp_all

lemmas log_defs = set_min_log_level_def log_stdout_def set_log_level_def logging_fun_def

end
