(* ===== verification/Options.thy ===== *)
theory Options
  imports Logging
begin

text \<open>
  Command lines: \<open>getopt\<close> of the C library as the server (\<open>srv/options.cpp\<close>) and the client's
  launcher use it, and the options of the server.
\<close>

section \<open>getopt\<close>

text \<open>
  The sequence of results of \<open>getopt\<close> on the arguments behind the program name. \<open>spec\<close> says of
  an option letter whether it takes an argument, None that it is unknown. \<open>cur\<close> is what is left
  of a group such as \<open>-sn5\<close>. GNU \<open>getopt\<close> steps over other arguments, \<open>--\<close> ends the options,
  and an unknown option or a missing argument gives a question mark.
\<close>

type_synonym optspec = "char \<Rightarrow> bool option"

definition is_option :: "string \<Rightarrow> bool" where
  "is_option a \<longleftrightarrow> take 1 a = ''-'' \<and> a \<noteq> ''-''"

function getopt :: "optspec \<Rightarrow> string \<Rightarrow> string list \<Rightarrow> (char \<times> string) list" where
  "getopt spec [] [] = []"
| "getopt spec [] (a # rest) =
     (if a = ''--'' then []
      else if is_option a then getopt spec (tl a) rest
      else getopt spec [] rest)"
| "getopt spec (c # cs) rest =
     (case spec c of
        None \<Rightarrow> (CHR ''?'', []) # getopt spec cs rest
      | Some False \<Rightarrow> (c, []) # getopt spec cs rest
      | Some True \<Rightarrow>
          if cs \<noteq> [] then (c, cs) # getopt spec [] rest
          else (case rest of
                  [] \<Rightarrow> [(CHR ''?'', [])]
                | a # rest' \<Rightarrow> (c, a) # getopt spec [] rest'))"
  by pat_completeness auto
termination
  by (relation "measure (\<lambda>(spec, cur, rest). length cur + sum_list (map (\<lambda>a. Suc (length a)) rest))") auto

section \<open>The options of the server\<close>

record options =
  op_cfile :: string
  op_loglevel :: log_level
  op_sync :: bool
  op_max_tics :: u32

definition new_options :: options where
  "new_options = \<lparr>op_cfile = [], op_loglevel = LL_Warning, op_sync = False, op_max_tics = 0\<rparr>"

text \<open>\<open>optstr = "c:l:sn:"\<close>\<close>

definition server_optspec :: optspec where
  "server_optspec c =
     (if c \<in> {CHR ''c'', CHR ''l'', CHR ''n''} then Some True
      else if c = CHR ''s'' then Some False else None)"

text \<open>
  The loop over the options: the return value, the text on standard error and the options.
\<close>

fun parse_opts :: "(char \<times> string) list \<Rightarrow> options \<Rightarrow> int \<times> string \<times> options" where
  "parse_opts [] o' = (0, [], o')"
| "parse_opts ((opt, optarg) # r) o' =
     (if opt = CHR ''c'' then parse_opts r (o'\<lparr>op_cfile := optarg\<rparr>)
      else if opt = CHR ''l''
      then parse_opts r (o'\<lparr>op_loglevel := log_level_from_int (ucast (strtoul_val 0 optarg))\<rparr>)
      else if opt = CHR ''s'' then parse_opts r (o'\<lparr>op_sync := True\<rparr>)
      else if opt = CHR ''n'' then parse_opts r (o'\<lparr>op_max_tics := ucast (strtoul_val 0 optarg)\<rparr>)
      else (- 1, ''unrecognized option '' @ [CHR 0x27, opt, CHR 0x27, newline], o'))"

definition options_parse :: "string list \<Rightarrow> options \<Rightarrow> int \<times> string \<times> options" where
  "options_parse args o' = parse_opts (getopt server_optspec [] args) o'"

section \<open>Properties\<close>

lemma getopt_letters:
  "(c, a) \<in> set (getopt spec cur rest) \<Longrightarrow> c = CHR ''?'' \<or> spec c \<noteq> None"
proof (induction spec cur rest rule: getopt.induct)
  case (2 spec a rest)
  then show ?case by (cases "a = ''--''"; cases "is_option a") simp_all
next
  case (3 spec d cs rest)
  show ?case
  proof (cases "spec d")
    case None
    with 3 show ?thesis by auto
  next
    case (Some takes)
    with 3 show ?thesis by (cases takes; cases cs; cases rest) auto
  qed
qed simp

text \<open>Parsing succeeds exactly when \<open>getopt\<close> reports no error.\<close>

lemma parse_opts_ok:
  "\<forall>(c, a) \<in> set r. c \<in> {CHR ''c'', CHR ''l'', CHR ''s'', CHR ''n'', CHR ''?''} \<Longrightarrow>
   fst (parse_opts r o') = (if CHR ''?'' \<in> fst ` set r then - 1 else 0)"
  by (induction r o' rule: parse_opts.induct) auto

lemma options_parse_ok:
  "fst (options_parse args o') = (if CHR ''?'' \<in> fst ` set (getopt server_optspec [] args) then - 1 else 0)"
  unfolding options_parse_def
  by (rule parse_opts_ok) (auto dest!: getopt_letters simp: server_optspec_def split: if_splits)

text \<open>The canonical command line of a set of options, and that it parses back.\<close>

definition options_argv :: "options \<Rightarrow> string list" where
  "options_argv o' = [''-c'', op_cfile o', ''-l'', show_nat (ll_num (op_loglevel o'))]
     @ (if op_sync o' then [''-s''] else []) @ [''-n'', show_unsigned (op_max_tics o')]"

lemma log_level_roundtrip: "log_level_from_int (ucast (strtoul_val 0 (show_nat (ll_num l)))) = l"
proof -
  have "ll_num l < 2 ^ 64" by (cases l) simp_all
  then have "strtoul_val 0 (show_nat (ll_num l)) = of_nat (ll_num l)"
    using strtoul_show_nat [of "[]" "ll_num l"] by (simp add: strtoul_val_def)
  then show ?thesis by (cases l) (simp_all add: log_level_from_int_def)
qed

lemma max_tics_roundtrip: "ucast (strtoul_val 0 (show_unsigned (n :: u32))) = n"
  using strtoul_show_unsigned [of "[]" n] by (simp add: strtoul_val_def)

lemma options_roundtrip: "options_parse (options_argv o') new_options = (0, [], o')"
  by (cases o'; cases "op_sync o'")
     (simp_all add: options_parse_def options_argv_def is_option_def server_optspec_def new_options_def
        log_level_roundtrip max_tics_roundtrip)

end
