(* ===== verification/Main_Loop.thy ===== *)
theory Main_Loop
  imports Server Options
begin

text \<open>
  The program of the server (\<open>srv/main.cpp\<close>): options, configuration, roles, initialisation, the
  table of plugins, the wait for the nodes and the loop over the tics.

  Two things come from outside while it runs: signals set \<open>termreq\<close>, and the thread of the
  communication backend calls \<open>on_message\<close>. \<open>termreq i\<close> is the value the \<open>i\<close>-th read of the
  variable sees, \<open>inbox i\<close> the messages handled between that read and the next.
\<close>

section \<open>Roles\<close>

fun add_roles :: "'w pheap \<Rightarrow> (ptr option \<times> u64) list \<Rightarrow> pm \<Rightarrow> exn + pm" where
  "add_roles h [] s = Inr s"
| "add_roles h ((pl, role) # r) s =
     (case add_role h pl role s of Inl e \<Rightarrow> Inl e | Inr (_, s') \<Rightarrow> add_roles h r s')"

definition configured_roles :: "config \<Rightarrow> (ptr option \<times> u64) list" where
  "configured_roles conf =
     [(cf_com_actor conf, PL_COM_ACTOR), (cf_com_notify conf, PL_COM_EXTERN),
      (cf_logger conf, PL_LOGGER), (cf_fault_manager conf, PL_FAULT_MANAGER)]"

definition pm_use_logger :: "logger_ref \<Rightarrow> log_level \<Rightarrow> pm \<Rightarrow> pm" where
  "pm_use_logger lg ll s = s\<lparr>pm_logger_used := lg, pm_set_ll := pm_set_ll s @ [(lg, ll)]\<rparr>"

section \<open>The table of plugins\<close>

text \<open>The loop over the other plugins measures the name of the first one again.\<close>

definition max_name_len :: "'w pheap \<Rightarrow> (u64 \<times> ptr) list \<Rightarrow> nat" where
  "max_name_len h loaded =
     foldl (\<lambda>m i. let nameLen = length (pl_name (h (snd (loaded ! 0)))) in if m < nameLen then nameLen else m)
       (length (pl_name (h (snd (loaded ! 0))))) [1..<length loaded]"

definition pad_right :: "nat \<Rightarrow> string \<Rightarrow> string" where
  "pad_right n t = t @ replicate (n - length t) (CHR '' '')"

definition role_column :: "'w plugin \<Rightarrow> u64 \<Rightarrow> u64 \<Rightarrow> string" where
  "role_column pl role t =
     [CHR '' '', if HAS_PL_TYPE pl t then CHR ''A'' else CHR ''-'', if role AND t \<noteq> 0 then CHR ''U'' else CHR ''-'']"

definition plugin_row :: "'w pheap \<Rightarrow> nat \<Rightarrow> u64 \<times> ptr \<Rightarrow> string" where
  "plugin_row h len = (\<lambda>(role, p). snprintf 511 (pad_right len (pl_name (h p))
     @ concat (map (role_column (h p) role)
         [PL_COM_ACTOR, PL_COM_EXTERN, PL_FAULT_MANAGER, PL_LOGGER, PL_TOPOLOGY, PL_OTHER])))"

definition plugin_table :: "'w pheap \<Rightarrow> pm \<Rightarrow> string list" where
  "plugin_table h s =
     (let loaded = all_plugins s; len = max_name_len h loaded
      in snprintf 511 (pad_right len ''Name'' @ '' CA CE MA LO TO OT'') # map (plugin_row h len) loaded)"

section \<open>The loops\<close>

partial_function (option) wait_ready ::
  "(string \<Rightarrow> backchannel option) \<Rightarrow> (nat \<Rightarrow> string list) \<Rightarrow> (nat \<Rightarrow> bool) \<Rightarrow> nat
   \<Rightarrow> 'w server \<times> 'p world \<Rightarrow> (nat \<times> 'w server \<times> 'p world) option" where
  "wait_ready parse inbox termreq i sw =
     (if termreq i then Some (Suc i, sw)
      else
        let sw1 = on_messages parse (inbox i) sw
        in if all_nodes_ready (fst sw1) then Some (Suc i, sw1)
           else wait_ready parse inbox termreq (Suc i) sw1)"

partial_function (option) tic_loop ::
  "(string \<Rightarrow> backchannel option) \<Rightarrow> (string list \<Rightarrow> string list \<Rightarrow> string) \<Rightarrow> (nat \<Rightarrow> u64)
   \<Rightarrow> (nat \<Rightarrow> string list) \<Rightarrow> (nat \<Rightarrow> bool) \<Rightarrow> u32 \<Rightarrow> nat \<Rightarrow> u64 \<Rightarrow> 'p world server \<times> 'p world
   \<Rightarrow> (u64 \<times> 'p world server \<times> 'p world) option" where
  "tic_loop parse serialize clock inbox termreq max_tics i tic_num sw =
     (if termreq i then Some (tic_num, sw)
      else if max_tics = 0 \<or> tic_num < ucast max_tics then
        (case do_tic serialize clock (on_messages parse (inbox i) sw) of
           None \<Rightarrow> None
         | Some sw' \<Rightarrow>
             tic_loop parse serialize clock inbox termreq max_tics (Suc i)
               (if max_tics = 0 then tic_num else tic_num + 1) sw')
      else Some (tic_num + 1, on_messages parse (inbox i) sw))"

section \<open>The main function\<close>

datatype main_result = Exit int | Uncaught exn | Crash

text \<open>
  The server from \<open>init\<close> on. None says that a loop does not return. When the wait for the nodes is
  ended by a signal, the message and the signal to the nodes are sent all the same.
\<close>

definition serve ::
  "'p world pheap \<Rightarrow> (string \<Rightarrow> backchannel option) \<Rightarrow> (string list \<Rightarrow> string list \<Rightarrow> string) \<Rightarrow> (nat \<Rightarrow> u64)
   \<Rightarrow> (nat \<Rightarrow> string list) \<Rightarrow> (nat \<Rightarrow> bool) \<Rightarrow> options \<Rightarrow> 'p world server \<times> 'p world \<Rightarrow> 'p world option" where
  "serve h parse serialize clock inbox termreq opts = (\<lambda>(s, w).
     let w1 = w_logf LL_Info ''initialization complete'' w;
         w2 = fold (w_logf LL_Info) (plugin_table h (w_pm w1)) w1;
         synced = (if op_sync opts
                   then map_option (\<lambda>(i, s', w').
                          (i, s', send_synced_signal s' (w_logf LL_Info ''all nodes ready'' w')))
                          (wait_ready parse inbox termreq 0 (s, w2))
                   else Some (0, s, w2))
     in case synced of
          None \<Rightarrow> None
        | Some (i, sw) \<Rightarrow>
            map_option (\<lambda>(tic_num, s', w'). pm_cleanup h (w_logf LL_Info ''cleaning up'' w'))
              (tic_loop parse serialize clock inbox termreq (op_max_tics opts) i 0 sw))"

definition main_fun ::
  "'p world pheap \<Rightarrow> 'p loader \<Rightarrow> string \<Rightarrow> (string \<Rightarrow> string option)
   \<Rightarrow> (string \<Rightarrow> backchannel option) \<Rightarrow> (string list \<Rightarrow> string list \<Rightarrow> string) \<Rightarrow> (nat \<Rightarrow> u64)
   \<Rightarrow> (nat \<Rightarrow> string list) \<Rightarrow> (nat \<Rightarrow> bool) \<Rightarrow> string list \<Rightarrow> 'p world \<Rightarrow> (main_result \<times> 'p world) option" where
  "main_fun h dlmopen dlerror files parse serialize clock inbox termreq argv w =
     (let (r, _, opts) = options_parse (tl argv) new_options
      in if r \<noteq> 0 then Some (Exit (- 1), w)
         else if op_cfile opts = [] then
           Some (Exit (- 1), pm_print (''usage: '' @ (case argv of [] \<Rightarrow> ''lauSim'' | a # _ \<Rightarrow> a)
                               @ '' -c <file>'' @ [newline]) w)
         else
           let w1 = w\<lparr>w_pm := pm_use_logger (pm_logger_used (w_pm w)) (op_loglevel opts) (w_pm w)\<rparr>
           in case load_config h dlmopen dlerror files (op_cfile opts) (new_config, w1) of
                Inl e \<Rightarrow> Some (Uncaught e, w1)
              | Inr (r, conf, w2) \<Rightarrow>
                  if r \<noteq> 0 then Some (Exit 1, w_logf LL_Fatal ''error while loading config'' w2)
                  else if (case cf_logger conf of None \<Rightarrow> False | Some p \<Rightarrow> \<not> pl_lf (h p)) then Some (Crash, w2)
                  else
                    let w3 = (case cf_logger conf of
                                None \<Rightarrow> w2
                              | Some p \<Rightarrow> w2\<lparr>w_pm := pm_use_logger (Logger_of p) (op_loglevel opts) (w_pm w2)\<rparr>)
                    in case add_roles h (configured_roles conf) (w_pm w3) of
                         Inl e \<Rightarrow> Some (Uncaught e, w3)
                       | Inr pm' \<Rightarrow>
                           (case server_init h conf (w3\<lparr>w_pm := pm'\<rparr>) of
                              (Srv_failed, w4) \<Rightarrow> Some (Exit 1, w4)
                            | (Srv_crash, w4) \<Rightarrow> Some (Crash, w4)
                            | (Srv_ok s, w4) \<Rightarrow>
                                map_option (Pair (Exit 0))
                                  (serve h parse serialize clock inbox termreq opts (s, w4))))"

section \<open>Roles after the configuration\<close>

lemma and_exp_nonzero: "(x :: 'a :: len word) AND 2 ^ k \<noteq> 0 \<Longrightarrow> x AND 2 ^ k = 2 ^ k"
  by (rule bit_word_eqI) (auto simp: bit_simps and_exp_eq_0_iff_not_bit)

lemma has_type_role:
  "HAS_PL_TYPE pl 1 \<Longrightarrow> pl_type pl AND 1 = 1" "HAS_PL_TYPE pl 2 \<Longrightarrow> pl_type pl AND 2 = 2"
  "HAS_PL_TYPE pl 4 \<Longrightarrow> pl_type pl AND 4 = 4" "HAS_PL_TYPE pl 8 \<Longrightarrow> pl_type pl AND 8 = 8"
  using and_exp_nonzero [of "pl_type pl" 0] and_exp_nonzero [of "pl_type pl" 1]
    and_exp_nonzero [of "pl_type pl" 2] and_exp_nonzero [of "pl_type pl" 3]
  by (simp_all add: HAS_PL_TYPE_def)

definition with_role :: "ptr option \<Rightarrow> u64 \<Rightarrow> pm \<Rightarrow> pm" where
  "with_role po t s = s\<lparr>pm_plugins := map (\<lambda>(q, r). (q, if Some q = po then r OR t else r)) (pm_plugins s)\<rparr>"

lemma registered_with_role [simp]: "registered (with_role po t s) = registered s"
  by (force simp: registered_def with_role_def)

lemma with_role_None: "with_role None t s = s"
  by (cases s) (simp add: with_role_def)

lemma add_role_capable:
  assumes "capable h (registered s) t po" "\<And>pl :: 'w plugin. HAS_PL_TYPE pl t \<Longrightarrow> pl_type pl AND t = t"
  shows "\<exists>r. add_role (h :: 'w pheap) po t s = Inr (r, with_role po t s)"
proof (cases po)
  case (Some p)
  with assms show ?thesis
    by (auto simp: capable_def add_role_def update_role_def registered_def with_role_def
        intro!: exI arg_cong [where f = "\<lambda>f. s\<lparr>pm_plugins := map f (pm_plugins s)\<rparr>"])
qed (simp add: add_role_def with_role_None)

definition roles_granted :: "config \<Rightarrow> pm \<Rightarrow> pm" where
  "roles_granted conf s =
     with_role (cf_fault_manager conf) PL_FAULT_MANAGER (with_role (cf_logger conf) PL_LOGGER
       (with_role (cf_com_notify conf) PL_COM_EXTERN (with_role (cf_com_actor conf) PL_COM_ACTOR s)))"

lemma add_roles_configured:
  assumes "config_inv h conf (registered s)"
  shows "add_roles h (configured_roles conf) s = Inr (roles_granted conf s)"
proof -
  have 1: "\<exists>r. add_role h (cf_com_actor conf) 1 s = Inr (r, with_role (cf_com_actor conf) 1 s)"
    "\<exists>r. add_role h (cf_com_notify conf) 2 s' = Inr (r, with_role (cf_com_notify conf) 2 s')"
    "\<exists>r. add_role h (cf_logger conf) 8 s' = Inr (r, with_role (cf_logger conf) 8 s')"
    "\<exists>r. add_role h (cf_fault_manager conf) 4 s' = Inr (r, with_role (cf_fault_manager conf) 4 s')"
    if "registered s' = registered s" for s'
    using assms that by (auto simp: config_inv_def intro!: add_role_capable intro: has_type_role)
  show ?thesis
    using 1(1) [OF refl] 1(2) [of "with_role (cf_com_actor conf) 1 s"]
      1(3) [of "with_role (cf_com_notify conf) 2 (with_role (cf_com_actor conf) 1 s)"]
      1(4) [of "with_role (cf_logger conf) 8 (with_role (cf_com_notify conf) 2 (with_role (cf_com_actor conf) 1 s))"]
    by (auto simp: configured_roles_def roles_granted_def)
qed

text \<open>The width of the name column is the length of the first name, however long the others are.\<close>

lemma max_name_len_first: "max_name_len h loaded = length (pl_name (h (snd (loaded ! 0))))"
proof -
  have "foldl (\<lambda>m i. if m < n then n else m) n xs = n" for n and xs :: "nat list"
    by (induction xs) simp_all
  then show ?thesis by (simp add: max_name_len_def Let_def)
qed

section \<open>The backchannel leaves the tic alone\<close>

lemma on_message_frame:
  "\<exists>ns fw w'. on_message parse msg (Some s) w = (Some (s\<lparr>sv_nodes := ns, sv_forwarded := fw\<rparr>), w')
     \<and> w_plug w' = w_plug w"
proof -
  have "\<exists>ns fw. s = s\<lparr>sv_nodes := ns, sv_forwarded := fw\<rparr>"
    by (intro exI [of _ "sv_nodes s"] exI [of _ "sv_forwarded s"]) simp
  moreover have "\<exists>ns fw. s\<lparr>sv_nodes := ns'\<rparr> = s\<lparr>sv_nodes := ns, sv_forwarded := fw\<rparr>" for ns'
    by (intro exI [of _ ns'] exI [of _ "sv_forwarded s"]) simp
  moreover have "\<exists>ns fw. s\<lparr>sv_forwarded := fw'\<rparr> = s\<lparr>sv_nodes := ns, sv_forwarded := fw\<rparr>" for fw'
    by (intro exI [of _ "sv_nodes s"] exI [of _ fw']) simp
  ultimately show ?thesis
    by (auto simp: on_message_def set_node_state_def split_beta Let_def split: option.split bc_type.split)
qed

lemma on_messages_frame:
  "\<exists>ns fw w'. on_messages parse msgs (s, w) = (s\<lparr>sv_nodes := ns, sv_forwarded := fw\<rparr>, w') \<and> w_plug w' = w_plug w"
proof (induction msgs arbitrary: s w)
  case Nil
  show ?case by (auto intro!: exI [of _ "sv_nodes s"] exI [of _ "sv_forwarded s"])
next
  case (Cons msg msgs)
  obtain ns fw w1 where 1: "on_message parse msg (Some s) w = (Some (s\<lparr>sv_nodes := ns, sv_forwarded := fw\<rparr>), w1)"
    "w_plug w1 = w_plug w" using on_message_frame by blast
  obtain ns' fw' w2 where "on_messages parse msgs (s\<lparr>sv_nodes := ns, sv_forwarded := fw\<rparr>, w1)
      = (s\<lparr>sv_nodes := ns', sv_forwarded := fw'\<rparr>, w2)" "w_plug w2 = w_plug w1"
    using Cons.IH [of "s\<lparr>sv_nodes := ns, sv_forwarded := fw\<rparr>" w1] by auto
  with 1 show ?case by auto
qed

lemma on_messages_wired:
  assumes "on_messages parse msgs (s, w) = (s', w')"
  shows "wired fm actor notify s' = wired fm actor notify s" "well_timed s' = well_timed s" "w_plug w' = w_plug w"
  using assms on_messages_frame [of parse msgs s w] by (auto simp: wired_def well_timed_def)

section \<open>How often the loop runs\<close>

lemma unat_ucast_max: "unat (ucast (m :: u32) :: u64) = unat m"
proof -
  have "unat m < 2 ^ 64" using unsigned_less [of m, where 'a = nat] by simp
  then show ?thesis by (simp add: unsigned_ucast_eq take_bit_nat_eq_self)
qed

lemma ucast_less_max: "(tn :: u64) < ucast (m :: u32) \<longleftrightarrow> unat tn < unat m"
  by (simp add: word_less_nat_alt unat_ucast_max)

lemma unat_inc_max: "(tn :: u64) < ucast (m :: u32) \<Longrightarrow> unat (tn + 1) = unat tn + 1"
  using unsigned_less [of m, where 'a = nat] by (simp add: ucast_less_max unat_word_ariths)

text \<open>
  The loop performs \<open>n\<close> tics, when \<open>termreq\<close> is unset at the first \<open>n\<close> reads and either set at the
  next one or \<open>n\<close> is the number of tics left of \<open>max_tics\<close>. The messages handled meanwhile make no
  difference to what the backends get.
\<close>

lemma tic_loop_run:
  assumes "wired fm actor notify s" "well_timed s" "fm_run fm n (fst (w_plug w)) = (fss, m)"
    and "\<forall>j<n. \<not> termreq (i + j)"
    and "max_tics = 0 \<or> unat tic_num + n \<le> unat max_tics"
    and "termreq (i + n) \<or> max_tics \<noteq> 0 \<and> unat tic_num + n = unat max_tics"
  shows "\<exists>tn s' w'. tic_loop parse serialize clock inbox termreq max_tics i tic_num (s, w) = Some (tn, s', w')
    \<and> w_plug w' = (m, fold (deliver serialize actor notify) (map (map fault_data) fss) (snd (w_plug w)))"
  using assms
proof (induction n arbitrary: s w fss m i tic_num)
  case 0
  then show ?case
  proof (cases "termreq i")
    case False
    with 0 have max: "max_tics \<noteq> 0" "\<not> tic_num < ucast max_tics" by (simp_all add: ucast_less_max)
    obtain s' w' where msgs: "on_messages parse (inbox i) (s, w) = (s', w')" by fastforce
    from on_messages_wired(3) [OF msgs] False max msgs 0 show ?thesis
      by (simp add: tic_loop.simps prod_eq_iff)
  qed (simp add: tic_loop.simps prod_eq_iff)
next
  case (Suc n)
  let ?deliver = "deliver serialize actor notify"
  obtain s0 w0 where msgs: "on_messages parse (inbox i) (s, w) = (s0, w0)" by fastforce
  have s0: "wired fm actor notify s0" "well_timed s0" "w_plug w0 = w_plug w"
    using on_messages_wired [OF msgs] Suc.prems(1,2) by simp_all
  obtain fs m1 where step: "fm_step fm (fst (w_plug w0)) = (fs, m1)" by fastforce
  obtain fss1 where run: "fm_run fm n m1 = (fss1, m)" and fss: "fss = fs # fss1"
    using Suc.prems(3) step s0(3) by (auto split: prod.splits)
  obtain s1 w1 where tic: "do_tic serialize clock (s0, w0) = Some (s1, w1)" "same_setup s0 s1"
    "w_plug w1 = (m1, ?deliver (map fault_data fs) (snd (w_plug w0)))"
    using do_tic_world [OF s0(1,2) step] by blast
  have s1: "wired fm actor notify s1" "well_timed s1"
    using s0(1,2) tic(2) same_setup_timed [OF tic(2)] by (simp_all add: wired_def same_setup_def)
  let ?tn = "if max_tics = 0 then tic_num else tic_num + 1"
  have go: "\<not> termreq i" "max_tics = 0 \<or> tic_num < ucast max_tics"
    using Suc.prems(4,5) by (auto simp: ucast_less_max dest: spec [of _ 0])
  have tn: "unat ?tn = unat tic_num + 1" if "max_tics \<noteq> 0"
    using that go(2) by (simp add: unat_inc_max)
  have "\<exists>tn s' w'. tic_loop parse serialize clock inbox termreq max_tics (Suc i) ?tn (s1, w1) = Some (tn, s', w')
    \<and> w_plug w' = (m, fold ?deliver (map (map fault_data) fss1) (snd (w_plug w1)))"
  proof (rule Suc.IH [OF s1])
    show "fm_run fm n (fst (w_plug w1)) = (fss1, m)" using run tic(3) by simp
    show "\<forall>j<n. \<not> termreq (Suc i + j)" using Suc.prems(4) by (metis Suc_less_eq add_Suc_shift)
    show "max_tics = 0 \<or> unat ?tn + n \<le> unat max_tics" using Suc.prems(5) tn by auto
    show "termreq (Suc i + n) \<or> max_tics \<noteq> 0 \<and> unat ?tn + n = unat max_tics"
      using Suc.prems(6) tn by auto
  qed
  with go tic msgs fss s0(3) show ?case
    by (subst tic_loop.simps) (auto simp: Let_def)
qed

section \<open>The wait for the nodes\<close>

fun received :: "(nat \<Rightarrow> string list) \<Rightarrow> nat \<Rightarrow> nat \<Rightarrow> string list" where
  "received inbox i 0 = []"
| "received inbox i (Suc n) = inbox i @ received inbox (Suc i) n"

lemma on_messages_append: "on_messages parse (xs @ ys) sw = on_messages parse ys (on_messages parse xs sw)"
proof (induction xs arbitrary: sw)
  case (Cons x xs)
  obtain s w where sw: "sw = (s, w)" by (cases sw)
  obtain s' w' where "on_message parse x (Some s) w = (Some s', w')"
    using on_message_frame by blast
  with Cons sw show ?case by simp
qed simp

text \<open>The wait ends with the first read of a set \<open>termreq\<close> or the first round with all nodes ready.\<close>

lemma wait_ready_returns:
  assumes "\<forall>j<n. \<not> termreq (i + j) \<and> \<not> all_nodes_ready (fst (on_messages parse (received inbox i (Suc j)) sw))"
    and "termreq (i + n) \<or> all_nodes_ready (fst (on_messages parse (received inbox i (Suc n)) sw))"
  shows "wait_ready parse inbox termreq i sw =
    Some (i + n + 1, on_messages parse (received inbox i (if termreq (i + n) then n else Suc n)) sw)"
  using assms
proof (induction n arbitrary: i sw)
  case 0
  then show ?case by (subst wait_ready.simps) (auto simp: Let_def)
next
  case (Suc n)
  let ?sw = "on_messages parse (inbox i) sw"
  have "\<not> termreq i" "\<not> all_nodes_ready (fst ?sw)"
    using Suc.prems(1) by (auto dest: spec [of _ 0])
  moreover have "wait_ready parse inbox termreq (Suc i) ?sw =
    Some (Suc i + n + 1, on_messages parse (received inbox (Suc i) (if termreq (Suc i + n) then n else Suc n)) ?sw)"
  proof (rule Suc.IH)
    show "\<forall>j<n. \<not> termreq (Suc i + j)
        \<and> \<not> all_nodes_ready (fst (on_messages parse (received inbox (Suc i) (Suc j)) ?sw))"
      using Suc.prems(1) by (auto simp: on_messages_append dest: spec [of _ "Suc _"])
    show "termreq (Suc i + n) \<or> all_nodes_ready (fst (on_messages parse (received inbox (Suc i) (Suc n)) ?sw))"
      using Suc.prems(2) by (simp add: on_messages_append)
  qed
  ultimately show ?case
    by (subst wait_ready.simps) (simp add: on_messages_append)
qed

section \<open>The whole program\<close>

text \<open>The worlds in which the configuration is read and in which the server is initialised.\<close>

definition at_config :: "options \<Rightarrow> 'p world \<Rightarrow> 'p world" where
  "at_config opts w = w\<lparr>w_pm := pm_use_logger (pm_logger_used (w_pm w)) (op_loglevel opts) (w_pm w)\<rparr>"

definition with_logger :: "config \<Rightarrow> options \<Rightarrow> 'p world \<Rightarrow> 'p world" where
  "with_logger conf opts w =
     (case cf_logger conf of
        None \<Rightarrow> w
      | Some p \<Rightarrow> w\<lparr>w_pm := pm_use_logger (Logger_of p) (op_loglevel opts) (w_pm w)\<rparr>)"

definition at_init :: "config \<Rightarrow> options \<Rightarrow> 'p world \<Rightarrow> 'p world" where
  "at_init conf opts w = (with_logger conf opts w)\<lparr>w_pm := roles_granted conf (w_pm (with_logger conf opts w))\<rparr>"

lemma pm_plugins_use_logger [simp]: "pm_plugins (pm_use_logger lg ll s) = pm_plugins s"
  by (simp add: pm_use_logger_def)

lemma registered_with_logger: "registered (w_pm (with_logger conf opts w)) = registered (w_pm w)"
  by (simp add: registered_def with_logger_def split: option.split)

lemma pm_inv_at_config: "pm_inv h (w_pm (at_config opts w)) \<longleftrightarrow> pm_inv h (w_pm w)"
  by (rule pm_inv_plugins) (simp add: at_config_def)

text \<open>From a configuration that was read, the program goes on to initialise the server.\<close>

lemma main_fun_configured:
  assumes "options_parse (tl argv) new_options = (0, err, opts)" "op_cfile opts \<noteq> []"
    and "well_behaved h dlmopen" "pm_inv h (w_pm w)"
    and "load_config h dlmopen dlerror files (op_cfile opts) (new_config, at_config opts w) = Inr (0, conf, w2)"
    and "\<forall>p. cf_logger conf = Some p \<longrightarrow> pl_lf (h p)"
  shows "main_fun h dlmopen dlerror files parse serialize clock inbox termreq argv w =
    (case server_init h conf (at_init conf opts w2) of
       (Srv_failed, w4) \<Rightarrow> Some (Exit 1, w4)
     | (Srv_crash, w4) \<Rightarrow> Some (Crash, w4)
     | (Srv_ok s, w4) \<Rightarrow> map_option (Pair (Exit 0)) (serve h parse serialize clock inbox termreq opts (s, w4)))"
proof -
  have "config_inv h conf (registered (w_pm w2))"
    using load_config_inv [OF assms(3) _ assms(5)] assms(4) by (simp add: pm_inv_at_config)
  then have roles: "add_roles h (configured_roles conf) (w_pm (with_logger conf opts w2))
      = Inr (roles_granted conf (w_pm (with_logger conf opts w2)))"
    by (intro add_roles_configured) (simp add: registered_with_logger)
  have no_crash: "\<not> (case cf_logger conf of None \<Rightarrow> False | Some p \<Rightarrow> \<not> pl_lf (h p))"
    using assms(6) by (simp split: option.split)
  show ?thesis
    using assms(1,2,5) no_crash roles
    by (simp add: main_fun_def at_init_def Let_def at_config_def with_logger_def [symmetric])
qed

lemma w_plug_logs: "w_plug (fold (w_logf l) ms w) = w_plug w"
  by (induction ms arbitrary: w) (simp_all add: w_logf_def)

lemma serve_max_tics:
  assumes "wired fm actor notify s" "well_timed s" "\<not> op_sync opts" "op_max_tics opts \<noteq> 0" "\<forall>j. \<not> termreq j"
    and "fm_run fm (unat (op_max_tics opts)) (fst (w_plug w)) = (fss, m)"
  shows "\<exists>w'. serve h parse serialize clock inbox termreq opts (s, w) = Some (pm_cleanup h w')
    \<and> w_plug w' = (m, fold (deliver serialize actor notify) (map (map fault_data) fss) (snd (w_plug w)))"
proof -
  let ?w1 = "w_logf LL_Info ''initialization complete'' w"
  let ?w2 = "fold (w_logf LL_Info) (plugin_table h (w_pm ?w1)) ?w1"
  have plug: "w_plug ?w2 = w_plug w" by (simp add: w_plug_logs)
  obtain tn s' w' where "tic_loop parse serialize clock inbox termreq (op_max_tics opts) 0 0 (s, ?w2) = Some (tn, s', w')"
    "w_plug w' = (m, fold (deliver serialize actor notify) (map (map fault_data) fss) (snd (w_plug w)))"
    using tic_loop_run [OF assms(1,2), of "unat (op_max_tics opts)" ?w2 fss m termreq 0 "op_max_tics opts" 0
        parse serialize clock inbox] assms(4-6) plug by auto
  with assms(3) show ?thesis
    by (auto simp: serve_def Let_def w_logf_def intro!: exI [of _ "w_logf LL_Info ''cleaning up'' w'"])
qed

text \<open>
  When every registered plugin has a complete table, no run of the program ends in a call of a null
  pointer.
\<close>

lemma main_fun_no_null_call:
  assumes wb: "well_behaved h dlmopen" and inv: "pm_inv h (w_pm w)"
    and tables: "\<forall>p. complete_table (h p)"
    and nodes: "\<forall>p fm w. pl_fm (h p) = Some fm \<longrightarrow> fst (fm_get_nodes fm w) \<noteq> Nodes_crash"
  shows "main_fun h dlmopen dlerror files parse serialize clock inbox termreq argv w \<noteq> Some (Crash, w')"
proof -
  obtain r err opts where opts: "options_parse (tl argv) new_options = (r, err, opts)" by (rule prod_cases3)
  show ?thesis
  proof (cases "r = 0 \<and> op_cfile opts \<noteq> []")
    case False
    with opts show ?thesis by (auto simp: main_fun_def)
  next
    case True
    let ?load = "load_config h dlmopen dlerror files (op_cfile opts) (new_config, at_config opts w)"
    show ?thesis
    proof (cases "\<exists>conf w2. ?load = Inr (0, conf, w2)")
      case False
      with True opts show ?thesis
        by (auto simp: main_fun_def Let_def at_config_def split: sum.splits)
    next
      case loaded: True
      then obtain conf w2 where load: "?load = Inr (0, conf, w2)" by blast
      have conf: "config_inv h conf (registered (w_pm w2))"
        using load_config_inv [OF wb _ load] inv by (simp add: pm_inv_at_config)
      then have lf: "\<forall>p. cf_logger conf = Some p \<longrightarrow> pl_lf (h p)"
        using tables by (auto simp: config_inv_def capable_def complete_table_def)
      have "fst (server_init h conf (at_init conf opts w2)) \<noteq> Srv_crash"
        using server_init_complete [OF conf] tables nodes by blast
      with main_fun_configured [OF _ _ wb inv load lf] opts True show ?thesis
        by (auto split: srv_init.splits prod.splits)
    qed
  qed
qed

end
