(* ===== verification/Shipped_Plugins.thy ===== *)
theory Shipped_Plugins
  imports Random_Faults Mosquitto Plugin_Hooks Main_Loop
begin

text \<open>
  The function tables of the plugins that come with the server (the \<open>plugin\<close> structures in
  \<open>plugins/*/*.h\<close>), with their hooks, and a loader for the random and the echo plugin. The state of
  the fault manager is the first part of the plugins' state, that of the communication plugin the
  second. The hooks that only fetch the logger again leave the world unchanged.
\<close>

section \<open>Clean-up\<close>

text \<open>
  What the clean-up functions release is gone: the faults and nodes of the managers. Closing the
  file keeps its text.
\<close>

definition random_cleanup :: "'g random \<Rightarrow> int \<times> 'g random" where
  "random_cleanup s = (0, s\<lparr>rnd_faults := [], rnd_nodes := []\<rparr>)"

definition replay_cleanup :: "replay \<Rightarrow> int \<times> replay" where
  "replay_cleanup s = (0, s\<lparr>rp_faults := [], rp_nodes := []\<rparr>)"

definition transcribe_cleanup :: "'n transcribe \<Rightarrow> int \<times> 'n transcribe" where
  "transcribe_cleanup s = (0, s)"

section \<open>Function tables\<close>

definition random_plugin :: "'g alloc \<Rightarrow> 'g draw \<Rightarrow> ('g random \<times> 'c) world plugin" where
  "random_plugin alloc rand =
     \<lparr>pl_version = 1, pl_type = PL_FAULT_MANAGER, pl_name = ''random'', pl_post_init = None,
      pl_cleanup = Some (on_manager random_cleanup), pl_c = None,
      pl_fm = Some (world_manager (random_fm alloc rand)), pl_lf = False\<rparr>"

definition replay_plugin :: "replay_env \<Rightarrow> (replay \<times> 'c) world plugin" where
  "replay_plugin env =
     \<lparr>pl_version = 1, pl_type = PL_FAULT_MANAGER, pl_name = ''replay'', pl_post_init = Some (Pair 0),
      pl_cleanup = Some (on_manager replay_cleanup), pl_c = None,
      pl_fm = Some (world_manager (replay_fm env)), pl_lf = False\<rparr>"

text \<open>The recorder's \<open>post\<close> hook, \<open>transcribe_post\<close>, looks at the table of plugins; it is an argument here.\<close>

definition trans_plugin ::
  "(('n transcribe \<times> 'c) world \<Rightarrow> int \<times> ('n transcribe \<times> 'c) world) \<Rightarrow> 'n fault_manager
   \<Rightarrow> ('n transcribe \<times> 'c) world plugin" where
  "trans_plugin post nested =
     \<lparr>pl_version = 1, pl_type = PL_FAULT_MANAGER OR PL_OTHER, pl_name = ''transcribe'', pl_post_init = Some post,
      pl_cleanup = Some (on_manager transcribe_cleanup), pl_c = None,
      pl_fm = Some (world_manager (transcribe_fm nested)), pl_lf = False\<rparr>"

definition filelogger_plugin :: "'w plugin" where
  "filelogger_plugin =
     \<lparr>pl_version = 1, pl_type = PL_LOGGER, pl_name = ''filelogger'', pl_post_init = Some (Pair 0),
      pl_cleanup = Some (Pair 0), pl_c = None, pl_fm = None, pl_lf = True\<rparr>"

definition echo_plugin :: "('m \<times> echo) world plugin" where
  "echo_plugin =
     \<lparr>pl_version = 1, pl_type = PL_COM_ACTOR OR PL_COM_EXTERN, pl_name = ''echo'', pl_post_init = Some (Pair 0),
      pl_cleanup = None, pl_c = Some (world_com echo_com), pl_fm = None, pl_lf = False\<rparr>"

definition mosquitto_plugin :: "mosq_ret \<Rightarrow> (int \<Rightarrow> string) \<Rightarrow> ('m \<times> mosq) world plugin" where
  "mosquitto_plugin ret strerror =
     \<lparr>pl_version = 2, pl_type = PL_COM_ACTOR OR PL_COM_EXTERN, pl_name = ''mosquitto'',
      pl_post_init = Some (on_com (mosq_post_init ret)), pl_cleanup = Some (on_com (mosq_cleanup ret)),
      pl_c = Some (world_com (mosq_com ret strerror)), pl_fm = None, pl_lf = False\<rparr>"

text \<open>All of them have a function for every capability they announce.\<close>

lemma shipped_tables_complete [intro, simp]:
  "complete_table (random_plugin alloc rand)" "complete_table (replay_plugin env)"
  "complete_table (trans_plugin post nested)" "complete_table filelogger_plugin"
  "complete_table echo_plugin" "complete_table (mosquitto_plugin ret strerror)"
  by (simp_all add: complete_table_def HAS_PL_TYPE_def random_plugin_def replay_plugin_def trans_plugin_def
      filelogger_plugin_def echo_plugin_def mosquitto_plugin_def world_com_def echo_com_def mosq_com_def)

text \<open>The mosquitto object is destroyed twice: by the destructor's explicit call and behind it.\<close>

lemma mosq_cleanup_destroys_twice:
  "mq_calls (snd (mosq_cleanup ret s)) = mq_calls s @ (if mq_is_init s then [Disconnect, Loop_stop] else [])
     @ [Destroy, Destroy] @ (if mq_init_state s then [Lib_cleanup] else [])"
  by (simp add: mosq_cleanup_def delete_ComMosquitto_def cleanup_mosquitto_def mq_call_def mq_logf_def Let_def)

section \<open>Random and echo\<close>

text \<open>The random plugin at address 1, the echo plugin everywhere else.\<close>

definition re_heap :: "'g alloc \<Rightarrow> 'g draw \<Rightarrow> ('g random \<times> echo) world pheap" where
  "re_heap alloc rand p = (if p = 1 then random_plugin alloc rand else echo_plugin)"

definition re_loader :: "'g alloc \<Rightarrow> 'g draw \<Rightarrow> ('g random \<times> echo) loader" where
  "re_loader alloc rand name =
     (if name = ''librandom.so'' then
        Some (\<lambda>sym. if sym = ''init'' then
                Some (\<lambda>argv w.
                  let (r, s, reg) = random_init alloc PL_INTF_VERSION argv (fst (w_plug w));
                      pm' = (if reg then snd (register_plugin (re_heap alloc rand) 1 (w_pm w)) else w_pm w)
                  in (r, w\<lparr>w_pm := pm', w_plug := (s, snd (w_plug w))\<rparr>)) else None)
      else if name = ''libecho.so'' then
        Some (\<lambda>sym. if sym = ''init'' then
                Some (\<lambda>argv w.
                  let (r, e, reg) = echo_init PL_INTF_VERSION argv (snd (w_plug w));
                      pm' = (if reg then snd (register_plugin (re_heap alloc rand) 2 (w_pm w)) else w_pm w)
                  in (r, w\<lparr>w_pm := pm', w_plug := (fst (w_plug w), e)\<rparr>)) else None)
      else None)"

lemma re_loader_well_behaved: "well_behaved (re_heap alloc rand) (re_loader alloc rand)"
  unfolding well_behaved_def re_loader_def
  using register_plugin_keeps register_plugin_mono
  by (auto simp: split_beta Let_def split: if_splits) blast+

lemma re_heap_complete: "complete_table (re_heap alloc rand p)"
  by (simp add: re_heap_def)

lemma re_heap_nodes: "pl_fm (re_heap alloc rand p) = Some fm \<Longrightarrow> fst (fm_get_nodes fm w) \<noteq> Nodes_crash"
  by (auto simp: re_heap_def random_plugin_def echo_plugin_def world_manager_def on_manager_def random_get_nodes_def
      split_beta Let_def split: if_splits)

end
