(* ===== verification/Interleaving.thy ===== *)
theory Interleaving
  imports Main_Loop
begin

text \<open>
  The synchronisation at the start (\<open>srv/main.cpp\<close>) with its three threads of control: the main
  thread reads the node states one by one in \<open>all_nodes_ready\<close>, the thread of the backend writes
  them in \<open>on_message\<close>, and a signal handler sets \<open>termreq\<close>. A step is one access to the shared
  variables, so a message may change a node between two reads of the same check.
\<close>

section \<open>States and steps\<close>

datatype main_pc =
    Loop_head
  | Checking nat
  | Sleeping
  | Signalling nat
  | Tics

text \<open>\<open>sy_handled\<close> lists the messages handled so far, \<open>sy_sent\<close> the names passed to \<open>notify_fail\<close>.\<close>

record sync_state =
  sy_pc :: main_pc
  sy_nodes :: "node list"
  sy_termreq :: bool
  sy_handled :: "string list"
  sy_sent :: "string list"

definition sync_start :: "node list \<Rightarrow> sync_state" where
  "sync_start ns = \<lparr>sy_pc = Loop_head, sy_nodes = ns, sy_termreq = False, sy_handled = [], sy_sent = []\<rparr>"

text \<open>One step of the main thread; it is never blocked before the tics begin.\<close>

definition main_step :: "sync_state \<Rightarrow> sync_state" where
  "main_step s =
     (case sy_pc s of
        Loop_head \<Rightarrow> s\<lparr>sy_pc := if sy_termreq s then Signalling 0 else Checking 0\<rparr>
      | Checking i \<Rightarrow>
          if i < length (sy_nodes s) then
            s\<lparr>sy_pc := if node_state (sy_nodes s ! i) = NODE_STATE_READY then Checking (Suc i) else Sleeping\<rparr>
          else s\<lparr>sy_pc := Signalling 0\<rparr>
      | Sleeping \<Rightarrow> s\<lparr>sy_pc := Loop_head\<rparr>
      | Signalling i \<Rightarrow>
          if i < length (sy_nodes s) then
            s\<lparr>sy_pc := Signalling (Suc i), sy_sent := sy_sent s @ [node_name (sy_nodes s ! i)]\<rparr>
          else s\<lparr>sy_pc := Tics\<rparr>
      | Tics \<Rightarrow> s)"

definition message_step :: "(string \<Rightarrow> backchannel option) \<Rightarrow> string \<Rightarrow> sync_state \<Rightarrow> sync_state" where
  "message_step parse msg s =
     s\<lparr>sy_nodes := (case parse msg of
          Some back \<Rightarrow>
            (case (bc_msgtype back, bc_newstatus back) of
               (BC_STATUS, Some st) \<Rightarrow>
                 snd (set_state_in (c_str (bc_nodename back)) (snd (status_state st)) (sy_nodes s))
             | _ \<Rightarrow> sy_nodes s)
        | None \<Rightarrow> sy_nodes s),
       sy_handled := sy_handled s @ [msg]\<rparr>"

definition signal_step :: "sync_state \<Rightarrow> sync_state" where
  "signal_step s = s\<lparr>sy_termreq := True\<rparr>"

inductive sync_step :: "(string \<Rightarrow> backchannel option) \<Rightarrow> sync_state \<Rightarrow> sync_state \<Rightarrow> bool"
  for parse :: "string \<Rightarrow> backchannel option" where
  main: "sync_step parse s (main_step s)"
| message: "sync_step parse s (message_step parse msg s)"
| signal: "sync_step parse s (signal_step s)"

inductive_cases sync_stepE: "sync_step parse s s'"

inductive sync_reachable :: "(string \<Rightarrow> backchannel option) \<Rightarrow> node list \<Rightarrow> sync_state \<Rightarrow> bool"
  for parse :: "string \<Rightarrow> backchannel option" and ns :: "node list" where
  start: "sync_reachable parse ns (sync_start ns)"
| step: "sync_reachable parse ns s \<Longrightarrow> sync_step parse s s' \<Longrightarrow> sync_reachable parse ns s'"

section \<open>The message step is the callback\<close>

lemma message_step_nodes:
  assumes "distinct (map node_name (sy_nodes s))"
  shows "sy_nodes (message_step parse msg s) = map (report parse msg) (sy_nodes s)"
proof -
  have same: "map (report parse msg) (sy_nodes s) = sy_nodes s" if "\<And>n. report parse msg n = n"
    using that by (simp add: map_idI)
  show ?thesis
  proof (cases "parse msg")
    case None
    then show ?thesis using same by (simp add: message_step_def report_def reported_def)
  next
    case (Some bk)
    then show ?thesis
      using same assms
      by (cases "bc_msgtype bk"; cases "bc_newstatus bk")
         (auto simp: message_step_def report_def reported_def set_state_in_map)
  qed
qed

text \<open>It has the effect of \<open>on_message\<close> on the server's nodes.\<close>

lemma message_step_on_message:
  assumes "distinct (map node_name (sv_nodes s))" "sy_nodes t = sv_nodes s"
    and "on_message parse msg (Some s) w = (Some s', w')"
  shows "sy_nodes (message_step parse msg t) = sv_nodes s'"
  using on_message_nodes [OF assms(1), of parse msg w] message_step_nodes [of t] assms by auto

section \<open>Invariant\<close>

text \<open>A node was ready at some time: at the start or after one of the messages handled.\<close>

definition was_ready :: "(string \<Rightarrow> backchannel option) \<Rightarrow> string list \<Rightarrow> node \<Rightarrow> bool" where
  "was_ready parse msgs n \<longleftrightarrow>
     (\<exists>k \<le> length msgs. fold (reported parse (node_name n)) (take k msgs) (node_state n) = NODE_STATE_READY)"

lemma was_ready_append: "was_ready parse msgs n \<Longrightarrow> was_ready parse (msgs @ [m]) n"
  by (auto simp: was_ready_def intro: le_SucI)

lemma was_ready_now:
  "fold (reported parse (node_name n)) msgs (node_state n) = NODE_STATE_READY \<Longrightarrow> was_ready parse msgs n"
  by (auto simp: was_ready_def intro!: exI [of _ "length msgs"])

definition checked :: "main_pc \<Rightarrow> nat \<Rightarrow> nat" where
  "checked pc n = (case pc of Checking i \<Rightarrow> i | Signalling _ \<Rightarrow> n | Tics \<Rightarrow> n | _ \<Rightarrow> 0)"

definition signalled :: "main_pc \<Rightarrow> nat \<Rightarrow> nat" where
  "signalled pc n = (case pc of Signalling i \<Rightarrow> i | Tics \<Rightarrow> n | _ \<Rightarrow> 0)"

definition sync_inv :: "(string \<Rightarrow> backchannel option) \<Rightarrow> node list \<Rightarrow> sync_state \<Rightarrow> bool" where
  "sync_inv parse ns s \<longleftrightarrow>
     sy_nodes s = map (\<lambda>n. n\<lparr>node_state := fold (reported parse (node_name n)) (sy_handled s) (node_state n)\<rparr>) ns
     \<and> sy_sent s = map node_name (take (signalled (sy_pc s) (length ns)) ns)
     \<and> (\<forall>i < checked (sy_pc s) (length ns).
          i < length ns \<longrightarrow> sy_termreq s \<and> (\<forall>j. sy_pc s \<noteq> Checking j) \<or> was_ready parse (sy_handled s) (ns ! i))"

lemma sync_inv_start: "sync_inv parse ns (sync_start ns)"
  by (simp add: sync_inv_def sync_start_def checked_def signalled_def map_idI)

lemma sync_inv_main: "sync_inv parse ns s \<Longrightarrow> sync_inv parse ns (main_step s)"
proof (cases "sy_pc s")
  case (Checking i)
  assume inv: "sync_inv parse ns s"
  show ?thesis
  proof (cases "i < length ns \<and> node_state (sy_nodes s ! i) = NODE_STATE_READY")
    case True
    then have "was_ready parse (sy_handled s) (ns ! i)"
      using inv by (intro was_ready_now) (auto simp: sync_inv_def)
    with inv True Checking show ?thesis
      by (auto simp: sync_inv_def main_step_def checked_def signalled_def less_Suc_eq)
  qed (use inv Checking in \<open>auto simp: sync_inv_def main_step_def checked_def signalled_def\<close>)
next
  case (Signalling i)
  assume "sync_inv parse ns s"
  with Signalling show ?thesis
    by (cases "i < length ns") (auto simp: sync_inv_def main_step_def checked_def signalled_def take_Suc_conv_app_nth)
qed (auto simp: sync_inv_def main_step_def checked_def signalled_def)

lemma sync_inv_message:
  assumes "distinct (map node_name ns)" "sync_inv parse ns s"
  shows "sync_inv parse ns (message_step parse msg s)"
proof -
  have "map node_name (sy_nodes s) = map node_name ns"
    using assms(2) by (simp add: sync_inv_def)
  then have "sy_nodes (message_step parse msg s) = map (report parse msg) (sy_nodes s)"
    using assms(1) by (intro message_step_nodes) simp
  moreover have "sy_pc (message_step parse msg s) = sy_pc s" "sy_sent (message_step parse msg s) = sy_sent s"
    "sy_termreq (message_step parse msg s) = sy_termreq s"
    "sy_handled (message_step parse msg s) = sy_handled s @ [msg]"
    by (simp_all add: message_step_def)
  ultimately show ?thesis
    using assms(2) was_ready_append [of parse "sy_handled s" _ msg]
    by (auto simp: sync_inv_def report_def)
qed

lemma sync_inv_signal: "sync_inv parse ns s \<Longrightarrow> sync_inv parse ns (signal_step s)"
  by (auto simp: sync_inv_def signal_step_def)

lemma sync_reachable_inv:
  assumes "distinct (map node_name ns)"
  shows "sync_reachable parse ns s \<Longrightarrow> sync_inv parse ns s"
proof (induction rule: sync_reachable.induct)
  case (step s s')
  from step.hyps(2) step.IH show ?case
    by (cases rule: sync_step.cases)
       (auto intro: sync_inv_main sync_inv_message [OF assms] sync_inv_signal)
qed (rule sync_inv_start)

section \<open>Progress\<close>

text \<open>
  When all nodes are ready or \<open>termreq\<close> is set and nothing else happens, the main thread reaches
  the tics: it needs two steps to the check and two passes over the nodes.
\<close>

lemma main_step_keeps [simp]: "sy_nodes (main_step s) = sy_nodes s" "sy_termreq (main_step s) = sy_termreq s"
  by (simp_all add: main_step_def split: main_pc.split)

lemma funpow_shift: "P ((f ^^ k) (f s)) \<Longrightarrow> \<exists>k. P ((f ^^ k) s)"
  by (metis funpow_swap1 funpow.simps(2) comp_apply)

lemma signalling_progress: "sy_pc s = Signalling i \<Longrightarrow> \<exists>k. sy_pc ((main_step ^^ k) s) = Tics"
proof (induction "length (sy_nodes s) - i" arbitrary: s i)
  case 0
  then have "sy_pc ((main_step ^^ 1) s) = Tics" by (simp add: main_step_def)
  then show ?case by blast
next
  case (Suc n)
  then have "sy_pc (main_step s) = Signalling (Suc i)" by (simp add: main_step_def)
  moreover have "n = length (sy_nodes (main_step s)) - Suc i" using Suc.hyps(2) by simp
  ultimately obtain k where "sy_pc ((main_step ^^ k) (main_step s)) = Tics"
    using Suc.hyps(1) by blast
  then show ?case by (rule funpow_shift)
qed

lemma checking_progress:
  "list_all (\<lambda>n. node_state n = NODE_STATE_READY) (sy_nodes s) \<Longrightarrow> sy_pc s = Checking i \<Longrightarrow>
   \<exists>k. sy_pc ((main_step ^^ k) s) = Tics"
proof (induction "length (sy_nodes s) - i" arbitrary: s i)
  case 0
  then have "sy_pc (main_step s) = Signalling 0" by (simp add: main_step_def)
  then show ?case using signalling_progress funpow_shift [of "\<lambda>s. sy_pc s = Tics"] by blast
next
  case (Suc n)
  then have "i < length (sy_nodes s)" by simp
  with Suc.prems have "sy_pc (main_step s) = Checking (Suc i)"
    by (simp add: main_step_def list_all_length)
  moreover have "n = length (sy_nodes (main_step s)) - Suc i" using Suc.hyps(2) by simp
  moreover have "list_all (\<lambda>n. node_state n = NODE_STATE_READY) (sy_nodes (main_step s))"
    using Suc.prems(1) by simp
  ultimately obtain k where "sy_pc ((main_step ^^ k) (main_step s)) = Tics"
    using Suc.hyps(1) by blast
  then show ?case by (rule funpow_shift)
qed

lemma loop_head_progress:
  assumes "list_all (\<lambda>n. node_state n = NODE_STATE_READY) (sy_nodes s) \<or> sy_termreq s" "sy_pc s = Loop_head"
  shows "\<exists>k. sy_pc ((main_step ^^ k) s) = Tics"
proof -
  have "\<exists>k. sy_pc ((main_step ^^ k) (main_step s)) = Tics"
  proof (cases "sy_termreq s")
    case True
    with assms show ?thesis by (intro signalling_progress [of _ 0]) (simp add: main_step_def)
  next
    case False
    with assms show ?thesis by (intro checking_progress [of _ 0]) (simp_all add: main_step_def)
  qed
  then show ?thesis using funpow_shift [of "\<lambda>s. sy_pc s = Tics"] by blast
qed

end
