(* ===== verification/Client_Mqtt.thy ===== *)
theory Client_Mqtt
  imports Mosquitto
begin

text \<open>
  The MQTT side of the client (\<open>client/src/mqtt.c\<close>). As for the server's plugin the mosquitto
  library is a parameter: \<open>ret\<close> gives the results of the calls, \<open>loop i\<close> the result of the \<open>i\<close>-th
  call of \<open>mosquitto_loop\<close> with the messages it hands to \<open>on_message\<close>. The library passes payloads
  that end in a NUL.

  \<open>on_message\<close> reallocates the array of faults to as many bytes as it is to hold faults, and then
  writes the new element. \<open>usable n\<close> is the size of the block the allocator gives for a request of
  \<open>n\<close> bytes; a write behind that block is the error \<open>Overflow\<close>.
\<close>

section \<open>State\<close>

record client_fault =
  flt_component :: "string option"
  flt_severity :: u32

record mqtt =
  mt_con :: bool
  mt_back_topic :: string
  mt_faults :: "client_fault list"
  mt_saved :: "client_fault list"
  mt_rcv :: bool
  mt_calls :: "mosq_call list"
  mt_out :: string

definition mqtt_load :: mqtt where
  "mqtt_load = \<lparr>mt_con = False, mt_back_topic = [], mt_faults = [], mt_saved = [], mt_rcv = False,
                mt_calls = [], mt_out = []\<rparr>"

definition sizeof_fault :: nat where "sizeof_fault = 16"

definition mt_call :: "mosq_ret \<Rightarrow> mosq_call \<Rightarrow> mqtt \<Rightarrow> int \<times> mqtt" where
  "mt_call ret c s = (ret (mt_calls s) c, s\<lparr>mt_calls := mt_calls s @ [c]\<rparr>)"

definition mt_print :: "string \<Rightarrow> mqtt \<Rightarrow> mqtt" where
  "mt_print t s = s\<lparr>mt_out := mt_out s @ t\<rparr>"

section \<open>Operations\<close>

definition subscription :: "string \<Rightarrow> string" where
  "subscription name = snprintf 511 (''envelope/'' @ name @ ''/#'')"

text \<open>\<open>mosq_new\<close> says whether \<open>mosquitto_new\<close> returns a handle.\<close>

definition mqtt_init :: "mosq_ret \<Rightarrow> bool \<Rightarrow> string \<Rightarrow> string \<Rightarrow> int \<Rightarrow> mqtt \<Rightarrow> int \<times> mqtt" where
  "mqtt_init ret mosq_new name host port s =
     (let (_, s1) = mt_call ret Lib_init s
      in if \<not> mosq_new then (1, s1\<lparr>mt_con := False\<rparr>)
         else
           let back = ''envelope/master/'' @ name;
               s2 = mt_print (back @ [newline]) (s1\<lparr>mt_con := True, mt_back_topic := back\<rparr>);
               (e, s3) = mt_call ret (Will_set LAST_WILL_TOPIC name) s2
           in if e \<noteq> 0 then (- 1, s3)
              else
                let (e, s4) = mt_call ret (Connect host port 60) s3
                in if e \<noteq> 0 then (- 1, s4)
                   else
                     let top_name = subscription name;
                         (e, s5) = mt_call ret (Subscribe top_name 1)
                                     (mt_print (''subscribing to: '' @ top_name @ [newline]) s4)
                     in if e \<noteq> 0 then (- 1, s5) else (0, s5))"

text \<open>
  The callbacks for the connection and the subscription only print: \<open>connack st\<close> is the text the
  library has for a status, \<open>token\<close> the message id that \<open>subscribe\<close> returned.
\<close>

definition on_connect :: "(int \<Rightarrow> string) \<Rightarrow> int \<Rightarrow> mqtt \<Rightarrow> mqtt" where
  "on_connect connack st = mt_print (''Connection: '' @ connack st @ [newline])"

fun qos_text :: "int list \<Rightarrow> string" where
  "qos_text [] = []"
| "qos_text [q] = show_int q"
| "qos_text (q # qs) = show_int q @ '', '' @ qos_text qs"

definition on_subscribe :: "int \<Rightarrow> int \<Rightarrow> int list \<Rightarrow> mqtt \<Rightarrow> mqtt" where
  "on_subscribe token mid qos s =
     (if mid = token then mt_print (''subscribed! ['' @ qos_text qos @ '']'' @ [newline]) s else s)"

definition send_back :: "mosq_ret \<Rightarrow> string \<Rightarrow> mqtt \<Rightarrow> int \<times> mqtt" where
  "send_back ret buf s =
     (if \<not> mt_con s then (- 1, s)
      else let (e, s1) = mt_call ret (Publish (mt_back_topic s) buf) s in (if e \<noteq> 0 then - 1 else 0, s1))"

text \<open>The third token of a topic \<open>envelope/name/component\<close>.\<close>

definition topic_component :: "string \<Rightarrow> string option" where
  "topic_component topic =
     (case strtok ''/'' topic of
        None \<Rightarrow> None
      | Some (_, r1) \<Rightarrow>
          (case strtok ''/'' r1 of
             None \<Rightarrow> None
           | Some (_, r2) \<Rightarrow> map_option fst (strtok ''/'' r2)))"

definition decode_fault :: "string \<times> string \<Rightarrow> client_fault" where
  "decode_fault = (\<lambda>(topic, payload).
     \<lparr>flt_component = topic_component topic, flt_severity = ucast (strtoul_val 0 (c_str payload))\<rparr>)"

definition mqtt_on_message :: "(nat \<Rightarrow> nat) \<Rightarrow> string \<times> string \<Rightarrow> mqtt \<Rightarrow> mqtt option" where
  "mqtt_on_message usable msg s =
     (let s1 = (mt_print (''new message!'' @ [newline]) s)\<lparr>mt_rcv := True\<rparr>;
          fault_num = Suc (length (mt_faults s1))
      in if usable fault_num < sizeof_fault * fault_num then None
         else Some (s1\<lparr>mt_faults := mt_faults s1 @ [decode_fault msg]\<rparr>))"

fun mqtt_messages :: "(nat \<Rightarrow> nat) \<Rightarrow> (string \<times> string) list \<Rightarrow> mqtt \<Rightarrow> mqtt option" where
  "mqtt_messages usable [] s = Some s"
| "mqtt_messages usable (m # ms) s =
     (case mqtt_on_message usable m s of None \<Rightarrow> None | Some s' \<Rightarrow> mqtt_messages usable ms s')"

datatype received_result = Received mqtt | Loop_failed mqtt | Recv_overflow

partial_function (option) receive ::
  "(nat \<Rightarrow> nat) \<Rightarrow> (int \<Rightarrow> string) \<Rightarrow> (nat \<Rightarrow> int \<times> (string \<times> string) list) \<Rightarrow> nat \<Rightarrow> mqtt
   \<Rightarrow> (nat \<times> received_result) option" where
  "receive usable strerror loop i s =
     (case mqtt_messages usable (snd (loop i)) (s\<lparr>mt_rcv := False\<rparr>) of
        None \<Rightarrow> Some (Suc i, Recv_overflow)
      | Some s1 \<Rightarrow>
          if fst (loop i) \<noteq> 0
          then Some (Suc i, Loop_failed
                 (mt_print (''loop failed for reason: '' @ strerror (fst (loop i)) @ [newline]) s1))
          else if mt_rcv s1 then receive usable strerror loop (Suc i) s1
          else Some (Suc i, Received s1))"

datatype faults_result = Faults "client_fault list" mqtt | Overflow

definition get_faults ::
  "(nat \<Rightarrow> nat) \<Rightarrow> (int \<Rightarrow> string) \<Rightarrow> (nat \<Rightarrow> int \<times> (string \<times> string) list) \<Rightarrow> nat \<Rightarrow> mqtt
   \<Rightarrow> (nat \<times> faults_result) option" where
  "get_faults usable strerror loop i s =
     (if \<not> mt_con s then Some (i, Faults [] s)
      else case receive usable strerror loop i s of
             None \<Rightarrow> None
           | Some (j, Recv_overflow) \<Rightarrow> Some (j, Overflow)
           | Some (j, Loop_failed s1) \<Rightarrow> Some (j, Faults [] s1)
           | Some (j, Received s1) \<Rightarrow>
               Some (j, Faults (mt_faults s1) (s1\<lparr>mt_saved := mt_faults s1, mt_faults := []\<rparr>)))"

definition mqtt_cleanup :: "mosq_ret \<Rightarrow> mqtt \<Rightarrow> mqtt" where
  "mqtt_cleanup ret s =
     (let s1 = (if mt_con s then snd (mt_call ret Destroy (snd (mt_call ret Disconnect s))) else s)
      in (snd (mt_call ret Lib_cleanup s1))\<lparr>mt_back_topic := []\<rparr>)"

section \<open>The wire format\<close>

text \<open>
  Names that survive the way through a topic: not empty and without a slash. The client gets back
  the component and the severity the server sent.
\<close>

definition topic_safe :: "string \<Rightarrow> bool" where
  "topic_safe t \<longleftrightarrow> t \<noteq> [] \<and> CHR ''/'' \<notin> set t \<and> NUL \<notin> set t"

lemma strtok_slash:
  "topic_safe t \<Longrightarrow> strtok ''/'' (t @ CHR ''/'' # r) = Some (t, r)" "topic_safe t \<Longrightarrow> strtok ''/'' t = Some (t, [])"
  by (cases t; simp add: topic_safe_def strtok_def Let_def takeWhile_append_stop dropWhile_append_stop
      list_all_iff takeWhile_all dropWhile_all; metis)+

lemma topic_component_mosq:
  assumes "topic_safe n" "\<forall>p. c = Some p \<longrightarrow> topic_safe p"
  shows "topic_component (mosq_topic n c) = c"
proof -
  have env: "strtok ''/'' (''envelope/'' @ r) = Some (''envelope'', r)" for r
    using strtok_slash(1) [of "''envelope''" r] by (simp add: topic_safe_def)
  have name: "strtok ''/'' (n @ ''/'' @ r) = Some (n, r)" for r
    using strtok_slash(1) [OF assms(1)] by simp
  show ?thesis
    using assms strtok_slash(2) [of n] strtok_slash(2) [of "the c"] env name
    by (cases c) (auto simp: topic_component_def mosq_topic_def simp del: append_Cons)
qed

lemma NUL_show_hex: "NUL \<notin> set (show_hex w)"
  using show_hex_digits [of w] by (auto simp: list_all_iff is_digit_def digit_val_def)

lemma mosq_payload_severity: "ucast (strtoul_val 0 (c_str (mosq_payload sev))) = sev"
  using strtoul_show_hex [of "[]" sev] by (simp add: mosq_payload_def strtoul_val_def NUL_show_hex)

lemma decode_mosq_message:
  "topic_safe n \<Longrightarrow> \<forall>p. c = Some p \<longrightarrow> topic_safe p \<Longrightarrow>
   decode_fault (mosq_message (n, c, sev)) = \<lparr>flt_component = c, flt_severity = sev\<rparr>"
  by (simp add: decode_fault_def mosq_message_def topic_component_mosq mosq_payload_severity)

section \<open>Receiving\<close>

text \<open>
  The array of \<open>n\<close> faults fits its block for all numbers up to \<open>n\<close>. The C standard only gives
  \<open>usable n \<ge> n\<close>, under which not even one fault fits.
\<close>

definition array_fits :: "(nat \<Rightarrow> nat) \<Rightarrow> nat \<Rightarrow> bool" where
  "array_fits usable n \<longleftrightarrow> (\<forall>k \<le> n. sizeof_fault * k \<le> usable k)"

lemma mqtt_messages_fits:
  "array_fits usable (length (mt_faults s) + length ms) \<Longrightarrow>
   \<exists>out. mqtt_messages usable ms s =
     Some (s\<lparr>mt_faults := mt_faults s @ map decode_fault ms, mt_rcv := mt_rcv s \<or> ms \<noteq> [], mt_out := out\<rparr>)"
proof (induction ms arbitrary: s)
  case Nil
  show ?case by (intro exI [of _ "mt_out s"]) simp
next
  case (Cons m ms)
  let ?s1 = "(mt_print (''new message!'' @ [newline]) s)\<lparr>mt_rcv := True, mt_faults := mt_faults s @ [decode_fault m]\<rparr>"
  have "\<not> usable (Suc (length (mt_faults s))) < sizeof_fault * Suc (length (mt_faults s))"
    using Cons.prems unfolding array_fits_def not_less
    by (elim allE [of _ "Suc (length (mt_faults s))"]) simp
  then have "mqtt_on_message usable m s = Some ?s1"
    by (simp add: mqtt_on_message_def mt_print_def Let_def)
  moreover obtain out where "mqtt_messages usable ms ?s1 =
      Some (?s1\<lparr>mt_faults := mt_faults ?s1 @ map decode_fault ms, mt_rcv := True, mt_out := out\<rparr>)"
    using Cons.IH [of ?s1] Cons.prems by auto
  ultimately show ?case by (auto simp: mt_print_def)
qed

fun arrived :: "(nat \<Rightarrow> int \<times> (string \<times> string) list) \<Rightarrow> nat \<Rightarrow> nat \<Rightarrow> (string \<times> string) list" where
  "arrived loop i 0 = []"
| "arrived loop i (Suc n) = snd (loop i) @ arrived loop (Suc i) n"

text \<open>The loop goes on until a call brings nothing, and it keeps all that came before.\<close>

lemma receive_all:
  assumes "\<forall>j<n. fst (loop (i + j)) = 0 \<and> snd (loop (i + j)) \<noteq> []" "loop (i + n) = (0, [])"
    and "array_fits usable (length (mt_faults s) + length (arrived loop i n))"
  shows "\<exists>out. receive usable strerror loop i s = Some (i + n + 1, Received
     (s\<lparr>mt_faults := mt_faults s @ map decode_fault (arrived loop i n), mt_rcv := False, mt_out := out\<rparr>))"
  using assms
proof (induction n arbitrary: i s)
  case 0
  then show ?case
    by (subst receive.simps) (auto intro!: exI [of _ "mt_out s"])
next
  case (Suc n)
  let ?ms = "snd (loop i)"
  have first: "fst (loop i) = 0" "?ms \<noteq> []" using Suc.prems(1) by (auto dest: spec [of _ 0])
  have "array_fits usable (length (mt_faults (s\<lparr>mt_rcv := False\<rparr>)) + length ?ms)"
    using Suc.prems(3) by (auto simp: array_fits_def)
  then obtain o1 where ms: "mqtt_messages usable ?ms (s\<lparr>mt_rcv := False\<rparr>) =
      Some (s\<lparr>mt_faults := mt_faults s @ map decode_fault ?ms, mt_rcv := True, mt_out := o1\<rparr>)"
    using mqtt_messages_fits [of usable "s\<lparr>mt_rcv := False\<rparr>" ?ms] first(2) by auto
  let ?s1 = "s\<lparr>mt_faults := mt_faults s @ map decode_fault ?ms, mt_rcv := True, mt_out := o1\<rparr>"
  have "\<exists>out. receive usable strerror loop (Suc i) ?s1 = Some (Suc i + n + 1, Received
     (?s1\<lparr>mt_faults := mt_faults ?s1 @ map decode_fault (arrived loop (Suc i) n), mt_rcv := False, mt_out := out\<rparr>))"
  proof (rule Suc.IH)
    show "\<forall>j<n. fst (loop (Suc i + j)) = 0 \<and> snd (loop (Suc i + j)) \<noteq> []"
      using Suc.prems(1) by (metis Suc_less_eq add_Suc_shift)
  qed (use Suc.prems in \<open>simp_all add: add.assoc\<close>)
  with first ms show ?case
    by (subst receive.simps) auto
qed

lemma get_faults_all:
  assumes "mt_con s" "mt_faults s = []"
    and "\<forall>j<n. fst (loop (i + j)) = 0 \<and> snd (loop (i + j)) \<noteq> []" "loop (i + n) = (0, [])"
    and "array_fits usable (length (arrived loop i n))"
  shows "\<exists>s'. get_faults usable strerror loop i s =
      Some (i + n + 1, Faults (map decode_fault (arrived loop i n)) s') \<and> mt_con s' \<and> mt_faults s' = []"
  using receive_all [OF assms(3,4), of usable s strerror] assms by (auto simp: get_faults_def)

end
