(* ===== verification/Client.thy ===== *)
theory Client
  imports Client_Mqtt
begin

text \<open>
  The client on a node (\<open>client/src/client.c\<close>): it reports the node as ready, waits for the
  message that starts the application and then writes one line into the fifo of the backend for
  every fault. \<open>pack\<close> stands for the generated protobuf code.
\<close>

section \<open>The program\<close>

record client =
  cl_mqtt :: mqtt
  cl_synced :: bool
  cl_fifo :: string
  cl_out :: string

definition pad_left :: "nat \<Rightarrow> string \<Rightarrow> string" where
  "pad_left n t = replicate (n - length t) (CHR '' '') @ t"

definition fault_command :: "client_fault \<Rightarrow> string" where
  "fault_command f =
     (case flt_component f of None \<Rightarrow> ''power'' | Some c \<Rightarrow> c) @ '' '' @ show_signed (flt_severity f) @ [newline]"

definition client_fault_step :: "client_fault \<Rightarrow> client \<Rightarrow> client" where
  "client_fault_step f s =
     (if \<not> cl_synced s then s\<lparr>cl_synced := True, cl_fifo := cl_fifo s @ [newline]\<rparr>
      else s\<lparr>cl_out := cl_out s @ (case flt_component f of None \<Rightarrow> ''(null)'' | Some c \<Rightarrow> c) @ '' failed (''
               @ pad_left 3 (show_signed (flt_severity f)) @ '')'' @ [newline],
             cl_fifo := cl_fifo s @ fault_command f\<rparr>)"

text \<open>\<open>req_stop k\<close> is what the \<open>k\<close>-th read of the variable sees.\<close>

datatype client_result = Client_exit int client | Client_overflow

partial_function (option) client_loop ::
  "(nat \<Rightarrow> nat) \<Rightarrow> (int \<Rightarrow> string) \<Rightarrow> (nat \<Rightarrow> int \<times> (string \<times> string) list) \<Rightarrow> (nat \<Rightarrow> bool)
   \<Rightarrow> nat \<Rightarrow> nat \<Rightarrow> client \<Rightarrow> client_result option" where
  "client_loop usable strerror loop req_stop k i s =
     (if req_stop k then Some (Client_exit 0 (s\<lparr>cl_fifo := cl_fifo s @ ''exit'' @ [newline]\<rparr>))
      else case get_faults usable strerror loop i (cl_mqtt s) of
             None \<Rightarrow> None
           | Some (j, Overflow) \<Rightarrow> Some Client_overflow
           | Some (j, Faults fs m) \<Rightarrow>
               client_loop usable strerror loop req_stop (Suc k) j (fold client_fault_step fs (s\<lparr>cl_mqtt := m\<rparr>)))"

definition ready_message :: "string \<Rightarrow> backchannel" where
  "ready_message name =
     \<lparr>bc_nodename = name, bc_msgtype = BC_STATUS, bc_logerrmsg = None, bc_newstatus = Some STREADY\<rparr>"

definition client_main ::
  "mosq_ret \<Rightarrow> bool \<Rightarrow> (backchannel \<Rightarrow> string) \<Rightarrow> (nat \<Rightarrow> nat) \<Rightarrow> (int \<Rightarrow> string)
   \<Rightarrow> (nat \<Rightarrow> int \<times> (string \<times> string) list) \<Rightarrow> (nat \<Rightarrow> bool) \<Rightarrow> bool \<Rightarrow> string list \<Rightarrow> client_result option" where
  "client_main ret mosq_new pack usable strerror loop req_stop fifo_ok argv =
     (let s = \<lparr>cl_mqtt = mqtt_load, cl_synced = False, cl_fifo = [], cl_out = []\<rparr>
      in if \<not> fifo_ok then Some (Client_exit 1 s)
         else case argv of
           a0 # name # host # port # _ \<Rightarrow>
             let (r, m) = mqtt_init ret mosq_new name host (uint (ucast (strtoul_val 0 port) :: 16 word)) (cl_mqtt s)
             in if r \<noteq> 0
                then Some (Client_exit (- 2)
                       (s\<lparr>cl_mqtt := m, cl_out := cl_out s @ ''mqtt init failed'' @ [newline]\<rparr>))
                else
                  let (_, m1) = send_back ret (pack (ready_message name)) m
                  in (case client_loop usable strerror loop req_stop 0 0 (s\<lparr>cl_mqtt := m1\<rparr>) of
                        None \<Rightarrow> None
                      | Some Client_overflow \<Rightarrow> Some Client_overflow
                      | Some (Client_exit c s') \<Rightarrow>
                          Some (Client_exit c (s'\<lparr>cl_mqtt := mqtt_cleanup ret (cl_mqtt s')\<rparr>)))
         | _ \<Rightarrow> Some (Client_exit (- 1)
                  (s\<lparr>cl_out := cl_out s @ ''usage: '' @ (case argv of [] \<Rightarrow> ''com_mqtt'' | a # _ \<Rightarrow> a)
                               @ '' name host port'' @ [newline]\<rparr>)))"

section \<open>What the fifo gets\<close>

text \<open>The first fault is the start signal, an empty line; every later one is a command.\<close>

definition fifo_text :: "bool \<Rightarrow> client_fault list \<Rightarrow> string" where
  "fifo_text synced fs =
     (if synced then concat (map fault_command fs)
      else case fs of [] \<Rightarrow> [] | _ # fs' \<Rightarrow> newline # concat (map fault_command fs'))"

lemma client_faults_fifo_synced:
  "cl_synced s \<Longrightarrow> cl_synced (fold client_fault_step fs s)
     \<and> cl_fifo (fold client_fault_step fs s) = cl_fifo s @ concat (map fault_command fs)
     \<and> cl_mqtt (fold client_fault_step fs s) = cl_mqtt s"
  by (induction fs arbitrary: s) (simp_all add: client_fault_step_def)

lemma client_faults_fifo:
  "cl_synced (fold client_fault_step fs s) = (cl_synced s \<or> fs \<noteq> [])
   \<and> cl_fifo (fold client_fault_step fs s) = cl_fifo s @ fifo_text (cl_synced s) fs
   \<and> cl_mqtt (fold client_fault_step fs s) = cl_mqtt s"
proof (cases "cl_synced s")
  case True
  then show ?thesis using client_faults_fifo_synced [of s fs] by (simp add: fifo_text_def)
next
  case False
  then show ?thesis
    using client_faults_fifo_synced [of "s\<lparr>cl_synced := True, cl_fifo := cl_fifo s @ [newline]\<rparr>"]
    by (cases fs) (simp_all add: client_fault_step_def fifo_text_def)
qed

lemma fifo_text_append:
  "fifo_text synced (fs @ gs) = fifo_text synced fs @ fifo_text (synced \<or> fs \<noteq> []) gs"
  by (cases fs) (auto simp: fifo_text_def)

text \<open>
  The rounds of the loop: \<open>batches\<close> are the messages the calls of \<open>get_faults\<close> collect. The
  grouping into rounds makes no difference to the text in the fifo.
\<close>

fun runs_batches :: "(nat \<Rightarrow> int \<times> (string \<times> string) list) \<Rightarrow> (nat \<Rightarrow> nat) \<Rightarrow> nat \<Rightarrow> (string \<times> string) list list \<Rightarrow> bool" where
  "runs_batches loop usable i [] = True"
| "runs_batches loop usable i (b # bs) =
     (\<exists>n. (\<forall>j<n. fst (loop (i + j)) = 0 \<and> snd (loop (i + j)) \<noteq> []) \<and> loop (i + n) = (0, [])
        \<and> arrived loop i n = b \<and> array_fits usable (length b) \<and> runs_batches loop usable (i + n + 1) bs)"

lemma client_loop_fifo:
  assumes "runs_batches loop usable i batches" "mt_con (cl_mqtt s)" "mt_faults (cl_mqtt s) = []"
    and "\<forall>j < length batches. \<not> req_stop (k + j)" "req_stop (k + length batches)"
  shows "\<exists>s'. client_loop usable strerror loop req_stop k i s = Some (Client_exit 0 s')
    \<and> cl_fifo s' = cl_fifo s @ fifo_text (cl_synced s) (map decode_fault (concat batches)) @ ''exit'' @ [newline]"
  using assms
proof (induction batches arbitrary: i k s)
  case Nil
  then show ?case by (subst client_loop.simps) (simp add: fifo_text_def)
next
  case (Cons b bs)
  obtain n where n: "\<forall>j<n. fst (loop (i + j)) = 0 \<and> snd (loop (i + j)) \<noteq> []" "loop (i + n) = (0, [])"
    "arrived loop i n = b" "array_fits usable (length b)" "runs_batches loop usable (i + n + 1) bs"
    using Cons.prems(1) by auto
  obtain m where m: "get_faults usable strerror loop i (cl_mqtt s) = Some (i + n + 1, Faults (map decode_fault b) m)"
    "mt_con m" "mt_faults m = []"
    using get_faults_all [OF Cons.prems(2,3) n(1,2)] n(3,4) by auto
  let ?s1 = "fold client_fault_step (map decode_fault b) (s\<lparr>cl_mqtt := m\<rparr>)"
  have s1: "cl_synced ?s1 = (cl_synced s \<or> b \<noteq> [])" "cl_mqtt ?s1 = m"
    "cl_fifo ?s1 = cl_fifo s @ fifo_text (cl_synced s) (map decode_fault b)"
    using client_faults_fifo [of "map decode_fault b" "s\<lparr>cl_mqtt := m\<rparr>"] by simp_all
  have "\<not> req_stop k" using Cons.prems(4) by (auto dest: spec [of _ 0])
  moreover have "\<exists>s'. client_loop usable strerror loop req_stop (Suc k) (i + n + 1) ?s1 = Some (Client_exit 0 s')
    \<and> cl_fifo s' = cl_fifo ?s1 @ fifo_text (cl_synced ?s1) (map decode_fault (concat bs)) @ ''exit'' @ [newline]"
  proof (rule Cons.IH [OF n(5)])
    show "\<forall>j < length bs. \<not> req_stop (Suc k + j)" using Cons.prems(4)
      by (metis Suc_less_eq add_Suc_shift length_Cons)
  qed (use s1(2) m Cons.prems(5) in \<open>simp_all add: add.assoc\<close>)
  ultimately show ?case
    using m(1) s1 fifo_text_append [of "cl_synced s" "map decode_fault b"]
    by (subst client_loop.simps) (auto simp: Let_def)
qed

section \<open>The whole program\<close>

text \<open>Receiving faults makes no call that the broker sees, whatever the library returns.\<close>

definition same_session :: "mqtt \<Rightarrow> mqtt \<Rightarrow> bool" where
  "same_session m m' \<longleftrightarrow> mt_calls m' = mt_calls m \<and> mt_con m' = mt_con m"

lemma same_session_refl: "same_session m m"
  by (simp add: same_session_def)

lemma same_session_trans: "same_session m1 m2 \<Longrightarrow> same_session m2 m3 \<Longrightarrow> same_session m1 m3"
  by (simp add: same_session_def)

lemma same_session_update [simp]:
  "same_session m (mt_print t m') = same_session m m'" "same_session m (m'\<lparr>mt_rcv := b\<rparr>) = same_session m m'"
  "same_session m (m'\<lparr>mt_faults := fs\<rparr>) = same_session m m'" "same_session m (m'\<lparr>mt_saved := fs\<rparr>) = same_session m m'"
  by (simp_all add: same_session_def mt_print_def)

lemma mqtt_messages_calls: "mqtt_messages usable ms s = Some s' \<Longrightarrow> same_session s s'"
proof (induction ms arbitrary: s)
  case (Cons m ms)
  then obtain s1 where s1: "mqtt_on_message usable m s = Some s1" "mqtt_messages usable ms s1 = Some s'"
    by (auto split: option.splits)
  then have "same_session s s1"
    by (auto simp: mqtt_on_message_def Let_def same_session_refl split: if_splits)
  with Cons.IH [OF s1(2)] show ?case by (blast intro: same_session_trans)
qed (simp add: same_session_refl)

fun received_mqtt :: "received_result \<Rightarrow> mqtt option" where
  "received_mqtt (Received s) = Some s"
| "received_mqtt (Loop_failed s) = Some s"
| "received_mqtt Recv_overflow = None"

lemma receive_calls:
  assumes "receive usable strerror loop i s = Some jr"
  shows "pred_option (same_session s) (received_mqtt (snd jr))"
  using assms
proof (rule receive.raw_induct [rotated])
  fix rec usable strerror loop i s jr
  assume IH: "\<And>usable strerror loop i s jr. rec usable strerror loop i s = Some jr \<Longrightarrow>
      pred_option (same_session s) (received_mqtt (snd jr))"
    and body: "(case mqtt_messages usable (snd (loop i)) (s\<lparr>mt_rcv := False\<rparr>) of
        None \<Rightarrow> Some (Suc i, Recv_overflow)
      | Some s1 \<Rightarrow>
          if fst (loop i) \<noteq> 0
          then Some (Suc i, Loop_failed
                 (mt_print (''loop failed for reason: '' @ strerror (fst (loop i)) @ [newline]) s1))
          else if mt_rcv s1 then rec usable strerror loop (Suc i) s1
          else Some (Suc i, Received s1)) = Some jr"
  show "pred_option (same_session s) (received_mqtt (snd jr))"
  proof (cases "mqtt_messages usable (snd (loop i)) (s\<lparr>mt_rcv := False\<rparr>)")
    case (Some s1)
    have s1: "same_session s s1"
      using mqtt_messages_calls [OF Some] by (simp add: same_session_def)
    have "rec usable strerror loop (Suc i) s1 = Some jr \<Longrightarrow> pred_option (same_session s) (received_mqtt (snd jr))"
      by (erule option.pred_mono_strong [OF IH]) (rule same_session_trans [OF s1])
    with body Some s1 show ?thesis by (auto split: if_splits)
  qed (use body in auto)
qed

lemma get_faults_calls:
  assumes "get_faults usable strerror loop i s = Some (j, Faults fs s')"
  shows "same_session s s'"
proof (cases "mt_con s")
  case True
  with assms obtain rr where rr: "receive usable strerror loop i s = Some (j, rr)"
    "case rr of Received s1 \<Rightarrow> s' = s1\<lparr>mt_saved := mt_faults s1, mt_faults := []\<rparr> | Loop_failed s1 \<Rightarrow> s' = s1 | Recv_overflow \<Rightarrow> False"
    by (auto simp: get_faults_def split: option.splits received_result.splits)
  then show ?thesis using receive_calls [OF rr(1)] by (cases rr) auto
qed (use assms in \<open>auto simp: get_faults_def same_session_refl\<close>)

fun result_client :: "client_result \<Rightarrow> client option" where
  "result_client (Client_exit c s) = Some s"
| "result_client Client_overflow = None"

lemma client_loop_calls:
  assumes "client_loop usable strerror loop req_stop k i s = Some r"
  shows "pred_option (\<lambda>s'. same_session (cl_mqtt s) (cl_mqtt s')) (result_client r)"
  using assms
proof (rule client_loop.raw_induct [rotated])
  fix rec usable strerror loop req_stop k i s r
  assume IH: "\<And>usable strerror loop req_stop k i s r. rec usable strerror loop req_stop k i s = Some r \<Longrightarrow>
      pred_option (\<lambda>s'. same_session (cl_mqtt s) (cl_mqtt s')) (result_client r)"
    and body: "(if req_stop k then Some (Client_exit 0 (s\<lparr>cl_fifo := cl_fifo s @ ''exit'' @ [newline]\<rparr>))
      else case get_faults usable strerror loop i (cl_mqtt s) of
             None \<Rightarrow> None
           | Some (j, Faults fs m) \<Rightarrow>
               rec usable strerror loop req_stop (Suc k) j (fold client_fault_step fs (s\<lparr>cl_mqtt := m\<rparr>))
           | Some (j, Overflow) \<Rightarrow> Some Client_overflow) = Some r"
  show "pred_option (\<lambda>s'. same_session (cl_mqtt s) (cl_mqtt s')) (result_client r)"
  proof (cases "req_stop k")
    case True
    with body show ?thesis by (auto simp: same_session_refl)
  next
    case False
    with body obtain j fr where fr: "get_faults usable strerror loop i (cl_mqtt s) = Some (j, fr)"
      by (auto split: option.splits)
    show ?thesis
    proof (cases fr)
      case (Faults fs m)
      let ?s1 = "fold client_fault_step fs (s\<lparr>cl_mqtt := m\<rparr>)"
      have rec: "rec usable strerror loop req_stop (Suc k) j ?s1 = Some r"
        using body False fr Faults by simp
      have s1: "same_session (cl_mqtt s) (cl_mqtt ?s1)"
        using get_faults_calls [OF fr [unfolded Faults]] client_faults_fifo [of fs "s\<lparr>cl_mqtt := m\<rparr>"] by simp
      show ?thesis
        by (rule option.pred_mono_strong [OF IH [OF rec]]) (rule same_session_trans [OF s1])
    qed (use body False fr in auto)
  qed
qed

text \<open>
  With a library whose calls succeed the program subscribes, reports its node as ready, serves the
  faults until it is stopped, and takes the connection down.
\<close>

definition client_session :: "string \<Rightarrow> string \<Rightarrow> int \<Rightarrow> string \<Rightarrow> mosq_call list" where
  "client_session name host port ready =
     [Lib_init, Will_set LAST_WILL_TOPIC name, Connect host port 60, Subscribe (subscription name) 1,
      Publish (''envelope/master/'' @ name) ready, Disconnect, Destroy, Lib_cleanup]"

lemma client_main_run:
  assumes "\<forall>cs c. ret cs c = 0" "runs_batches loop usable 0 batches"
    and "\<forall>j < length batches. \<not> req_stop j" "req_stop (length batches)"
  shows "\<exists>cl. client_main ret True pack usable strerror loop req_stop True [prog, name, host, show_unsigned (port :: 16 word)]
      = Some (Client_exit 0 cl)
    \<and> mt_calls (cl_mqtt cl) = client_session name host (uint port) (pack (ready_message name))
    \<and> cl_fifo cl = fifo_text False (map decode_fault (concat batches)) @ ''exit'' @ [newline]"
proof -
  let ?s = "\<lparr>cl_mqtt = mqtt_load, cl_synced = False, cl_fifo = [], cl_out = []\<rparr>"
  have "strtoul_val 0 (show_unsigned port) = ucast port"
    using strtoul_show_unsigned [of "[]" port] by (simp add: strtoul_val_def)
  then have port: "uint (ucast (strtoul_val 0 (show_unsigned port)) :: 16 word) = uint port"
    by (simp add: unsigned_ucast_eq take_bit_word_eq_self)
  obtain m where m: "mqtt_init ret True name host (uint port) mqtt_load = (0, m)" "mt_con m" "mt_faults m = []"
    "mt_back_topic m = ''envelope/master/'' @ name" "mt_calls m = take 4 (client_session name host (uint port) (pack (ready_message name)))"
    using assms(1) by (simp add: mqtt_init_def mt_call_def mt_print_def mqtt_load_def client_session_def Let_def)
  let ?m1 = "m\<lparr>mt_calls := take 5 (client_session name host (uint port) (pack (ready_message name)))\<rparr>"
  have sent: "send_back ret (pack (ready_message name)) m = (0, ?m1)"
    using assms(1) m by (simp add: send_back_def mt_call_def client_session_def)
  obtain cl where cl: "client_loop usable strerror loop req_stop 0 0 (?s\<lparr>cl_mqtt := ?m1\<rparr>) = Some (Client_exit 0 cl)"
    "cl_fifo cl = fifo_text False (map decode_fault (concat batches)) @ ''exit'' @ [newline]"
    using client_loop_fifo [OF assms(2), of "?s\<lparr>cl_mqtt := ?m1\<rparr>" req_stop 0 strerror] assms(3,4) m(2,3) by auto
  have "mt_calls (cl_mqtt cl) = mt_calls ?m1" "mt_con (cl_mqtt cl)"
    using client_loop_calls [OF cl(1)] m(2) by (simp_all add: same_session_def)
  then have "mt_calls (mqtt_cleanup ret (cl_mqtt cl)) = client_session name host (uint port) (pack (ready_message name))"
    by (simp add: mqtt_cleanup_def mt_call_def client_session_def)
  then show ?thesis
    using m(1) sent cl by (simp add: client_main_def port)
qed

end
