(* ===== verification/Backend.thy ===== *)
theory Backend
  imports Client
begin

text \<open>
  The part of the backend that does not depend on the method of injection
  (\<open>client/src/backend.c\<close>): the fifo and the loop over its commands. The method is the interface of
  \<open>client/include/backend_if.h\<close>: a record of functions over its own state. Text on standard error
  is not modelled.
\<close>

section \<open>The fifo\<close>

text \<open>
  \<open>bk_fifo\<close> is None before the fifo is open, and then the text that has not been read. \<open>mkfifo\<close>
  and \<open>fopen\<close> are given by their results.
\<close>

record fifo_state =
  bk_fifo :: "string option"
  bk_created :: bool
  bk_unlinked :: bool

definition fifo_load :: fifo_state where
  "fifo_load = \<lparr>bk_fifo = None, bk_created = True, bk_unlinked = False\<rparr>"

definition get_fifo :: "bool \<Rightarrow> string option \<Rightarrow> fifo_state \<Rightarrow> fifo_state" where
  "get_fifo mkfifo_ok fopen s =
     (if bk_fifo s \<noteq> None then s
      else
        let s1 = (if mkfifo_ok then s else s\<lparr>bk_created := False\<rparr>)
        in case fopen of
             None \<Rightarrow> s1\<lparr>bk_unlinked := True\<rparr>
           | Some t \<Rightarrow> s1\<lparr>bk_fifo := Some t\<rparr>)"

definition fifo_cleanup :: "fifo_state \<Rightarrow> fifo_state" where
  "fifo_cleanup s =
     (if bk_created s \<and> bk_fifo s \<noteq> None then s\<lparr>bk_fifo := None, bk_unlinked := True\<rparr> else s)"

text \<open>
  \<open>lauSim_init\<close> up to the call of \<open>lauSim_backend_init\<close>: it waits for one character, the empty line
  of the client. None is the call of \<open>fgetc\<close> with a null pointer.
\<close>

definition backend_init :: "bool \<Rightarrow> string option \<Rightarrow> fifo_state \<Rightarrow> fifo_state option" where
  "backend_init mkfifo_ok fopen s =
     (let s1 = get_fifo mkfifo_ok fopen s
      in if bk_created s1 then map_option (\<lambda>t. s1\<lparr>bk_fifo := Some (tl t)\<rparr>) (bk_fifo s1) else Some s1)"

section \<open>The interface to the method\<close>

abbreviation (input) SUBSYS_NET :: u32 where "SUBSYS_NET \<equiv> 1"
abbreviation (input) SUBSYS_MEM :: u32 where "SUBSYS_MEM \<equiv> 2"
abbreviation (input) SUBSYS_PWR :: u32 where "SUBSYS_PWR \<equiv> 4"

text \<open>
  \<open>set_state\<close> returns, ends the process by \<open>_exit\<close>, or does something C leaves undefined. In front
  of \<open>_exit\<close> it may clean up the fifo (\<open>mth_exit_fifo\<close>).
\<close>

datatype 's set_result = Returned int 's | Exited 's | Undefined

record 's injector =
  mth_set_state :: "u32 \<Rightarrow> u64 \<Rightarrow> 's \<Rightarrow> 's set_result"
  mth_cleanup :: "'s \<Rightarrow> 's"
  mth_exit_fifo :: "fifo_state \<Rightarrow> fifo_state"

section \<open>The loop over the commands\<close>

definition cmd_delim :: string where "cmd_delim = '' '' @ [newline]"

text \<open>
  The variable \<open>cmd\<close> keeps its value when the word is none of the three known ones; before the
  first known command it is not initialised (\<open>junk\<close>).
\<close>

definition command_id :: "string \<Rightarrow> u64 \<Rightarrow> u64" where
  "command_id w cmd =
     (let c1 = (if w = ''net'' then 1 else cmd);
          c2 = (if w = ''power'' then 4 else c1)
      in if w = ''memory'' then 2 else c2)"

datatype 's line_result = Go_on u64 's | Leave | Line_exited 's | Line_undefined

definition backend_line :: "'s injector \<Rightarrow> string \<Rightarrow> u64 \<Rightarrow> 's \<Rightarrow> 's line_result" where
  "backend_line mth line cmd s =
     (case strtok cmd_delim (c_str line) of
        None \<Rightarrow> Go_on cmd s
      | Some (cmd_str, rest) \<Rightarrow>
          if cmd_str = ''exit'' then Leave
          else case strtok cmd_delim rest of
                 None \<Rightarrow> Go_on cmd s
               | Some (opt_str, _) \<Rightarrow>
                   let cmd' = command_id cmd_str cmd
                   in case mth_set_state mth (ucast cmd') (strtoul_val 0 opt_str) s of
                        Returned _ s' \<Rightarrow> Go_on cmd' s'
                      | Exited s' \<Rightarrow> Line_exited s'
                      | Undefined \<Rightarrow> Line_undefined)"

datatype 's backend_result = Main_returned int 's | Main_exited 's | Main_undefined

text \<open>
  \<open>sel i\<close> says which descriptors the \<open>i\<close>-th \<open>select\<close> reports: the one that asks to stop and the
  fifo. At the end of the text \<open>getline\<close> fails and the loop goes on.
\<close>

partial_function (option) backend_loop ::
  "'s injector \<Rightarrow> (nat \<Rightarrow> bool \<times> bool) \<Rightarrow> nat \<Rightarrow> u64 \<Rightarrow> string \<Rightarrow> 's \<Rightarrow> 's backend_result option" where
  "backend_loop mth sel i cmd fifo s =
     (if fst (sel i) then Some (Main_returned 0 (mth_cleanup mth s))
      else if \<not> snd (sel i) then backend_loop mth sel (Suc i) cmd fifo s
      else case getline fifo of
             None \<Rightarrow> backend_loop mth sel (Suc i) cmd fifo s
           | Some (line, rest) \<Rightarrow>
               (case backend_line mth line cmd s of
                  Go_on cmd' s' \<Rightarrow> backend_loop mth sel (Suc i) cmd' rest s'
                | Leave \<Rightarrow> Some (Main_returned 0 (mth_cleanup mth s))
                | Line_exited s' \<Rightarrow> Some (Main_exited s')
                | Line_undefined \<Rightarrow> Some Main_undefined))"

text \<open>\<open>fileno(fifo)\<close> comes before the test for NULL: without an open fifo the behaviour is undefined.\<close>

definition lauSim_main ::
  "'s injector \<Rightarrow> u64 \<Rightarrow> (nat \<Rightarrow> bool \<times> bool) \<Rightarrow> fifo_state \<Rightarrow> 's \<Rightarrow> ('s backend_result \<times> fifo_state) option" where
  "lauSim_main mth junk sel f s =
     (case bk_fifo f of
        None \<Rightarrow> Some (Main_undefined, f)
      | Some t \<Rightarrow>
          (case backend_loop mth sel 0 junk t s of
             None \<Rightarrow> None
           | Some (Main_returned r s') \<Rightarrow> Some (Main_returned r s', fifo_cleanup f)
           | Some (Main_exited s') \<Rightarrow> Some (Main_exited s', mth_exit_fifo mth f)
           | Some Main_undefined \<Rightarrow> Some (Main_undefined, f)))"

section \<open>Commands of the client\<close>

definition subsystem :: "client_fault \<Rightarrow> u32 option" where
  "subsystem f =
     (case flt_component f of
        None \<Rightarrow> Some SUBSYS_PWR
      | Some c \<Rightarrow> if c = ''net'' then Some SUBSYS_NET else if c = ''power'' then Some SUBSYS_PWR
                 else if c = ''memory'' then Some SUBSYS_MEM else None)"

text \<open>The calls of \<open>set_state\<close> one after the other, up to one that does not return.\<close>

fun run_calls :: "'s injector \<Rightarrow> (u32 \<times> u64) list \<Rightarrow> 's \<Rightarrow> 's backend_result" where
  "run_calls mth [] s = Main_returned 0 (mth_cleanup mth s)"
| "run_calls mth ((sys, sev) # r) s =
     (case mth_set_state mth sys sev s of
        Returned _ s' \<Rightarrow> run_calls mth r s'
      | Exited s' \<Rightarrow> Main_exited s'
      | Undefined \<Rightarrow> Main_undefined)"

definition fault_call :: "client_fault \<Rightarrow> u32 \<times> u64" where
  "fault_call f = (the (subsystem f), scast (flt_severity f))"

lemma strtok_command:
  "w \<in> {''power'', ''net'', ''memory''} \<Longrightarrow> strtok cmd_delim (w @ CHR '' '' # r) = Some (w, r)"
  by (auto simp: strtok_def cmd_delim_def)

lemma show_signed_cmd: "list_all (\<lambda>c. c \<notin> set cmd_delim) (show_signed w)" "NUL \<notin> set (show_signed w)"
    "newline \<notin> set (show_signed w)"
  by (auto simp: cmd_delim_def list_all_iff is_digit_def digit_val_def dest: show_signed_chars)

lemma strtok_severity: "strtok cmd_delim (show_signed (w :: u32) @ [newline]) = Some (show_signed w, [])"
  using show_signed_cmd(1) [of w] strtok_token [of "show_signed w" cmd_delim newline "[]"]
  by (simp add: cmd_delim_def show_signed_def)

lemma strtoul_severity: "strtoul_val 0 (show_signed (w :: u32)) = scast w"
  using strtoul_show_signed [of "[]" w] by (simp add: strtoul_val_def)

lemma fault_command_words:
  assumes "subsystem f \<noteq> None"
  obtains w where "w \<in> {''power'', ''net'', ''memory''}"
    "fault_command f = w @ CHR '' '' # show_signed (flt_severity f) @ [newline]"
    "ucast (command_id w cmd) = the (subsystem f)"
proof -
  let ?w = "case flt_component f of None \<Rightarrow> ''power'' | Some c \<Rightarrow> c"
  have "?w \<in> {''power'', ''net'', ''memory''}" "ucast (command_id ?w cmd) = the (subsystem f)"
    using assms by (auto simp: subsystem_def command_id_def Let_def split: option.splits if_splits)
  then show thesis by (intro that [of ?w]) (simp_all add: fault_command_def)
qed

lemma backend_line_command:
  assumes "subsystem f \<noteq> None"
  obtains cmd' where "backend_line mth (fault_command f) cmd s =
    (case mth_set_state mth (fst (fault_call f)) (snd (fault_call f)) s of
       Returned _ s' \<Rightarrow> Go_on cmd' s' | Exited s' \<Rightarrow> Line_exited s' | Undefined \<Rightarrow> Line_undefined)"
proof -
  obtain w where w: "w \<in> {''power'', ''net'', ''memory''}"
    "fault_command f = w @ CHR '' '' # show_signed (flt_severity f) @ [newline]"
    "ucast (command_id w cmd) = the (subsystem f)"
    using fault_command_words [OF assms, of cmd] by blast
  have "NUL \<notin> set (fault_command f)" using w show_signed_cmd(2) by auto
  moreover have "w \<noteq> ''exit''" using w(1) by auto
  ultimately have "backend_line mth (fault_command f) cmd s =
    (case mth_set_state mth (fst (fault_call f)) (snd (fault_call f)) s of
       Returned _ s' \<Rightarrow> Go_on (command_id w cmd) s' | Exited s' \<Rightarrow> Line_exited s' | Undefined \<Rightarrow> Line_undefined)"
    using w strtok_command [OF w(1)]
    by (simp add: backend_line_def strtok_severity strtoul_severity fault_call_def Let_def)
  then show thesis by (rule that)
qed

lemma getline_command:
  assumes "subsystem f \<noteq> None"
  shows "getline (fault_command f @ r) = Some (fault_command f, r)"
proof -
  obtain w where "w \<in> {''power'', ''net'', ''memory''}"
    "fault_command f = w @ CHR '' '' # show_signed (flt_severity f) @ [newline]"
    using fault_command_words [OF assms] by blast
  then show ?thesis
    using show_signed_cmd(3) [of "flt_severity f"] getline_line [of "w @ CHR '' '' # show_signed (flt_severity f)" r] by auto
qed

text \<open>
  The loop performs the faults of the client as calls of \<open>set_state\<close>, in their order. The severity
  arrives sign-extended from 32 to 64 bits, so it is 0 only for a severity of 0.
\<close>

lemma backend_loop_commands:
  assumes "\<forall>i. sel i = (False, True)" "\<forall>f \<in> set fs. subsystem f \<noteq> None"
  shows "backend_loop mth sel i cmd (concat (map fault_command fs) @ ''exit'' @ [newline]) s =
    Some (run_calls mth (map fault_call fs) s)"
  using assms(2)
proof (induction fs arbitrary: i cmd s)
  case Nil
  have "getline (''exit'' @ [newline]) = Some (''exit'' @ [newline], [])"
    using getline_line [of "''exit''" "[]"] by simp
  moreover have "backend_line mth (''exit'' @ [newline]) cmd s = Leave"
    by (simp add: backend_line_def strtok_def cmd_delim_def)
  ultimately show ?case
    using assms(1) by (subst backend_loop.simps) simp
next
  case (Cons f fs)
  then have known: "subsystem f \<noteq> None" by simp
  obtain cmd' where line: "backend_line mth (fault_command f) cmd s =
    (case mth_set_state mth (fst (fault_call f)) (snd (fault_call f)) s of
       Returned _ s' \<Rightarrow> Go_on cmd' s' | Exited s' \<Rightarrow> Line_exited s' | Undefined \<Rightarrow> Line_undefined)"
    by (rule backend_line_command [OF known, of mth cmd s])
  let ?rest = "concat (map fault_command fs) @ ''exit'' @ [newline]"
  have sel: "fst (sel i) = False" "snd (sel i) = True" using assms(1) by simp_all
  have split: "concat (map fault_command (f # fs)) @ ''exit'' @ [newline] = fault_command f @ ?rest"
    by simp
  have calls: "run_calls mth (map fault_call (f # fs)) s =
    (case mth_set_state mth (fst (fault_call f)) (snd (fault_call f)) s of
       Returned _ s' \<Rightarrow> run_calls mth (map fault_call fs) s' | Exited s' \<Rightarrow> Main_exited s' | Undefined \<Rightarrow> Main_undefined)"
    by (cases "fault_call f") simp
  have IH: "backend_loop mth sel (Suc i) cmd' ?rest s' = Some (run_calls mth (map fault_call fs) s')" for s'
    using Cons by (metis list.set_intros(2))
  show ?case
    unfolding split calls backend_loop.simps [of mth sel i] sel getline_command [OF known] line
    by (cases "mth_set_state mth (fst (fault_call f)) (snd (fault_call f)) s") (simp_all only: IH line
        if_True if_False option.case prod.case set_result.case line_result.case simp_thms)
qed

section \<open>What a method promises\<close>

text \<open>
  The network follows the last \<open>net\<close> command, memory faults change nothing, a power fault ends the
  process, and the clean-up leaves a working network.
\<close>

definition net_after :: "(u32 \<times> u64) list \<Rightarrow> bool \<Rightarrow> bool" where
  "net_after = fold (\<lambda>(sys, sev) failed. if sys = SUBSYS_NET then sev \<noteq> 0 else failed)"

definition keeps_running :: "(u32 \<times> u64) list \<Rightarrow> bool" where
  "keeps_running calls \<longleftrightarrow> list_all (\<lambda>(sys, sev). sys = SUBSYS_NET \<or> sys = SUBSYS_MEM) calls"

locale injection_method =
  fixes mth :: "'s injector" and invar :: "'s \<Rightarrow> bool" and net_failed :: "'s \<Rightarrow> bool"
  assumes net: "invar s \<Longrightarrow> \<exists>s'. mth_set_state mth SUBSYS_NET sev s = Returned 0 s' \<and> invar s' \<and> net_failed s' = (sev \<noteq> 0)"
    and mem: "invar s \<Longrightarrow> mth_set_state mth SUBSYS_MEM sev s = Returned 0 s"
    and pwr: "invar s \<Longrightarrow> \<exists>s'. mth_set_state mth SUBSYS_PWR sev s = Exited s'"
    and cleanup: "invar s \<Longrightarrow> \<not> net_failed (mth_cleanup mth s)"
begin

lemma run_calls_prefix:
  "keeps_running calls \<Longrightarrow> invar s \<Longrightarrow>
   \<exists>s'. invar s' \<and> net_failed s' = net_after calls (net_failed s)
      \<and> (\<forall>rest. run_calls mth (calls @ rest) s = run_calls mth rest s')"
proof (induction calls arbitrary: s)
  case Nil
  then show ?case by (auto simp: net_after_def)
next
  case (Cons call calls)
  obtain sys sev where call: "call = (sys, sev)" by (cases call)
  have keep: "keeps_running calls" "sys = SUBSYS_NET \<or> sys = SUBSYS_MEM"
    using Cons.prems(1) by (simp_all add: keeps_running_def call)
  obtain r s1 where s1: "mth_set_state mth sys sev s = Returned r s1" "invar s1"
    "net_failed s1 = (if sys = SUBSYS_NET then sev \<noteq> 0 else net_failed s)"
    using keep(2) net [OF Cons.prems(2), of sev] mem [OF Cons.prems(2), of sev] Cons.prems(2) by auto
  with Cons.IH [OF keep(1) s1(2)] show ?case by (auto simp: call net_after_def)
qed

lemma run_calls_alive:
  assumes "keeps_running calls" "invar s"
  shows "\<exists>s'. run_calls mth calls s = Main_returned 0 (mth_cleanup mth s')
    \<and> net_failed s' = net_after calls (net_failed s) \<and> \<not> net_failed (mth_cleanup mth s')"
  using run_calls_prefix [OF assms] cleanup by (metis append_Nil2 run_calls.simps(1))

lemma run_calls_power:
  assumes "keeps_running calls" "invar s"
  shows "\<exists>s'. run_calls mth (calls @ (SUBSYS_PWR, sev) # rest) s = Main_exited s'"
  using run_calls_prefix [OF assms] pwr [of _ sev] by fastforce

end

end
