(* ===== verification/End_To_End.thy ===== *)
theory End_To_End
  imports Backend Main_Loop
begin

text \<open>
  The way of a fault from the server's fault manager to the application on a node: the server, its
  MQTT plugin, the broker, the client, the fifo and the backend.

  The broker is a parameter: \<open>route f t\<close> says that a subscription with the filter \<open>f\<close> gets the
  messages of the topic \<open>t\<close>. \<open>mqtt_wildcard\<close> is what the MQTT standard says of a filter that ends in
  the multi-level wildcard: it matches the parent topic and all topics below.

  The end of the theory is about the start: the ready messages of the clients, the wait of the server for
  them, and its start signal.
\<close>

section \<open>The broker\<close>

definition mqtt_wildcard :: "(string \<Rightarrow> string \<Rightarrow> bool) \<Rightarrow> bool" where
  "mqtt_wildcard route \<longleftrightarrow>
     (\<forall>p t. route (p @ ''/#'') t \<longleftrightarrow> t = p \<or> (\<exists>r. t = p @ ''/'' @ r))"

definition node_inbox :: "(string \<Rightarrow> string \<Rightarrow> bool) \<Rightarrow> string \<Rightarrow> (string \<times> string) list \<Rightarrow> (string \<times> string) list" where
  "node_inbox route name msgs = filter (\<lambda>m. route (subscription name) (fst m)) msgs"

text \<open>Names of nodes that fit into a topic and into the buffer of the subscription.\<close>

definition node_name_ok :: "string \<Rightarrow> bool" where
  "node_name_ok n \<longleftrightarrow> topic_safe n \<and> length n \<le> 499 \<and> n \<noteq> ''lausim''"

lemma slash_split:
  "CHR ''/'' \<notin> set a \<Longrightarrow> CHR ''/'' \<notin> set b \<Longrightarrow> a @ CHR ''/'' # r = b @ CHR ''/'' # r' \<longleftrightarrow> a = b \<and> r = r'"
proof (induction a arbitrary: b)
  case Nil
  then show ?case by (cases b) auto
next
  case (Cons x a)
  then show ?case by (cases b) auto
qed

lemma no_slash: "CHR ''/'' \<notin> set a \<Longrightarrow> a \<noteq> b @ CHR ''/'' # r"
  by auto

lemma route_mosq_topic:
  assumes "mqtt_wildcard route" "node_name_ok n" "topic_safe m"
  shows "route (subscription n) (mosq_topic m c) \<longleftrightarrow> m = n"
proof -
  have "subscription n = (''envelope/'' @ n) @ ''/#''"
    using assms(2) by (auto simp: subscription_def snprintf_def node_name_ok_def)
  then have "route (subscription n) (mosq_topic m c) \<longleftrightarrow>
      mosq_topic m c = ''envelope/'' @ n \<or> (\<exists>r. mosq_topic m c = (''envelope/'' @ n) @ ''/'' @ r)"
    using assms(1) unfolding mqtt_wildcard_def by metis
  moreover have "CHR ''/'' \<notin> set m" "CHR ''/'' \<notin> set n"
    using assms(2,3) by (simp_all add: node_name_ok_def topic_safe_def)
  ultimately show ?thesis
    by (cases c) (auto simp: mosq_topic_def slash_split no_slash no_slash [symmetric])
qed

lemma route_extern:
  assumes "mqtt_wildcard route" "node_name_ok n"
  shows "\<not> route (subscription n) ''envelope/lausim''"
  using route_mosq_topic [OF assms, of "''lausim''" None] assms(2)
  by (auto simp: mosq_topic_def node_name_ok_def topic_safe_def)

section \<open>What a node gets\<close>

definition faults_safe :: "fault_data list \<Rightarrow> bool" where
  "faults_safe fds \<longleftrightarrow> list_all (\<lambda>(n, c, sev). topic_safe n \<and> (\<forall>p. c = Some p \<longrightarrow> topic_safe p)) fds"

definition faults_of :: "string \<Rightarrow> fault_data list \<Rightarrow> client_fault list" where
  "faults_of n fds = [\<lparr>flt_component = c, flt_severity = sev\<rparr>. (m, c, sev) \<leftarrow> fds, m = n]"

lemma node_inbox_append [simp]: "node_inbox route n (xs @ ys) = node_inbox route n xs @ node_inbox route n ys"
  by (simp add: node_inbox_def)

lemma faults_safe_append [simp]: "faults_safe (xs @ ys) \<longleftrightarrow> faults_safe xs \<and> faults_safe ys"
  by (simp add: faults_safe_def)

lemma faults_of_append [simp]: "faults_of n (xs @ ys) = faults_of n xs @ faults_of n ys"
  by (simp add: faults_of_def)

lemma inbox_faults:
  assumes "mqtt_wildcard route" "node_name_ok n" "faults_safe fds"
  shows "map decode_fault (node_inbox route n (map mosq_message fds)) = faults_of n fds"
  using assms(3)
proof (induction fds)
  case (Cons fd fds)
  obtain m c sev where fd: "fd = (m, c, sev)" by (cases fd)
  have safe: "topic_safe m" "\<forall>p. c = Some p \<longrightarrow> topic_safe p" "faults_safe fds"
    using Cons.prems by (simp_all add: faults_safe_def fd)
  have "fst (mosq_message fd) = mosq_topic m c" by (simp add: fd mosq_message_def)
  then show ?case
    using Cons.IH [OF safe(3)] route_mosq_topic [OF assms(1,2) safe(1), of c] decode_mosq_message [OF safe(1,2)]
    by (auto simp: node_inbox_def faults_of_def fd)
qed (simp add: node_inbox_def faults_of_def)

lemma inbox_tics:
  assumes "mqtt_wildcard route" "node_name_ok n" "list_all faults_safe fdss"
  shows "map decode_fault (node_inbox route n (concat (map (mosq.tic_output serialize) fdss))) = faults_of n (concat fdss)"
  using assms(3)
proof (induction fdss)
  case (Cons fds fdss)
  have "map decode_fault (node_inbox route n (mosq.tic_output serialize fds)) = faults_of n fds"
    using inbox_faults [OF assms(1,2), of fds] route_extern [OF assms(1,2)] Cons.prems
    by (auto simp: mosq.tic_output_def node_inbox_def comp_def concat_map_singleton faults_of_def)
  with Cons show ?case by simp
qed (simp add: node_inbox_def faults_of_def)

section \<open>The server's part\<close>

definition sync_data :: "node list \<Rightarrow> fault_data list" where
  "sync_data ns = map (\<lambda>n. (node_name n, None, 0)) ns"

lemma send_synced_world:
  "w_plug (send_synced (world_com com) ns w) = (fst (w_plug w), notify_all com (sync_data ns) (snd (w_plug w)))"
  by (induction ns arbitrary: w) (simp_all add: sync_data_def notify_all_def)

lemma sync_fault:
  "distinct (map node_name ns) \<Longrightarrow> n \<in> node_name ` set ns \<Longrightarrow>
   faults_of n (sync_data ns) = [\<lparr>flt_component = None, flt_severity = 0\<rparr>]"
proof (induction ns)
  case (Cons m ns)
  have none: "n \<notin> node_name ` set ns \<Longrightarrow> faults_of n (sync_data ns) = []"
    by (induction ns) (auto simp: faults_of_def sync_data_def)
  show ?case
    using Cons none by (auto simp: faults_of_def sync_data_def)
qed simp

text \<open>All that the server publishes from the signal on: the signals, then the tics.\<close>

lemma server_publishes:
  assumes "wired fm (mosq_com ret strerror) (mosq_com ret strerror) s" "well_timed s"
    and "w_plug w = (m, c)" "mq_is_init c" "fm_run fm k m = (fss, m')"
  shows "\<exists>s' w'. run_tics serialize clock k (s, send_synced_signal s w) = Some (s', w')
    \<and> published (mq_calls (snd (w_plug w'))) = published (mq_calls c) @ map mosq_message (sync_data (sv_nodes s))
        @ concat (map (mosq.tic_output serialize) (map (map fault_data) fss))"
proof -
  let ?com = "mosq_com ret strerror"
  let ?c1 = "notify_all ?com (sync_data (sv_nodes s)) c"
  have c1: "mq_is_init ?c1" "published (mq_calls ?c1) = published (mq_calls c) @ map mosq_message (sync_data (sv_nodes s))"
    using mosq.notify_all_out [OF assms(4), of ret strerror "sync_data (sv_nodes s)"]
    by (simp_all add: concat_map_singleton)
  have w1: "w_plug (send_synced_signal s w) = (m, ?c1)"
    using assms(1,3) by (simp add: send_synced_signal_def wired_def send_synced_world)
  have "fm_run fm k (fst (w_plug (send_synced_signal s w))) = (fss, m')" using w1 assms(5) by simp
  from run_tics_world [OF assms(1,2) this, of serialize clock] obtain s' w' where
    "run_tics serialize clock k (s, send_synced_signal s w) = Some (s', w')"
    "w_plug w' = (m', fold (deliver serialize ?com ?com) (map (map fault_data) fss) ?c1)"
    using w1 by auto
  with mosq.deliveries_out [OF c1(1)] c1(2) show ?thesis by simp
qed

section \<open>The client's and the backend's part\<close>

lemma client_to_backend:
  assumes batches: "runs_batches loop usable 0 batches"
    and faults: "map decode_fault (concat batches) = sync # fs"
    and client: "mt_con (cl_mqtt cl)" "mt_faults (cl_mqtt cl) = []" "\<not> cl_synced cl" "cl_fifo cl = []"
    and stop: "\<forall>j < length batches. \<not> req_stop j" "req_stop (length batches)"
    and known: "\<forall>f \<in> set fs. subsystem f \<noteq> None" and sel: "\<forall>i. sel i = (False, True)"
  shows "\<exists>cl' f f'. client_loop usable strerror loop req_stop 0 0 cl = Some (Client_exit 0 cl')
    \<and> backend_init True (Some (cl_fifo cl')) fifo_load = Some f
    \<and> lauSim_main mth junk sel f b = Some (run_calls mth (map fault_call fs) b, f')"
proof -
  obtain cl' where cl': "client_loop usable strerror loop req_stop 0 0 cl = Some (Client_exit 0 cl')"
    "cl_fifo cl' = newline # concat (map fault_command fs) @ ''exit'' @ [newline]"
    using client_loop_fifo [OF batches client(1,2), of req_stop 0 strerror] stop client(3,4) faults
    by (auto simp: fifo_text_def)
  let ?f = "fifo_load\<lparr>bk_fifo := Some (concat (map fault_command fs) @ ''exit'' @ [newline])\<rparr>"
  have "backend_init True (Some (cl_fifo cl')) fifo_load = Some ?f"
    using cl'(2) by (simp add: backend_init_def get_fifo_def fifo_load_def)
  moreover have "\<exists>f'. lauSim_main mth junk sel ?f b = Some (run_calls mth (map fault_call fs) b, f')"
    using backend_loop_commands [OF sel known, of mth 0 junk b]
    by (cases "run_calls mth (map fault_call fs) b") (simp_all add: lauSim_main_def)
  ultimately show ?thesis using cl'(1) by blast
qed

section \<open>The whole way\<close>

lemma faults_to_backend:
  assumes server: "wired fm (mosq_com ret strerror) (mosq_com ret strerror) s" "well_timed s"
      "w_plug w = (m, c)" "mq_is_init c" "published (mq_calls c) = []"
    and nodes: "distinct (map node_name (sv_nodes s))" "name \<in> node_name ` set (sv_nodes s)"
      "node_name_ok name" "faults_safe (sync_data (sv_nodes s))"
    and faults: "fm_run fm k m = (fss, m')" "list_all (\<lambda>fs. faults_safe (map fault_data fs)) fss"
      "fs = faults_of name (concat (map (map fault_data) fss))" "\<forall>f \<in> set fs. subsystem f \<noteq> None"
    and broker: "mqtt_wildcard route"
    and client: "mt_con (cl_mqtt cl)" "mt_faults (cl_mqtt cl) = []" "\<not> cl_synced cl" "cl_fifo cl = []"
    and backend: "\<forall>i. sel i = (False, True)"
  shows "\<exists>s' w'. run_tics serialize clock k (s, send_synced_signal s w) = Some (s', w')
    \<and> (\<forall>loop batches usable req_stop.
         concat batches = node_inbox route name (published (mq_calls (snd (w_plug w'))))
         \<longrightarrow> runs_batches loop usable 0 batches
         \<longrightarrow> (\<forall>j < length batches. \<not> req_stop j) \<longrightarrow> req_stop (length batches)
         \<longrightarrow> (\<exists>cl' f f'. client_loop usable strerror' loop req_stop 0 0 cl = Some (Client_exit 0 cl')
               \<and> backend_init True (Some (cl_fifo cl')) fifo_load = Some f
               \<and> lauSim_main mth junk sel f b = Some (run_calls mth (map fault_call fs) b, f')))"
proof -
  let ?fdss = "map (map fault_data) fss"
  obtain s' w' where run: "run_tics serialize clock k (s, send_synced_signal s w) = Some (s', w')"
    "published (mq_calls (snd (w_plug w'))) = map mosq_message (sync_data (sv_nodes s))
        @ concat (map (mosq.tic_output serialize) ?fdss)"
    using server_publishes [OF server(1-4) faults(1), of serialize clock] server(5) by auto
  have "list_all faults_safe ?fdss" using faults(2) by (simp add: list_all_iff)
  then have "map decode_fault (node_inbox route name (published (mq_calls (snd (w_plug w')))))
      = \<lparr>flt_component = None, flt_severity = 0\<rparr> # fs"
    using inbox_faults [OF broker nodes(3,4)] inbox_tics [OF broker nodes(3)] sync_fault [OF nodes(1,2)]
    by (simp add: run(2) faults(3) del: map_map)
  then have decoded: "concat batches = node_inbox route name (published (mq_calls (snd (w_plug w'))))
      \<Longrightarrow> map decode_fault (concat batches) = \<lparr>flt_component = None, flt_severity = 0\<rparr> # fs" for batches
    by simp
  show ?thesis
    by (rule exI, rule exI, rule conjI, rule run(1), intro allI impI,
        rule client_to_backend [OF _ decoded client _ _ faults(4) backend])
qed

section \<open>The server program with and without the wait for its nodes\<close>

text \<open>The messages received up to some round make all nodes ready.\<close>

definition nodes_report :: "(string \<Rightarrow> backchannel option) \<Rightarrow> (nat \<Rightarrow> string list) \<Rightarrow> node list \<Rightarrow> bool" where
  "nodes_report parse inbox ns \<longleftrightarrow> distinct (map node_name ns)
     \<and> (\<exists>k. \<forall>n \<in> set ns. fold (reported parse (node_name n)) (received inbox 0 (Suc k)) (node_state n) = NODE_STATE_READY)"

lemma wait_ready_eventually:
  assumes "nodes_report parse inbox (sv_nodes s)" "\<forall>j. \<not> termreq j"
  shows "\<exists>i s' w'. wait_ready parse inbox termreq 0 (s, w) = Some (i, s', w')
    \<and> map node_name (sv_nodes s') = map node_name (sv_nodes s) \<and> w_plug w' = w_plug w
    \<and> (\<forall>fm actor notify. wired fm actor notify s' = wired fm actor notify s) \<and> well_timed s' = well_timed s"
proof -
  let ?sw = "\<lambda>k. on_messages parse (received inbox 0 k) (s, w)"
  have nodes: "sv_nodes (fst (?sw k)) =
      map (\<lambda>n. n\<lparr>node_state := fold (reported parse (node_name n)) (received inbox 0 k) (node_state n)\<rparr>) (sv_nodes s)" for k
    using assms(1) by (intro on_messages_nodes) (simp add: nodes_report_def)
  have "\<exists>k. all_nodes_ready (fst (?sw (Suc k)))"
    using assms(1) unfolding nodes_report_def all_nodes_ready_def nodes by (auto simp: list_all_iff)
  then obtain k where k: "all_nodes_ready (fst (?sw (Suc k)))" "\<forall>j<k. \<not> all_nodes_ready (fst (?sw (Suc j)))"
    using exists_least_iff [of "\<lambda>k. all_nodes_ready (fst (?sw (Suc k)))"] by blast
  obtain s' w' where sw: "?sw (Suc k) = (s', w')" by fastforce
  have "wait_ready parse inbox termreq 0 (s, w) = Some (k + 1, s', w')"
    using wait_ready_returns [of k termreq 0 parse inbox "(s, w)"] k assms(2) sw by simp
  with on_messages_wired [OF sw] nodes [of "Suc k"] sw show ?thesis by (auto simp: comp_def)
qed

lemma sync_data_names:
  assumes "map node_name ns = map node_name ns'"
  shows "sync_data ns = sync_data ns'"
proof -
  have names: "sync_data ms = map (\<lambda>name. (name, None, 0)) (map node_name ms)" for ms
    by (simp add: sync_data_def)
  show ?thesis unfolding names assms ..
qed

definition start_signals :: "options \<Rightarrow> 'c com \<Rightarrow> node list \<Rightarrow> 'c \<Rightarrow> 'c" where
  "start_signals opts actor ns c = (if op_sync opts then notify_all actor (sync_data ns) c else c)"

lemma serve_runs:
  assumes "wired fm actor notify s" "well_timed s" "op_max_tics opts \<noteq> 0" "\<forall>j. \<not> termreq j"
    and "op_sync opts \<longrightarrow> nodes_report parse inbox (sv_nodes s)"
    and "fm_run fm (unat (op_max_tics opts)) (fst (w_plug w)) = (fss, m)"
  shows "\<exists>w'. serve h parse serialize clock inbox termreq opts (s, w) = Some (pm_cleanup h w')
    \<and> w_plug w' = (m, fold (deliver serialize actor notify) (map (map fault_data) fss)
                        (start_signals opts actor (sv_nodes s) (snd (w_plug w))))"
proof (cases "op_sync opts")
  case False
  then show ?thesis using serve_max_tics [OF assms(1,2) False assms(3,4,6)] by (simp add: start_signals_def)
next
  case True
  let ?w1 = "w_logf LL_Info ''initialization complete'' w"
  let ?w2 = "fold (w_logf LL_Info) (plugin_table h (w_pm ?w1)) ?w1"
  have plug: "w_plug ?w2 = w_plug w" by (simp add: w_plug_logs)
  obtain i s1 w3 where wait: "wait_ready parse inbox termreq 0 (s, ?w2) = Some (i, s1, w3)"
    "map node_name (sv_nodes s1) = map node_name (sv_nodes s)" "w_plug w3 = w_plug w" "wired fm actor notify s1" "well_timed s1"
    using wait_ready_eventually [OF assms(5) [rule_format, OF True] assms(4), of ?w2] plug assms(1,2) by auto
  let ?w4 = "send_synced_signal s1 (w_logf LL_Info ''all nodes ready'' w3)"
  have w4: "w_plug ?w4 = (fst (w_plug w), start_signals opts actor (sv_nodes s) (snd (w_plug w)))"
    using wait(3,4) sync_data_names [OF wait(2)] True
    by (simp add: send_synced_signal_def wired_def send_synced_world start_signals_def w_logf_def)
  obtain tn s' w' where "tic_loop parse serialize clock inbox termreq (op_max_tics opts) i 0 (s1, ?w4) = Some (tn, s', w')"
    "w_plug w' = (m, fold (deliver serialize actor notify) (map (map fault_data) fss)
        (start_signals opts actor (sv_nodes s) (snd (w_plug w))))"
    using tic_loop_run [OF wait(4,5), of "unat (op_max_tics opts)" ?w4 fss m termreq i "op_max_tics opts" 0
        parse serialize clock inbox] assms(3,4,6) w4 by auto
  with True wait(1) show ?thesis
    by (auto simp: serve_def Let_def w_logf_def intro!: exI [of _ "w_logf LL_Info ''cleaning up'' w'"])
qed

section \<open>The clients start the server\<close>

text \<open>
  What the back channel hands to the server's callback: the messages that the broker routes to the
  plugin's subscription, as long as they are not empty.
\<close>

definition back_channel :: "(string \<Rightarrow> string \<Rightarrow> bool) \<Rightarrow> mosq \<Rightarrow> (string \<times> string) list \<Rightarrow> string list" where
  "back_channel route c msgs =
     concat (map (\<lambda>m. case fst (mosq_on_message (snd m) c) of None \<Rightarrow> [] | Some (cb, payload) \<Rightarrow> [payload])
       (filter (\<lambda>m. route mq_back_topic (fst m)) msgs))"

lemma back_channel_session:
  assumes "mqtt_wildcard route" "mq_callback c = Some cb" "ready \<noteq> []"
  shows "back_channel route c (published (client_session name host port ready)) = [ready]"
proof -
  have "mq_back_topic = ''envelope/master'' @ ''/#''" by (simp add: mq_back_topic_def)
  then have "route mq_back_topic (''envelope/master'' @ ''/'' @ name)"
    using assms(1) unfolding mqtt_wildcard_def by metis
  with assms(2,3) show ?thesis
    by (simp add: back_channel_def client_session_def mosq_on_message_def mq_logf_def Let_def)
qed

text \<open>Messages that are all ready messages make a node ready once its own is among them, and leave it so.\<close>

lemma ready_messages_report:
  assumes parse: "\<And>name. name \<in> names \<Longrightarrow> parse (pack (ready_message name)) = Some (ready_message name)"
    and "set msgs \<subseteq> (\<lambda>name. pack (ready_message name)) ` names" "\<forall>name \<in> names. NUL \<notin> set name" "n \<in> names"
  shows "fold (reported parse n) msgs st = (if pack (ready_message n) \<in> set msgs then NODE_STATE_READY else st)"
  using assms(2)
proof (induction msgs arbitrary: st)
  case (Cons msg msgs)
  then obtain name where name: "msg = pack (ready_message name)" "name \<in> names" by auto
  have inj: "pack (ready_message n) = pack (ready_message name) \<longleftrightarrow> n = name"
  proof
    assume "pack (ready_message n) = pack (ready_message name)"
    then have "ready_message n = ready_message name" by (metis parse [OF assms(4)] parse [OF name(2)] option.inject)
    then show "n = name" by (simp add: ready_message_def)
  qed simp
  have "c_str name = name" using name(2) assms(3) by simp
  then have step: "reported parse n (pack (ready_message name)) st = (if n = name then NODE_STATE_READY else st)"
    by (simp add: reported_def parse [OF name(2)]) (simp add: ready_message_def)
  have IH: "fold (reported parse n) msgs st' = (if pack (ready_message n) \<in> set msgs then NODE_STATE_READY else st')" for st'
    using Cons.IH Cons.prems by simp
  show ?case by (simp add: name(1) step IH inj)
qed simp

lemma clients_report:
  assumes "mqtt_wildcard route" "mq_callback c = Some cb"
    and codec: "\<forall>n \<in> set ns. parse (pack (ready_message (node_name n))) = Some (ready_message (node_name n))
      \<and> pack (ready_message (node_name n)) \<noteq> []"
    and nodes: "distinct (map node_name ns)" "\<forall>n \<in> set ns. NUL \<notin> set (node_name n)"
    and arrived: "set (received inbox 0 (Suc k)) =
      (\<Union>n \<in> set ns. set (back_channel route c (published (client_session (node_name n) host port (pack (ready_message (node_name n)))))))"
  shows "nodes_report parse inbox ns"
proof -
  have msgs: "set (received inbox 0 (Suc k)) = (\<lambda>name. pack (ready_message name)) ` node_name ` set ns"
    unfolding arrived using codec by (auto simp: back_channel_session [OF assms(1,2)])
  have "fold (reported parse (node_name n)) (received inbox 0 (Suc k)) (node_state n) = NODE_STATE_READY" if n: "n \<in> set ns" for n
  proof -
    have "pack (ready_message (node_name n)) \<in> set (received inbox 0 (Suc k))" unfolding msgs using n by simp
    moreover have "\<forall>name \<in> node_name ` set ns. NUL \<notin> set name" using nodes(2) by simp
    moreover have "parse (pack (ready_message name)) = Some (ready_message name)" if "name \<in> node_name ` set ns" for name
      using codec that by auto
    ultimately show ?thesis
      using ready_messages_report [OF _ equalityD1 [OF msgs], of parse "node_name n" "node_state n"] n by simp
  qed
  with nodes(1) show ?thesis unfolding nodes_report_def by blast
qed

end
