(* ===== verification/C_Memory.thy ===== *)
theory C_Memory
  imports Lausim_Types "HOL-Library.Monad_Syntax" "HOL-Library.Multiset"
begin

text \<open>
  The memory that the fault managers allocate. A block is named by the address of its allocation;
  \<open>NULL\<close> is 0 and no address is used twice, so that every use of a freed block shows. A pointer into
  an array of structures is the address of the block with an index. An operation on a block that is
  not allocated, or that holds something else, has no result (None): in C it is undefined.

  The ownership predicate \<open>owns\<close> splits the memory into the blocks a component owns, listed with
  their contents, and the frame it does not touch.
\<close>

section \<open>Blocks\<close>

type_synonym addr = nat

abbreviation (input) NULL :: addr where "NULL \<equiv> 0"

type_synonym cptr = "addr \<times> nat"

text \<open>The structures of \<open>node.h\<close> and \<open>fault_manager.h\<close> with their pointers.\<close>

record c_node =
  cn_name :: addr
  cn_id :: u32
  cn_type :: node_type_t
  cn_state :: u32
  cn_num_components :: u32
  cn_components :: addr

record c_component =
  cc_name :: addr
  cc_severity :: u32

record c_fault =
  cf_id :: u32
  cf_name :: "string option"
  cf_component :: addr
  cf_node :: addr
  cf_severity :: u32

datatype block =
    Chars string
  | Pointers "cptr list"
  | Node_array "c_node list"
  | Component_array "c_component list"
  | Fault_struct c_fault
  | My_node c_node int

record heap =
  hp_mem :: "addr \<rightharpoonup> block"
  hp_next :: addr

definition heap_ok :: "heap \<Rightarrow> bool" where
  "heap_ok h \<longleftrightarrow> 0 < hp_next h \<and> (\<forall>p \<in> dom (hp_mem h). 0 < p \<and> p < hp_next h)"

section \<open>Operations\<close>

definition c_alloc :: "block \<Rightarrow> heap \<Rightarrow> addr \<times> heap" where
  "c_alloc b h = (hp_next h, h\<lparr>hp_mem := (hp_mem h)(hp_next h \<mapsto> b), hp_next := hp_next h + 1\<rparr>)"

definition c_free :: "addr \<Rightarrow> heap \<Rightarrow> heap option" where
  "c_free p h =
     (if p = NULL then Some h
      else case hp_mem h p of None \<Rightarrow> None | Some _ \<Rightarrow> Some (h\<lparr>hp_mem := (hp_mem h)(p := None)\<rparr>))"

definition c_store :: "addr \<Rightarrow> block \<Rightarrow> heap \<Rightarrow> heap option" where
  "c_store p b h = (case hp_mem h p of None \<Rightarrow> None | Some _ \<Rightarrow> Some (h\<lparr>hp_mem := (hp_mem h)(p \<mapsto> b)\<rparr>))"

text \<open>\<open>realloc\<close> moves the block; of NULL it is \<open>malloc\<close>.\<close>

definition c_realloc :: "addr \<Rightarrow> block \<Rightarrow> heap \<Rightarrow> (addr \<times> heap) option" where
  "c_realloc p b h = map_option (c_alloc b) (c_free p h)"

definition nth_opt :: "'a list \<Rightarrow> nat \<Rightarrow> 'a option" where
  "nth_opt xs i = (if i < length xs then Some (xs ! i) else None)"

definition chars_at :: "addr \<Rightarrow> heap \<Rightarrow> string option" where
  "chars_at p h = (case hp_mem h p of Some (Chars s) \<Rightarrow> Some s | _ \<Rightarrow> None)"

definition pointers_at :: "addr \<Rightarrow> heap \<Rightarrow> cptr list option" where
  "pointers_at p h = (case hp_mem h p of Some (Pointers ps) \<Rightarrow> Some ps | _ \<Rightarrow> None)"

definition nodes_at :: "addr \<Rightarrow> heap \<Rightarrow> c_node list option" where
  "nodes_at p h = (case hp_mem h p of Some (Node_array ns) \<Rightarrow> Some ns | _ \<Rightarrow> None)"

definition components_at :: "addr \<Rightarrow> heap \<Rightarrow> c_component list option" where
  "components_at p h = (case hp_mem h p of Some (Component_array cs) \<Rightarrow> Some cs | _ \<Rightarrow> None)"

definition fault_at :: "addr \<Rightarrow> heap \<Rightarrow> c_fault option" where
  "fault_at p h = (case hp_mem h p of Some (Fault_struct f) \<Rightarrow> Some f | _ \<Rightarrow> None)"

text \<open>\<open>faults[i]\<close>: the structure behind the \<open>i\<close>th pointer of an array.\<close>

definition nth_fault :: "addr \<Rightarrow> nat \<Rightarrow> heap \<Rightarrow> (addr \<times> c_fault) option" where
  "nth_fault base i h =
     do { ps \<leftarrow> pointers_at base h; p \<leftarrow> nth_opt ps i; f \<leftarrow> fault_at (fst p) h; Some (fst p, f) }"

text \<open>Assignments to one element of an array.\<close>

definition set_pointer :: "addr \<Rightarrow> nat \<Rightarrow> cptr \<Rightarrow> heap \<Rightarrow> heap option" where
  "set_pointer p i v h =
     do { ps \<leftarrow> pointers_at p h; if i < length ps then c_store p (Pointers (ps[i := v])) h else None }"

definition update_node :: "addr \<Rightarrow> nat \<Rightarrow> (c_node \<Rightarrow> c_node) \<Rightarrow> heap \<Rightarrow> heap option" where
  "update_node p i f h =
     do { ns \<leftarrow> nodes_at p h; if i < length ns then c_store p (Node_array (ns[i := f (ns ! i)])) h else None }"

definition update_component :: "addr \<Rightarrow> nat \<Rightarrow> (c_component \<Rightarrow> c_component) \<Rightarrow> heap \<Rightarrow> heap option" where
  "update_component p i f h =
     do { cs \<leftarrow> components_at p h; if i < length cs then c_store p (Component_array (cs[i := f (cs ! i)])) h else None }"

lemmas heap_reads = chars_at_def pointers_at_def nodes_at_def components_at_def fault_at_def

section \<open>Ownership\<close>

type_synonym cells = "(addr \<times> block) list"

definition owns :: "heap \<Rightarrow> cells \<Rightarrow> (addr \<rightharpoonup> block) \<Rightarrow> bool" where
  "owns h cs fr \<longleftrightarrow> heap_ok h \<and> distinct (map fst cs) \<and> fst ` set cs \<inter> dom fr = {} \<and> hp_mem h = fr ++ map_of cs"

lemma owns_ok: "owns h cs fr \<Longrightarrow> heap_ok h"
  by (simp add: owns_def)

lemma owns_nil: "owns h [] fr \<longleftrightarrow> heap_ok h \<and> hp_mem h = fr"
  by (auto simp: owns_def)

lemma owns_mset: "mset cs = mset cs' \<Longrightarrow> owns h cs fr \<longleftrightarrow> owns h cs' fr"
proof -
  assume m: "mset cs = mset cs'"
  then have "mset (map fst cs) = mset (map fst cs')" by simp
  then have d: "distinct (map fst cs) = distinct (map fst cs')" by (rule mset_eq_imp_distinct_iff)
  moreover have s: "set cs = set cs'" using m by (rule mset_eq_setD)
  moreover have "map_of cs = map_of cs'" if "distinct (map fst cs)"
    using that d s by (intro map_of_eqI) (auto intro: map_of_is_SomeI dest: map_of_SomeD)
  ultimately show ?thesis by (auto simp: owns_def)
qed

lemma owns_perm: "owns h cs fr \<Longrightarrow> mset cs = mset cs' \<Longrightarrow> owns h cs' fr"
  using owns_mset by blast

lemma owns_at: "owns h cs fr \<Longrightarrow> (p, b) \<in> set cs \<Longrightarrow> hp_mem h p = Some b"
  by (auto simp: owns_def map_add_def)

lemma owns_pos: "owns h cs fr \<Longrightarrow> (p, b) \<in> set cs \<Longrightarrow> 0 < p"
proof -
  assume "owns h cs fr" "(p, b) \<in> set cs"
  then show "0 < p" using owns_at by (force simp: owns_def heap_ok_def)
qed

lemma owns_alloc:
  assumes "owns h cs fr" "c_alloc b h = (p, h')"
  shows "owns h' ((p, b) # cs) fr" "0 < p"
proof -
  have p: "p = hp_next h" "h' = h\<lparr>hp_mem := (hp_mem h)(hp_next h \<mapsto> b), hp_next := hp_next h + 1\<rparr>"
    using assms(2) by (auto simp: c_alloc_def)
  have new: "hp_mem h p = None" using assms(1) p by (auto simp: owns_def heap_ok_def)
  then have "p \<notin> fst ` set cs" "p \<notin> dom fr"
    using assms(1) by (auto simp: owns_def map_add_None map_of_eq_None_iff)
  moreover have "heap_ok h'" using assms(1) p by (auto simp: owns_def heap_ok_def less_Suc_eq)
  ultimately show "owns h' ((p, b) # cs) fr" using assms(1) p by (auto simp: owns_def)
  show "0 < p" using assms(1) p by (simp add: owns_def heap_ok_def)
qed

lemma owns_alloc_ex:
  "owns h cs fr \<Longrightarrow> \<exists>p h'. c_alloc b h = (p, h') \<and> 0 < p \<and> owns h' ((p, b) # cs) fr"
  using owns_alloc by (cases "c_alloc b h") blast

lemma owns_free:
  assumes "owns h ((p, b) # cs) fr"
  shows "\<exists>h'. c_free p h = Some h' \<and> owns h' cs fr"
proof -
  have "hp_mem h p = Some b" "0 < p"
    using owns_at [OF assms, of p b] owns_pos [OF assms, of p b] by simp_all
  moreover have "map_of cs p = None" "fr p = None"
    using assms by (auto simp: owns_def map_of_eq_None_iff)
  then have "((fr ++ map_of cs)(p \<mapsto> b))(p := None) = fr ++ map_of cs"
    by (auto simp: map_add_def)
  ultimately show ?thesis
    using assms by (auto simp: owns_def c_free_def heap_ok_def)
qed

lemma owns_store:
  assumes "owns h ((p, b) # cs) fr"
  shows "\<exists>h'. c_store p b' h = Some h' \<and> owns h' ((p, b') # cs) fr"
proof -
  have "hp_mem h p = Some b" using owns_at [OF assms, of p b] by simp
  then show ?thesis using assms by (auto simp: owns_def c_store_def heap_ok_def)
qed

lemma owns_realloc_NULL: "c_realloc 0 b h = Some (c_alloc b h)"
  by (simp add: c_realloc_def c_free_def)

lemma owns_realloc:
  assumes "owns h ((p, b) # cs) fr"
  shows "\<exists>q h'. c_realloc p b' h = Some (q, h') \<and> 0 < q \<and> owns h' ((q, b') # cs) fr"
proof -
  obtain h1 where "c_free p h = Some h1" "owns h1 cs fr" using owns_free [OF assms] by blast
  with owns_alloc_ex [of h1 cs fr b'] show ?thesis by (auto simp: c_realloc_def)
qed

lemma owns_set_pointer:
  assumes "owns h ((p, Pointers ps) # cs) fr" "i < length ps"
  shows "\<exists>h'. set_pointer p i v h = Some h' \<and> owns h' ((p, Pointers (ps[i := v])) # cs) fr"
  using owns_at [OF assms(1), of p "Pointers ps"] owns_store [OF assms(1)] assms(2)
  by (simp add: set_pointer_def heap_reads)

lemma owns_update_node:
  assumes "owns h ((p, Node_array ns) # cs) fr" "i < length ns"
  shows "\<exists>h'. update_node p i f h = Some h' \<and> owns h' ((p, Node_array (ns[i := f (ns ! i)])) # cs) fr"
  using owns_at [OF assms(1), of p "Node_array ns"] owns_store [OF assms(1)] assms(2)
  by (simp add: update_node_def heap_reads)

lemma owns_update_component:
  assumes "owns h ((p, Component_array xs) # cs) fr" "i < length xs"
  shows "\<exists>h'. update_component p i f h = Some h' \<and> owns h' ((p, Component_array (xs[i := f (xs ! i)])) # cs) fr"
  using owns_at [OF assms(1), of p "Component_array xs"] owns_store [OF assms(1)] assms(2)
  by (simp add: update_component_def heap_reads)

lemma owns_frame:
  assumes "owns h (cs @ ds) fr"
  shows "owns h cs (fr ++ map_of ds)"
proof -
  have "fst ` set cs \<inter> fst ` set ds = {}" using assms by (auto simp: owns_def)
  then have "map_of ds ++ map_of cs = map_of cs ++ map_of ds"
    by (intro map_add_comm) (auto simp: dom_map_of_conv_image_fst)
  moreover have "fst ` set cs \<inter> dom (fr ++ map_of ds) = {}"
    using assms by (auto simp: owns_def dom_map_of_conv_image_fst)
  ultimately show ?thesis using assms by (simp add: owns_def) (metis map_add_assoc)
qed

lemma owns_hide: "owns h cs fr \<Longrightarrow> owns h [] (fr ++ map_of cs)"
  using owns_frame [of h "[]" cs fr] by simp

lemma owns_join:
  assumes "owns h cs (fr ++ map_of ds)" "owns h0 ds fr"
  shows "owns h (cs @ ds) fr"
proof -
  have "fst ` set cs \<inter> (dom fr \<union> fst ` set ds) = {}"
    using assms(1) by (simp add: owns_def dom_map_of_conv_image_fst Un_commute)
  then have disj: "fst ` set cs \<inter> fst ` set ds = {}" "fst ` set (cs @ ds) \<inter> dom fr = {}"
    using assms(2) by (auto simp: owns_def)
  then have "map_of ds ++ map_of cs = map_of cs ++ map_of ds"
    by (intro map_add_comm) (auto simp: dom_map_of_conv_image_fst)
  then have "fr ++ map_of ds ++ map_of cs = fr ++ map_of (cs @ ds)" by (metis map_add_assoc map_of_append)
  moreover have "distinct (map fst (cs @ ds))" using assms disj(1) by (simp add: owns_def)
  ultimately show ?thesis using assms(1) disj(2) unfolding owns_def by simp
qed

text \<open>The blocks that are owned come on top of the frame.\<close>

lemma owns_dom:
  assumes "owns h cs fr"
  shows "fr \<subseteq>\<^sub>m hp_mem h" "card (dom (hp_mem h) - dom fr) = length cs"
proof -
  have "map_of cs p = None" if "p \<in> dom fr" for p using assms that by (auto simp: owns_def map_of_eq_None_iff)
  with assms show "fr \<subseteq>\<^sub>m hp_mem h" by (auto simp: owns_def map_le_def map_add_def)
  have "dom (hp_mem h) - dom fr = fst ` set cs" using assms by (auto simp: owns_def dom_map_of_conv_image_fst)
  moreover have "card (fst ` set cs) = length cs" using assms distinct_card [of "map fst cs"] by (simp add: owns_def)
  ultimately show "card (dom (hp_mem h) - dom fr) = length cs" by simp
qed

text \<open>Freeing the null pointer does nothing.\<close>

lemma c_free_NULL [simp]: "c_free 0 h = Some h"
  by (simp add: c_free_def)

lemma nth_fault_owned:
  assumes "owns h cs fr" "(base, Pointers ps) \<in> set cs" "i < length ps" "(fst (ps ! i), Fault_struct f) \<in> set cs"
  shows "nth_fault base i h = Some (fst (ps ! i), f)"
  using owns_at [OF assms(1,2)] owns_at [OF assms(1,4)] assms(3)
  by (simp add: nth_fault_def heap_reads nth_opt_def)

end
