(* ===== verification/Replay_Memory.thy ===== *)
theory Replay_Memory
  imports Replay C_Memory
begin

text \<open>
  The replay plugin (\<open>plugins/replay/replay.c\<close>) with its memory: the arrays of nodes and faults, the
  strings in them and the line buffer are blocks of the heap, and the global pointers are addresses.
  It refines the model of \<open>Replay\<close>, in which nodes and faults are lists. This theory holds the state and
  the tics, \<open>Replay_Nodes\<close> the reading of the nodes and the clean-up.

  The value of the variable that \<open>get_tic_num\<close> does not initialise and the success of the checked
  allocations are functions of the text behind the line that was read last: no two of the questions
  are asked at the same place of the file.
\<close>

section \<open>State\<close>

record file_env =
  fe_junk :: "string \<Rightarrow> u64"
  fe_calloc :: "string \<Rightarrow> bool"

definition file_env :: "file_env \<Rightarrow> replay_env" where
  "file_env env = \<lparr>env_junk = \<lambda>s. fe_junk env (rp_file s), env_calloc = \<lambda>s. fe_calloc env (rp_file s)\<rparr>"

lemma file_env_sel [simp]:
  "env_junk (file_env env) s = fe_junk env (rp_file s)" "env_calloc (file_env env) s = fe_calloc env (rp_file s)"
  by (simp_all add: file_env_def)

record replay_c =
  rc_tic_num :: u64
  rc_nxt_tic :: u64
  rc_id :: u64
  rc_file :: string
  rc_done :: bool
  rc_log :: "log_call list"
  rc_nodes :: addr
  rc_node_ptr :: addr
  rc_nodes_num :: u64
  rc_faults :: addr
  rc_num_fault :: nat
  rc_heap :: heap

definition rc_logf :: "log_level \<Rightarrow> string \<Rightarrow> replay_c \<Rightarrow> replay_c" where
  "rc_logf l m s = s\<lparr>rc_log := rc_log s @ [(l, m)]\<rparr>"

definition rc_log_line :: "string \<Rightarrow> replay_c \<Rightarrow> replay_c" where
  "rc_log_line buf = rc_logf LL_Debug (snprintf 512 (''[REPLAY] line: '' @ buf))"

text \<open>
  \<open>getline\<close> puts the line into the buffer it gets, or into a new one when that is NULL; at the end
  of the file it leaves a buffer behind, too.
\<close>

definition rc_getline :: "addr \<Rightarrow> string \<Rightarrow> heap \<Rightarrow> ((string \<times> string) option \<times> addr \<times> heap) option" where
  "rc_getline buf txt h =
     (case getline txt of
        None \<Rightarrow> Some (None, if buf = NULL then c_alloc (Chars []) h else (buf, h))
      | Some (line, rest) \<Rightarrow>
          (case c_realloc buf (Chars line) h of None \<Rightarrow> None | Some bh \<Rightarrow> Some (Some (line, rest), bh)))"

section \<open>Faults\<close>

definition rc_free_fault :: "addr \<Rightarrow> nat \<Rightarrow> heap \<Rightarrow> heap option" where
  "rc_free_fault base i h =
     do { (_, f) \<leftarrow> nth_fault base i h;
          h1 \<leftarrow> c_free (cf_node f) h;
          (_, f1) \<leftarrow> nth_fault base i h1;
          h2 \<leftarrow> c_free (cf_component f1) h1;
          (p, _) \<leftarrow> nth_fault base i h2;
          c_free p h2 }"

fun rc_free_loop :: "addr \<Rightarrow> nat \<Rightarrow> nat \<Rightarrow> heap \<Rightarrow> heap option" where
  "rc_free_loop base i 0 h = Some h"
| "rc_free_loop base i (Suc k) h =
     do { h1 \<leftarrow> rc_free_fault base i h; rc_free_loop base (Suc i) k h1 }"

definition rc_free_faults :: "replay_c \<Rightarrow> replay_c option" where
  "rc_free_faults s =
     do { h1 \<leftarrow> rc_free_loop (rc_faults s) 0 (rc_num_fault s) (rc_heap s);
          h2 \<leftarrow> c_free (rc_faults s) h1;
          Some (s\<lparr>rc_heap := h2\<rparr>) }"

text \<open>
  A new fault: the array grows by one pointer, the structure and the copies of the strings are
  allocated; the component stays NULL when it is empty.
\<close>

definition zero_fault :: c_fault where
  "zero_fault = \<lparr>cf_id = 0, cf_name = None, cf_component = NULL, cf_node = NULL, cf_severity = 0\<rparr>"

definition rc_add_fault :: "string \<Rightarrow> string \<Rightarrow> u64 \<Rightarrow> replay_c \<Rightarrow> replay_c option" where
  "rc_add_fault name cmp severity s =
     do { old \<leftarrow> (if rc_faults s = NULL then Some [] else pointers_at (rc_faults s) (rc_heap s));
          (arr, h1) \<leftarrow> c_realloc (rc_faults s) (Pointers (old @ [(NULL, 0)])) (rc_heap s);
          (f, h2) \<leftarrow> Some (c_alloc (Fault_struct zero_fault) h1);
          h3 \<leftarrow> set_pointer arr (rc_num_fault s) (f, 0) h2;
          (n, h4) \<leftarrow> Some (c_alloc (Chars name) h3);
          (c, h5) \<leftarrow> Some (if cmp = [] then (NULL, h4) else c_alloc (Chars cmp) h4);
          h6 \<leftarrow> c_store f (Fault_struct \<lparr>cf_id = ucast (rc_id s + 1), cf_name = None, cf_component = c,
                             cf_node = n, cf_severity = ucast severity\<rparr>) h5;
          Some (s\<lparr>rc_id := rc_id s + 1, rc_faults := arr, rc_num_fault := rc_num_fault s + 1, rc_heap := h6\<rparr>) }"

definition rc_line :: "file_env \<Rightarrow> string \<Rightarrow> replay_c \<Rightarrow> replay_c option" where
  "rc_line env buf s =
     (if strstr ''tic#'' buf then
        let s1 = s\<lparr>rc_nxt_tic := get_tic_num (fe_junk env (rc_file s)) buf\<rparr>
        in Some (if rc_nxt_tic s1 < rc_tic_num s1
                 then rc_logf LL_Warning ''[REPLAY] tic numbers not strict monotone'' s1 else s1)
      else case strchr (CHR '','') buf of
        None \<Rightarrow> Some (rc_logf LL_Warning ''[REPLAY] incomplete line'' s)
      | Some i \<Rightarrow>
          let name = take i buf; behind = drop (Suc i) buf
          in case strchr (CHR '','') behind of
               None \<Rightarrow> Some (rc_logf LL_Warning ''[REPLAY] incomplete line'' s)
             | Some j \<Rightarrow>
                 let cmp = take j behind; sev_str = drop (Suc j) behind
                 in case strtoul 0 sev_str of
                      None \<Rightarrow> Some (rc_logf LL_Warning ''[REPLAY] expected severity to be a number'' s)
                    | Some (severity, _) \<Rightarrow> rc_add_fault name cmp severity s)"

lemma rc_file_add_fault: "rc_add_fault name cmp severity s = Some s' \<Longrightarrow> rc_file s' = rc_file s"
  by (auto simp: rc_add_fault_def split: bind_splits prod.splits)

lemma rc_file_line: "rc_line env buf s = Some s' \<Longrightarrow> rc_file s' = rc_file s"
  by (auto simp: rc_line_def rc_logf_def Let_def rc_file_add_fault split: if_splits option.splits)

function rc_loop :: "file_env \<Rightarrow> addr \<Rightarrow> replay_c \<Rightarrow> (addr \<times> replay_c) option" where
  "rc_loop env buf s =
     (if rc_nxt_tic s < rc_tic_num s \<and> \<not> rc_done s then
        case rc_getline buf (rc_file s) (rc_heap s) of
          None \<Rightarrow> None
        | Some (None, b, h) \<Rightarrow> Some (b, s\<lparr>rc_done := True, rc_heap := h\<rparr>)
        | Some (Some (line, rest), b, h) \<Rightarrow>
            (case rc_line env (c_str line) (rc_log_line (c_str line) (s\<lparr>rc_file := rest, rc_heap := h\<rparr>)) of
               None \<Rightarrow> None
             | Some s' \<Rightarrow> rc_loop env b s')
      else Some (buf, s))"
  by pat_completeness auto
termination
  by (relation "measure (\<lambda>(env, buf, s). length (rc_file s))")
     (auto simp: rc_getline_def rc_log_line_def rc_logf_def dest!: rc_file_line dest: getline_less
       split: option.splits)

declare rc_loop.simps [simp del]

definition rc_tic :: "file_env \<Rightarrow> replay_c \<Rightarrow> replay_c option" where
  "rc_tic env s =
     do { s1 \<leftarrow> rc_free_faults s;
          s2 \<leftarrow> Some (s1\<lparr>rc_faults := NULL, rc_num_fault := 0\<rparr>);
          if rc_done s2 then Some s2
          else if rc_tic_num s2 < rc_nxt_tic s2 then Some (s2\<lparr>rc_tic_num := rc_tic_num s2 + 1\<rparr>)
          else do { (buf, s3) \<leftarrow> rc_loop env NULL (s2\<lparr>rc_tic_num := rc_tic_num s2 + 1\<rparr>);
                    h \<leftarrow> c_free buf (rc_heap s3);
                    Some (s3\<lparr>rc_heap := h\<rparr>) } }"

text \<open>\<open>get_fail\<close> hands out the array; the caller reads the faults through it.\<close>

definition read_fault :: "addr \<Rightarrow> nat \<Rightarrow> heap \<Rightarrow> fault option" where
  "read_fault base i h =
     do { (_, f) \<leftarrow> nth_fault base i h;
          n \<leftarrow> chars_at (cf_node f) h;
          c \<leftarrow> (if cf_component f = NULL then Some None else map_option Some (chars_at (cf_component f) h));
          Some \<lparr>fault_id = cf_id f, fault_name = cf_name f, fault_component = c, fault_node = n,
                fault_severity = cf_severity f\<rparr> }"

definition rc_get_fail :: "replay_c \<Rightarrow> addr \<times> nat" where
  "rc_get_fail s = (rc_faults s, rc_num_fault s)"

section \<open>Who owns the faults\<close>

text \<open>
  A fault in memory: the addresses of its structure, of the name of its node and of its component,
  and the fault itself.
\<close>

type_synonym fault_shape = "addr \<times> addr \<times> addr \<times> fault"

definition shape_fault :: "fault_shape \<Rightarrow> fault" where
  "shape_fault x = (case x of (q, n, c, f) \<Rightarrow> f)"

definition c_fault_of :: "fault_shape \<Rightarrow> c_fault" where
  "c_fault_of x = (case x of (q, n, c, f) \<Rightarrow>
     \<lparr>cf_id = fault_id f, cf_name = fault_name f, cf_component = (if fault_component f = None then NULL else c),
      cf_node = n, cf_severity = fault_severity f\<rparr>)"

definition fault_cells :: "fault_shape \<Rightarrow> cells" where
  "fault_cells x = (case x of (q, n, c, f) \<Rightarrow>
     [(q, Fault_struct (c_fault_of x)), (n, Chars (fault_node f))]
     @ (case fault_component f of None \<Rightarrow> [] | Some t \<Rightarrow> [(c, Chars t)]))"

definition array_cell :: "addr \<Rightarrow> fault_shape list \<Rightarrow> addr \<times> block" where
  "array_cell arr xs = (arr, Pointers (map (\<lambda>x. (fst x, 0)) xs))"

definition faults_cells :: "addr \<Rightarrow> fault_shape list \<Rightarrow> cells" where
  "faults_cells arr xs = (if xs = [] then [] else [array_cell arr xs]) @ concat (map fault_cells xs)"

text \<open>The globals of the plugin describe the faults \<open>xs\<close>, beside which the plugin owns \<open>rest\<close>.\<close>

definition holds_faults :: "replay_c \<Rightarrow> fault_shape list \<Rightarrow> cells \<Rightarrow> (addr \<rightharpoonup> block) \<Rightarrow> bool" where
  "holds_faults s xs rest fr \<longleftrightarrow> owns (rc_heap s) (faults_cells (rc_faults s) xs @ rest) fr
     \<and> rc_num_fault s = length xs \<and> (xs = [] \<longleftrightarrow> rc_faults s = NULL)"

lemma nth_fault_shape:
  assumes "owns h cs fr" "array_cell base xs \<in> set cs" "i < length xs"
    and "(fst (xs ! i), Fault_struct f) \<in> set cs"
  shows "nth_fault base i h = Some (fst (xs ! i), f)"
  using nth_fault_owned [OF assms(1), of base "map (\<lambda>x. (fst x, 0)) xs" i f] assms(2-)
  by (simp add: array_cell_def)

lemma free_fault_owned:
  assumes "owns h (array_cell base xs # fault_cells x @ rest) fr" "i < length xs" "xs ! i = x"
  shows "\<exists>h'. rc_free_fault base i h = Some h' \<and> owns h' (array_cell base xs # rest) fr"
proof -
  obtain q n c f where x: "x = (q, n, c, f)" by (cases x)
  let ?a = "array_cell base xs" and ?q = "(q, Fault_struct (c_fault_of x))"
  let ?c = "case fault_component f of None \<Rightarrow> [] | Some t \<Rightarrow> [(c, Chars t)]"
  have own: "owns h ((n, Chars (fault_node f)) # ?a # ?q # ?c @ rest) fr"
    by (rule owns_perm [OF assms(1)]) (simp add: x fault_cells_def)
  obtain h1 where 1: "c_free n h = Some h1" "owns h1 (?a # ?q # ?c @ rest) fr"
    using owns_free [OF own] by blast
  obtain h2 where 2: "c_free (cf_component (c_fault_of x)) h1 = Some h2" "owns h2 (?a # ?q # rest) fr"
  proof (cases "fault_component f")
    case None
    with 1(2) that show thesis by (auto simp: c_fault_of_def x)
  next
    case (Some t)
    then have "owns h1 ((c, Chars t) # ?a # ?q # rest) fr" by (intro owns_perm [OF 1(2)]) simp
    from owns_free [OF this] Some that show thesis by (auto simp: c_fault_of_def x)
  qed
  have "owns h2 (?q # ?a # rest) fr" by (rule owns_perm [OF 2(2)]) simp
  from owns_free [OF this] obtain h3 where 3: "c_free q h2 = Some h3" "owns h3 (?a # rest) fr" by blast
  have nth: "nth_fault base i h' = Some (q, c_fault_of x)" if "owns h' cs fr" "?a \<in> set cs" "?q \<in> set cs" for h' cs
    using nth_fault_shape [OF that(1,2), of i "c_fault_of x"] that(3) assms(2,3) x by simp
  have "nth_fault base i h = Some (q, c_fault_of x)" "nth_fault base i h1 = Some (q, c_fault_of x)"
    "nth_fault base i h2 = Some (q, c_fault_of x)"
    using nth [OF own] nth [OF 1(2)] nth [OF 2(2)] by simp_all
  with 1(1) 2(1) 3 x show ?thesis
    by (simp add: rc_free_fault_def) (simp add: c_fault_of_def)
qed

lemma free_loop_owned:
  assumes "owns h (array_cell base xs # concat (map fault_cells ys) @ rest) fr" "xs = zs @ ys"
  shows "\<exists>h'. rc_free_loop base (length zs) (length ys) h = Some h' \<and> owns h' (array_cell base xs # rest) fr"
  using assms
proof (induction ys arbitrary: zs h)
  case (Cons y ys)
  then obtain h1 where 1: "rc_free_fault base (length zs) h = Some h1"
    "owns h1 (array_cell base xs # concat (map fault_cells ys) @ rest) fr"
    using free_fault_owned [of h base xs y "concat (map fault_cells ys) @ rest" fr "length zs"] by auto
  with Cons.IH [OF 1(2), of "zs @ [y]"] Cons.prems show ?case by simp
qed simp

lemma free_faults_owned:
  assumes "holds_faults s xs rest fr"
  shows "\<exists>h. rc_free_faults s = Some (s\<lparr>rc_heap := h\<rparr>) \<and> owns h rest fr"
proof (cases "xs = []")
  case True
  with assms show ?thesis
    by (auto simp: holds_faults_def faults_cells_def rc_free_faults_def intro!: exI [of _ "rc_heap s"])
next
  case False
  then have "owns (rc_heap s) (array_cell (rc_faults s) xs # concat (map fault_cells xs) @ rest) fr"
    using assms by (simp add: holds_faults_def faults_cells_def)
  then obtain h1 where "rc_free_loop (rc_faults s) 0 (length xs) (rc_heap s) = Some h1"
    and 1: "owns h1 (array_cell (rc_faults s) xs # rest) fr"
    using free_loop_owned [of "rc_heap s" "rc_faults s" xs xs rest fr "[]"] by auto
  with owns_free [OF 1 [unfolded array_cell_def]] assms False show ?thesis
    by (auto simp: rc_free_faults_def holds_faults_def)
qed

text \<open>A fault that is added is owned together with the others.\<close>

text \<open>The array of faults grows by one pointer; it is a null pointer in front of the first fault.\<close>

lemma fault_array_grown:
  assumes "holds_faults s xs rest fr"
  obtains arr h where
    "c_realloc (rc_faults s) (Pointers (map (\<lambda>x. (fst x, 0)) xs @ [(0, 0)])) (rc_heap s) = Some (arr, h)" "0 < arr"
    "owns h ((arr, Pointers (map (\<lambda>x. (fst x, 0)) xs @ [(0, 0)])) # concat (map fault_cells xs) @ rest) fr"
    "(if rc_faults s = 0 then Some [] else pointers_at (rc_faults s) (rc_heap s)) = Some (map (\<lambda>x. (fst x, 0)) xs)"
proof -
  let ?ps = "map (\<lambda>x. (fst x, 0)) xs :: cptr list" and ?cs = "concat (map fault_cells xs) @ rest"
  show thesis
  proof (cases "xs = []")
    case True
    with assms have "rc_faults s = 0" "owns (rc_heap s) ?cs fr" by (simp_all add: holds_faults_def faults_cells_def)
    with owns_alloc_ex [of "rc_heap s" ?cs fr "Pointers (?ps @ [(0, 0)])"] True that show thesis
      by (auto simp: owns_realloc_NULL)
  next
    case False
    with assms have own: "owns (rc_heap s) ((rc_faults s, Pointers ?ps) # ?cs) fr"
      by (simp add: holds_faults_def faults_cells_def array_cell_def)
    with owns_realloc [OF own] owns_at [OF own, of "rc_faults s" "Pointers ?ps"] False assms that show thesis
      by (auto simp: holds_faults_def heap_reads)
  qed
qed

lemma add_fault_owned:
  assumes "holds_faults s xs rest fr"
  shows "\<exists>arr h q n c. rc_add_fault name cmp severity s =
      Some (s\<lparr>rc_id := rc_id s + 1, rc_faults := arr, rc_num_fault := rc_num_fault s + 1, rc_heap := h\<rparr>)
    \<and> holds_faults (s\<lparr>rc_id := rc_id s + 1, rc_faults := arr, rc_num_fault := rc_num_fault s + 1, rc_heap := h\<rparr>)
        (xs @ [(q, n, c, \<lparr>fault_id = ucast (rc_id s + 1), fault_name = None,
           fault_component = (if cmp = [] then None else Some cmp),
           fault_node = name, fault_severity = ucast severity\<rparr>)]) rest fr"
proof -
  let ?f = "\<lparr>fault_id = ucast (rc_id s + 1), fault_name = None,
     fault_component = (if cmp = [] then None else Some cmp), fault_node = name, fault_severity = ucast severity\<rparr>"
  let ?ps = "map (\<lambda>x. (fst x, 0)) xs :: cptr list" and ?cs = "concat (map fault_cells xs) @ rest"
  let ?old = "if rc_faults s = 0 then Some [] else pointers_at (rc_faults s) (rc_heap s)"
  have num: "rc_num_fault s = length xs" using assms by (simp add: holds_faults_def)
  obtain arr h1 where 1: "c_realloc (rc_faults s) (Pointers (?ps @ [(0, 0)])) (rc_heap s) = Some (arr, h1)" "0 < arr"
      "owns h1 ((arr, Pointers (?ps @ [(0, 0)])) # ?cs) fr" and old: "?old = Some ?ps"
    by (rule fault_array_grown [OF assms])
  obtain q h2 where 2: "c_alloc (Fault_struct zero_fault) h1 = (q, h2)"
    "owns h2 ((q, Fault_struct zero_fault) # (arr, Pointers (?ps @ [(0, 0)])) # ?cs) fr"
    using owns_alloc_ex [OF 1(3)] by blast
  have "owns h2 ((arr, Pointers (?ps @ [(0, 0)])) # (q, Fault_struct zero_fault) # ?cs) fr"
    by (rule owns_perm [OF 2(2)]) simp
  from owns_set_pointer [OF this, of "length xs" "(q, 0)"] obtain h3 where
    3: "set_pointer arr (length xs) (q, 0) h2 = Some h3"
      "owns h3 ((arr, Pointers (?ps @ [(q, 0)])) # (q, Fault_struct zero_fault) # ?cs) fr" by (auto simp: list_update_append)
  obtain n h4 where 4: "c_alloc (Chars name) h3 = (n, h4)"
    "owns h4 ((n, Chars name) # (arr, Pointers (?ps @ [(q, 0)])) # (q, Fault_struct zero_fault) # ?cs) fr"
    using owns_alloc_ex [OF 3(2)] by blast
  let ?c = "\<lambda>c. if cmp = [] then [] else [(c, Chars cmp)] :: cells"
  obtain c h5 where 5: "(if cmp = [] then (0, h4) else c_alloc (Chars cmp) h4) = (c, h5)" "cmp = [] \<longrightarrow> c = 0"
    "owns h5 (?c c @ (n, Chars name) # (arr, Pointers (?ps @ [(q, 0)])) # (q, Fault_struct zero_fault) # ?cs) fr"
    using 4(2) owns_alloc_ex [OF 4(2), of "Chars cmp"] that by (cases "cmp = []") auto
  let ?x = "(q, n, c, ?f)"
  have "owns h5 ((q, Fault_struct zero_fault) # ?c c @ (n, Chars name) # (arr, Pointers (?ps @ [(q, 0)])) # ?cs) fr"
    by (rule owns_perm [OF 5(3)]) simp
  from owns_store [OF this, of "Fault_struct (c_fault_of ?x)"] obtain h6 where 6:
    "c_store q (Fault_struct (c_fault_of ?x)) h5 = Some h6"
    "owns h6 ((q, Fault_struct (c_fault_of ?x)) # ?c c @ (n, Chars name) # (arr, Pointers (?ps @ [(q, 0)])) # ?cs) fr"
    by blast
  have own: "owns h6 (faults_cells arr (xs @ [?x]) @ rest) fr"
    by (rule owns_perm [OF 6(2)]) (simp add: faults_cells_def array_cell_def fault_cells_def)
  have "rc_add_fault name cmp severity s =
      Some (s\<lparr>rc_id := rc_id s + 1, rc_faults := arr, rc_num_fault := rc_num_fault s + 1, rc_heap := h6\<rparr>)"
    unfolding rc_add_fault_def
    using old 1(1) 2(1) 3(1) 4(1) 5(1,2) 6(1) num by (simp add: c_fault_of_def split: if_splits)
  with own 1(2) num show ?thesis unfolding holds_faults_def by fastforce
qed

section \<open>Refinement of the tics\<close>

text \<open>The globals that are no pointers agree.\<close>

definition same_globals :: "replay_c \<Rightarrow> replay \<Rightarrow> bool" where
  "same_globals s r \<longleftrightarrow> rp_tic_num r = rc_tic_num s \<and> rp_nxt_tic r = rc_nxt_tic s \<and> rp_id r = rc_id s
     \<and> rp_file r = rc_file s \<and> rp_done r = rc_done s \<and> rp_log r = rc_log s"

definition refines :: "replay_c \<Rightarrow> replay \<Rightarrow> cells \<Rightarrow> (addr \<rightharpoonup> block) \<Rightarrow> bool" where
  "refines s r rest fr \<longleftrightarrow> same_globals s r \<and> (\<exists>xs. holds_faults s xs rest fr \<and> rp_faults r = map shape_fault xs)"

lemma same_globals_log [simp]:
  "same_globals s r \<Longrightarrow> same_globals (rc_logf l m s) (rp_logf l m r)"
  "same_globals s r \<Longrightarrow> same_globals (rc_log_line m s) (rp_log_line m r)"
  by (simp_all add: same_globals_def rc_logf_def rp_logf_def rc_log_line_def rp_log_line_def)

lemma holds_faults_log [simp]:
  "holds_faults (rc_logf l m s) xs rest fr = holds_faults s xs rest fr"
  "holds_faults (rc_log_line m s) xs rest fr = holds_faults s xs rest fr"
  by (simp_all add: holds_faults_def rc_logf_def rc_log_line_def)

lemma refines_log [simp]:
  "refines s r rest fr \<Longrightarrow> refines (rc_logf l m s) (rp_logf l m r) rest fr"
  "refines s r rest fr \<Longrightarrow> refines (rc_log_line m s) (rp_log_line m r) rest fr"
  by (auto simp: refines_def) (auto simp: rp_logf_def rp_log_line_def)

lemma rc_nodes_log [simp]:
  "rc_nodes (rc_logf l m s) = rc_nodes s" "rc_nodes (rc_log_line m s) = rc_nodes s"
  "rc_node_ptr (rc_logf l m s) = rc_node_ptr s" "rc_node_ptr (rc_log_line m s) = rc_node_ptr s"
  "rc_nodes_num (rc_logf l m s) = rc_nodes_num s" "rc_nodes_num (rc_log_line m s) = rc_nodes_num s"
  by (simp_all add: rc_logf_def rc_log_line_def)

text \<open>The globals that describe the nodes are not touched by the tics.\<close>

definition same_nodes :: "replay_c \<Rightarrow> replay_c \<Rightarrow> bool" where
  "same_nodes s s' \<longleftrightarrow> rc_nodes s' = rc_nodes s \<and> rc_node_ptr s' = rc_node_ptr s \<and> rc_nodes_num s' = rc_nodes_num s"

lemma add_fault_refines:
  assumes "refines s r rest fr"
  shows "\<exists>s'. rc_add_fault name cmp severity s = Some s' \<and> refines s' (add_fault name cmp severity r) rest fr
    \<and> same_nodes s s'"
proof -
  obtain xs where xs: "holds_faults s xs rest fr" "rp_faults r = map shape_fault xs" "same_globals s r"
    using assms by (auto simp: refines_def)
  let ?f = "\<lparr>fault_id = ucast (rc_id s + 1), fault_name = None,
     fault_component = (if cmp = [] then None else Some cmp), fault_node = name, fault_severity = ucast severity\<rparr>"
  let ?s = "\<lambda>arr h. s\<lparr>rc_id := rc_id s + 1, rc_faults := arr, rc_num_fault := rc_num_fault s + 1, rc_heap := h\<rparr>"
  obtain arr h q n c where 1: "rc_add_fault name cmp severity s = Some (?s arr h)"
    "holds_faults (?s arr h) (xs @ [(q, n, c, ?f)]) rest fr" using add_fault_owned [OF xs(1)] by blast
  have "rp_faults (add_fault name cmp severity r) = map shape_fault (xs @ [(q, n, c, ?f)])"
    using xs(2,3) by (simp add: add_fault_def shape_fault_def same_globals_def)
  moreover have "same_globals (?s arr h) (add_fault name cmp severity r)"
    using xs(3) by (simp add: add_fault_def same_globals_def)
  ultimately have "refines (?s arr h) (add_fault name cmp severity r) rest fr"
    using 1(2) unfolding refines_def by blast
  with 1(1) show ?thesis by (auto simp: same_nodes_def)
qed

lemma same_nodes_refl [simp]: "same_nodes s s" "same_nodes s (rc_logf l m s)" "same_nodes s (rc_log_line m s)"
  by (simp_all add: same_nodes_def)

lemma same_nodes_trans: "same_nodes s s' \<Longrightarrow> same_nodes s' s'' \<Longrightarrow> same_nodes s s''"
  by (simp add: same_nodes_def)

lemma line_refines:
  assumes "refines s r rest fr"
  shows "\<exists>s'. rc_line env buf s = Some s' \<and> refines s' (replay_line (file_env env) buf r) rest fr \<and> same_nodes s s'"
proof (cases "strstr ''tic#'' buf")
  case True
  let ?nxt = "get_tic_num (fe_junk env (rc_file s)) buf"
  have fl: "rp_file r = rc_file s" "rp_tic_num r = rc_tic_num s" using assms by (auto simp: refines_def same_globals_def)
  have "refines (s\<lparr>rc_nxt_tic := ?nxt\<rparr>) (r\<lparr>rp_nxt_tic := ?nxt\<rparr>) rest fr" "same_nodes s (s\<lparr>rc_nxt_tic := ?nxt\<rparr>)"
    using assms by (auto simp: refines_def same_globals_def holds_faults_def same_nodes_def)
  with True fl show ?thesis
    using same_nodes_trans [of s "s\<lparr>rc_nxt_tic := ?nxt\<rparr>"]
    by (simp add: rc_line_def replay_line_def Let_def)
next
  case False
  with assms add_fault_refines [OF assms] show ?thesis
    by (auto simp: rc_line_def replay_line_def Let_def split: option.split)
qed

text \<open>The line buffer, when there is one, is a block of the plugin's own.\<close>

definition buf_cells :: "addr \<Rightarrow> string \<Rightarrow> cells" where
  "buf_cells buf t = (if buf = NULL then [] else [(buf, Chars t)])"

lemma getline_owned:
  assumes "owns h (cs @ buf_cells buf t) fr"
  shows "\<exists>b h' t'. rc_getline buf txt h = Some (getline txt, b, h') \<and> owns h' (cs @ buf_cells b t') fr"
proof -
  have alloc: "\<exists>b h'. c_alloc bl h = (b, h') \<and> 0 < b \<and> owns h' (cs @ [(b, bl)]) fr" if "buf = 0" for bl
    using owns_alloc_ex [of h cs fr bl] assms that owns_perm [of _ "(_, bl) # cs" fr "cs @ [(_, bl)]"]
    by (auto simp: buf_cells_def)
  have realloc: "\<exists>b h'. c_realloc buf bl h = Some (b, h') \<and> 0 < b \<and> owns h' (cs @ [(b, bl)]) fr" for bl
  proof (cases "buf = 0")
    case True
    with alloc [of bl] show ?thesis by (auto simp: owns_realloc_NULL)
  next
    case False
    with assms have "owns h ((buf, Chars t) # cs) fr" by (intro owns_perm [OF assms]) (simp add: buf_cells_def)
    from owns_realloc [OF this, of bl] owns_perm [of _ "(_, bl) # cs" fr "cs @ [(_, bl)]"] show ?thesis by auto
  qed
  show ?thesis
  proof (cases "getline txt")
    case None
    with alloc [of "Chars []"] assms show ?thesis
      by (cases "buf = 0") (auto simp: rc_getline_def buf_cells_def)
  next
    case (Some lr)
    with realloc [of "Chars (fst lr)"] show ?thesis
      by (auto simp: rc_getline_def buf_cells_def split_beta)
  qed
qed

lemma getline_refines:
  assumes "refines s r (buf_cells buf t) fr"
  obtains b h t' where "rc_getline buf (rc_file s) (rc_heap s) = Some (getline (rc_file s), b, h)"
    "refines (s\<lparr>rc_done := d, rc_heap := h\<rparr>) (r\<lparr>rp_done := d\<rparr>) (buf_cells b t') fr"
    "\<And>line rest. refines (rc_log_line line (s\<lparr>rc_file := rest, rc_heap := h\<rparr>)) (rp_log_line line (r\<lparr>rp_file := rest\<rparr>)) (buf_cells b t') fr"
proof -
  obtain xs where xs: "holds_faults s xs (buf_cells buf t) fr" "rp_faults r = map shape_fault xs"
    "same_globals s r" using assms by (auto simp: refines_def)
  obtain b h t' where get: "rc_getline buf (rc_file s) (rc_heap s) = Some (getline (rc_file s), b, h)"
    "owns h (faults_cells (rc_faults s) xs @ buf_cells b t') fr"
    using getline_owned [of "rc_heap s" "faults_cells (rc_faults s) xs" buf t fr "rc_file s"] xs(1)
    unfolding holds_faults_def by blast
  have "refines (s\<lparr>rc_done := d, rc_heap := h\<rparr>) (r\<lparr>rp_done := d\<rparr>) (buf_cells b t') fr"
    "refines (s\<lparr>rc_file := rest, rc_heap := h\<rparr>) (r\<lparr>rp_file := rest\<rparr>) (buf_cells b t') fr" for rest
    using get(2) xs by (auto simp: refines_def holds_faults_def same_globals_def)
  then show thesis by (intro that [OF get(1)] refines_log)
qed

lemma loop_refines:
  assumes "refines s r (buf_cells buf t) fr"
  shows "\<exists>b t' s'. rc_loop env buf s = Some (b, s') \<and> refines s' (replay_loop (file_env env) r) (buf_cells b t') fr
    \<and> same_nodes s s'"
  using assms
proof (induction env buf s arbitrary: r t rule: rc_loop.induct)
  case (1 env buf s)
  have g: "rp_nxt_tic r = rc_nxt_tic s" "rp_tic_num r = rc_tic_num s" "rp_done r = rc_done s" "rp_file r = rc_file s"
    using 1(2) by (auto simp: refines_def same_globals_def)
  show ?case
  proof (cases "rc_nxt_tic s < rc_tic_num s \<and> \<not> rc_done s")
    case False
    with 1(2) g show ?thesis by (subst rc_loop.simps, subst replay_loop.simps) auto
  next
    case True
    obtain b h' t' where get: "rc_getline buf (rc_file s) (rc_heap s) = Some (getline (rc_file s), b, h')"
      and last: "refines (s\<lparr>rc_done := True, rc_heap := h'\<rparr>) (r\<lparr>rp_done := True\<rparr>) (buf_cells b t') fr"
      and go: "\<And>line rest. refines (rc_log_line line (s\<lparr>rc_file := rest, rc_heap := h'\<rparr>)) (rp_log_line line (r\<lparr>rp_file := rest\<rparr>)) (buf_cells b t') fr"
      using getline_refines [OF 1(2)] by metis
    show ?thesis
    proof (cases "getline (rc_file s)")
      case None
      with last None True get g show ?thesis
        by (subst rc_loop.simps, subst replay_loop.simps) (auto simp: same_nodes_def)
    next
      case (Some lr)
      obtain line rest where lr: "lr = (line, rest)" by (cases lr)
      let ?s = "rc_log_line (c_str line) (s\<lparr>rc_file := rest, rc_heap := h'\<rparr>)"
      let ?r = "rp_log_line (c_str line) (r\<lparr>rp_file := rest\<rparr>)"
      from line_refines [OF go, of env "c_str line"] obtain s1 where
        s1: "rc_line env (c_str line) ?s = Some s1" "refines s1 (replay_line (file_env env) (c_str line) ?r) (buf_cells b t') fr"
          "same_nodes ?s s1" by blast
      from 1(1) [OF True get refl Some lr [symmetric] refl s1(1,2)] obtain b2 t2 s2 where
        s2: "rc_loop env b s1 = Some (b2, s2)" "same_nodes s1 s2"
          "refines s2 (replay_loop (file_env env) (replay_line (file_env env) (c_str line) ?r)) (buf_cells b2 t2) fr"
        by blast
      have "same_nodes s s2" using s1(3) s2(2) by (simp add: same_nodes_def)
      with s1 s2 Some lr True get g show ?thesis
        by (subst rc_loop.simps, subst replay_loop.simps) auto
    qed
  qed
qed

lemma tic_refines:
  assumes "refines s r [] fr"
  shows "\<exists>s'. rc_tic env s = Some s' \<and> refines s' (replay_tic (file_env env) r) [] fr \<and> same_nodes s s'"
proof -
  obtain h where free: "rc_free_faults s = Some (s\<lparr>rc_heap := h\<rparr>)" "owns h [] fr"
    using assms free_faults_owned by (fastforce simp: refines_def)
  let ?s = "s\<lparr>rc_heap := h, rc_faults := 0, rc_num_fault := 0\<rparr>"
  have ref: "refines ?s (r\<lparr>rp_faults := []\<rparr>) [] fr"
    using assms free(2) by (auto simp: refines_def holds_faults_def same_globals_def faults_cells_def)
  let ?s1 = "?s\<lparr>rc_tic_num := rc_tic_num s + 1\<rparr>" and ?r1 = "r\<lparr>rp_faults := [], rp_tic_num := rp_tic_num r + 1\<rparr>"
  have g: "rp_nxt_tic r = rc_nxt_tic s" "rp_tic_num r = rc_tic_num s" "rp_done r = rc_done s"
    using assms by (auto simp: refines_def same_globals_def)
  have ref1: "refines ?s1 ?r1 [] fr" using ref g by (auto simp: refines_def holds_faults_def same_globals_def)
  then obtain b t s2 where loop: "rc_loop env 0 ?s1 = Some (b, s2)" "same_nodes ?s1 s2"
    "refines s2 (replay_loop (file_env env) ?r1) (buf_cells b t) fr"
    using loop_refines [of ?s1 ?r1 0 "[]" fr env] by (auto simp: buf_cells_def)
  obtain xs where xs: "holds_faults s2 xs (buf_cells b t) fr" "same_globals s2 (replay_loop (file_env env) ?r1)"
    "rp_faults (replay_loop (file_env env) ?r1) = map shape_fault xs" using loop(3) by (auto simp: refines_def)
  obtain h2 where h2: "c_free b (rc_heap s2) = Some h2" "owns h2 (faults_cells (rc_faults s2) xs) fr"
  proof (cases "b = 0")
    case True
    with xs(1) that show thesis by (simp add: holds_faults_def buf_cells_def)
  next
    case False
    with xs(1) have "owns (rc_heap s2) ((b, Chars t) # faults_cells (rc_faults s2) xs) fr"
      by (auto simp: holds_faults_def buf_cells_def intro: owns_perm)
    from owns_free [OF this] that show thesis by blast
  qed
  have "refines (s2\<lparr>rc_heap := h2\<rparr>) (replay_loop (file_env env) ?r1) [] fr" "same_nodes s (s2\<lparr>rc_heap := h2\<rparr>)"
    using h2(2) xs loop(2) by (auto simp: refines_def holds_faults_def same_globals_def same_nodes_def)
  with free(1) loop(1) h2(1) ref ref1 g show ?thesis
    by (auto simp: rc_tic_def replay_tic_def Let_def same_nodes_def)
qed

text \<open>What the server reads through the array are the faults of the model.\<close>

lemma read_fault_owned:
  assumes "holds_faults s xs rest fr" "i < length xs"
  shows "read_fault (rc_faults s) i (rc_heap s) = Some (shape_fault (xs ! i))"
proof -
  obtain q n c f where x: "xs ! i = (q, n, c, f)" by (cases "xs ! i")
  let ?cs = "faults_cells (rc_faults s) xs @ rest"
  have own: "owns (rc_heap s) ?cs fr" and ne: "xs \<noteq> []" using assms by (auto simp: holds_faults_def)
  have sub: "set (fault_cells (xs ! i)) \<subseteq> set ?cs" using nth_mem [OF assms(2)] by (auto simp: faults_cells_def)
  have "nth_fault (rc_faults s) i (rc_heap s) = Some (q, c_fault_of (xs ! i))"
    using nth_fault_shape [OF own _ assms(2), of "rc_faults s" "c_fault_of (xs ! i)"] sub ne x
    by (auto simp: faults_cells_def fault_cells_def)
  moreover have "hp_mem (rc_heap s) n = Some (Chars (fault_node f))"
    using owns_at [OF own, of n "Chars (fault_node f)"] sub x by (auto simp: fault_cells_def)
  moreover have "hp_mem (rc_heap s) c = Some (Chars t)" "c \<noteq> 0" if "fault_component f = Some t" for t
    using owns_at [OF own, of c "Chars t"] owns_pos [OF own, of c "Chars t"] sub x that by (auto simp: fault_cells_def)
  ultimately show ?thesis
    by (cases "fault_component f") (simp_all add: read_fault_def shape_fault_def c_fault_of_def x heap_reads)
qed

lemma refines_faults:
  assumes "refines s r rest fr"
  shows "map (\<lambda>i. read_fault (rc_faults s) i (rc_heap s)) [0..<rc_num_fault s] = map Some (rp_faults r)"
proof -
  obtain xs where xs: "holds_faults s xs rest fr" "rp_faults r = map shape_fault xs" using assms by (auto simp: refines_def)
  then have "rc_num_fault s = length xs" by (simp add: holds_faults_def)
  with xs show ?thesis by (intro nth_equalityI) (simp_all add: read_fault_owned)
qed

end
