(* ===== verification/Replay_Nodes.thy ===== *)
theory Replay_Nodes
  imports Replay_Memory
begin

text \<open>
  The replay plugin with its memory, continued: \<open>get_nodes\<close> with the arrays and strings it allocates,
  \<open>cleanup\<close>, and what is left of the memory behind a whole run.
\<close>

section \<open>Nodes\<close>

text \<open>
  The components of a node: each gets an element of the array of pointers and of the array of
  structures, and a copy of its name. None in the result is a line that ends too early.
\<close>

fun rc_components :: "nat \<Rightarrow> nat \<Rightarrow> addr \<Rightarrow> addr \<Rightarrow> string \<Rightarrow> heap \<Rightarrow> (string option \<times> heap) option" where
  "rc_components 0 j cp comps r h = Some (Some r, h)"
| "rc_components (Suc k) j cp comps r h =
     (case strtok csv_delim r of
        None \<Rightarrow> Some (None, h)
      | Some (cur, r') \<Rightarrow>
          do { h1 \<leftarrow> set_pointer cp j (comps, j) h;
               (nm, h2) \<leftarrow> Some (c_alloc (Chars cur) h1);
               h3 \<leftarrow> update_component comps j (\<lambda>c. c\<lparr>cc_name := nm\<rparr>) h2;
               rc_components k (Suc j) cp comps r' h3 })"

definition zero_node :: c_node where
  "zero_node = \<lparr>cn_name = NULL, cn_id = 0, cn_type = uniform_node, cn_state = 0, cn_num_components = 0,
               cn_components = NULL\<rparr>"

definition zero_component :: c_component where
  "zero_component = \<lparr>cc_name = NULL, cc_severity = 0\<rparr>"

text \<open>The rest of a node's line: the number of components and the components.\<close>

definition rc_node_rest :: "nat \<Rightarrow> addr \<Rightarrow> string \<Rightarrow> replay_c \<Rightarrow> (step_result \<times> addr \<times> replay_c) option" where
  "rc_node_rest i b r1 s =
     (case strtok csv_delim r1 of
        None \<Rightarrow> Some (Step_error 1, b, rc_logf LL_Error ''[REPLAY] unexpected end of line'' s)
      | Some (cnt, r2) \<Rightarrow>
          do { num \<leftarrow> Some (ucast (strtoul_val 0 cnt) :: u32);
               (cp, h1) \<leftarrow> Some (c_alloc (Pointers (replicate (unat num) (NULL, 0))) (rc_heap s));
               h2 \<leftarrow> update_node (rc_nodes s) i (\<lambda>n. n\<lparr>cn_num_components := num, cn_components := cp\<rparr>) h1;
               (comps, h3) \<leftarrow> Some (c_alloc (Component_array (replicate (unat num) zero_component)) h2);
               (r3, h4) \<leftarrow> rc_components (unat num) 0 cp comps r2 h3;
               s1 \<leftarrow> Some (s\<lparr>rc_heap := h4\<rparr>);
               case r3 of
                 None \<Rightarrow> Some (Step_error 1, b, rc_logf LL_Error ''[REPLAY] unexpected end of line'' s1)
               | Some r4 \<Rightarrow>
                   Some (Step_ok, b,
                     if strtok csv_delim r4 \<noteq> None
                     then rc_logf LL_Warning ''[REPLAY] garbage at the end of the line'' s1 else s1) })"

text \<open>The body of the loop over the nodes; \<open>lau\<close> is the array of pointers that the server gets.\<close>

definition rc_read_node ::
  "file_env \<Rightarrow> addr \<Rightarrow> nat \<Rightarrow> addr \<Rightarrow> replay_c \<Rightarrow> (step_result \<times> addr \<times> replay_c) option" where
  "rc_read_node env lau i buf s =
     do { (l, b, h) \<leftarrow> rc_getline buf (rc_file s) (rc_heap s);
          case l of
            None \<Rightarrow> Some (Step_error 1, b, rc_logf LL_Error ''[REPLAY] unable to read line'' (s\<lparr>rc_heap := h\<rparr>))
          | Some (line, rest) \<Rightarrow>
              do { s1 \<leftarrow> Some (rc_log_line (c_str line) (s\<lparr>rc_file := rest\<rparr>));
                   h1 \<leftarrow> set_pointer lau i (rc_nodes s, i) h;
                   h2 \<leftarrow> update_node (rc_nodes s) i
                          (\<lambda>n. n\<lparr>cn_id := of_nat i, cn_type := uniform_node, cn_state := NODE_STATE_UNKNOWN\<rparr>) h1;
                   (name, r1) \<leftarrow> strtok csv_delim (c_str line);
                   if \<not> fe_calloc env rest
                   then do { h3 \<leftarrow> update_node (rc_nodes s) i (\<lambda>n. n\<lparr>cn_name := NULL\<rparr>) h2;
                             Some (Step_error 1, b, rc_logf LL_Error
                               ''[REPLAY] not enough memory to allocate node name'' (s1\<lparr>rc_heap := h3\<rparr>)) }
                   else do { (nm, h3) \<leftarrow> Some (c_alloc (Chars name) h2);
                             h4 \<leftarrow> update_node (rc_nodes s) i (\<lambda>n. n\<lparr>cn_name := nm\<rparr>) h3;
                             rc_node_rest i b r1 (s1\<lparr>rc_heap := h4\<rparr>) } } }"

fun rc_read_nodes ::
  "file_env \<Rightarrow> addr \<Rightarrow> nat \<Rightarrow> nat \<Rightarrow> addr \<Rightarrow> replay_c \<Rightarrow> (step_result \<times> addr \<times> replay_c) option" where
  "rc_read_nodes env lau 0 i buf s = Some (Step_ok, buf, s)"
| "rc_read_nodes env lau (Suc k) i buf s =
     (case rc_read_node env lau i buf s of
        None \<Rightarrow> None
      | Some (Step_ok, b, s') \<Rightarrow> rc_read_nodes env lau k (Suc i) b s'
      | Some (r, b, s') \<Rightarrow> Some (r, b, s'))"

text \<open>The first tic line; the message about another line is formatted in a buffer and dropped.\<close>

definition rc_read_first_tic :: "file_env \<Rightarrow> addr \<Rightarrow> replay_c \<Rightarrow> (addr \<times> replay_c) option" where
  "rc_read_first_tic env buf s =
     do { (l, b, h) \<leftarrow> rc_getline buf (rc_file s) (rc_heap s);
          case l of
            None \<Rightarrow> Some (b, rc_logf LL_Warning ''[REPLAY] no tic information present'' (s\<lparr>rc_heap := h\<rparr>))
          | Some (line, rest) \<Rightarrow>
              do { s1 \<leftarrow> Some (rc_log_line (c_str line) (s\<lparr>rc_file := rest, rc_heap := h\<rparr>));
                   if strstr ''tic'' (c_str line)
                   then Some (b, s1\<lparr>rc_nxt_tic := get_tic_num (fe_junk env rest) (c_str line)\<rparr>)
                   else do { (cur, h1) \<leftarrow> Some (c_alloc
                               (Chars (snprintf 256 (''[REPLAY] expected [tic#<n>], found '' @ c_str line))) h);
                             h2 \<leftarrow> c_free cur h1;
                             Some (b, s1\<lparr>rc_heap := h2\<rparr>) } } }"

text \<open>The loop over the nodes and what stands behind it; the error returns keep the line buffer.\<close>

definition rc_fill_nodes :: "file_env \<Rightarrow> addr \<Rightarrow> nat \<Rightarrow> addr \<Rightarrow> replay_c \<Rightarrow> (int \<times> addr \<times> replay_c) option" where
  "rc_fill_nodes env lau num buf s =
     do { (r, b1, s1) \<leftarrow> rc_read_nodes env lau num 0 buf s;
          case r of
            Step_ok \<Rightarrow>
              do { (b2, s2) \<leftarrow> rc_read_first_tic env b1 s1;
                   h \<leftarrow> c_free b2 (rc_heap s2);
                   Some (0, lau, s2\<lparr>rc_heap := h\<rparr>) }
          | Step_error e \<Rightarrow> Some (e, lau, s1)
          | Step_crash \<Rightarrow> None }"

text \<open>
  \<open>get_nodes\<close>: the result is the return value with the array the server gets. \<open>old\<close> is the value of
  the server's pointer before the call, which \<open>node_ptr\<close> keeps.
\<close>

definition rc_get_nodes :: "file_env \<Rightarrow> addr \<Rightarrow> replay_c \<Rightarrow> (int \<times> addr \<times> replay_c) option" where
  "rc_get_nodes env old s =
     do { (l, b, h) \<leftarrow> rc_getline NULL (rc_file s) (rc_heap s);
          s0 \<leftarrow> Some (s\<lparr>rc_node_ptr := old, rc_heap := h\<rparr>);
          case l of
            None \<Rightarrow> Some (1, old, rc_logf LL_Error ''[REPLAY] unable to read line'' s0)
          | Some (line, rest) \<Rightarrow>
              do { num \<leftarrow> Some (strtoul_val 0 (c_str line));
                   s1 \<leftarrow> Some (rc_logf LL_Debug (snprintf 512 (''[REPLAY] nodes_num: '' @ show_unsigned num))
                          (rc_log_line (c_str line) (s0\<lparr>rc_file := rest, rc_nodes_num := num\<rparr>)));
                   if strtoul 0 (c_str line) = None
                   then Some (1, old, rc_logf LL_Error ''[REPLAY] unable to read number of nodes'' s1)
                   else if \<not> fe_calloc env rest
                   then Some (1, NULL, rc_logf LL_Error ''[REPLAY] not enough memory'' (s1\<lparr>rc_nodes := NULL\<rparr>))
                   else do { (nodes, h1) \<leftarrow> Some (c_alloc (Node_array (replicate (unat num) zero_node)) h);
                             (lau, h2) \<leftarrow> Some (c_alloc (Pointers (replicate (unat num) (NULL, 0))) h1);
                             rc_fill_nodes env lau (unat num) b (s1\<lparr>rc_nodes := nodes, rc_heap := h2\<rparr>) } } }"

section \<open>Clean-up\<close>

fun rc_free_components :: "addr \<Rightarrow> nat \<Rightarrow> nat \<Rightarrow> heap \<Rightarrow> heap option" where
  "rc_free_components nodes i 0 h = Some h"
| "rc_free_components nodes i (Suc k) h =
     do { ns \<leftarrow> nodes_at nodes h; n \<leftarrow> nth_opt ns i; h1 \<leftarrow> c_free (cn_components n) h;
          rc_free_components nodes (Suc i) k h1 }"

definition rc_cleanup :: "replay_c \<Rightarrow> replay_c option" where
  "rc_cleanup s =
     do { s1 \<leftarrow> rc_free_faults s;
          h1 \<leftarrow> rc_free_components (rc_nodes s1) 0 (unat (rc_nodes_num s1)) (rc_heap s1);
          h2 \<leftarrow> c_free (rc_nodes s1) h1;
          h3 \<leftarrow> c_free (rc_node_ptr s1) h2;
          Some (s1\<lparr>rc_heap := h3\<rparr>) }"

definition rc_start :: "string \<Rightarrow> heap \<Rightarrow> replay_c" where
  "rc_start txt h =
     \<lparr>rc_tic_num = 0, rc_nxt_tic = 0, rc_id = 0, rc_file = txt, rc_done = False, rc_log = [], rc_nodes = NULL,
      rc_node_ptr = NULL, rc_nodes_num = 0, rc_faults = NULL, rc_num_fault = 0, rc_heap = h\<rparr>"

section \<open>Who owns the nodes\<close>

text \<open>
  A node in memory: the addresses of its name, of its array of component pointers, of its array of
  components and of the names of these, and the node itself.
\<close>

type_synonym node_shape = "addr \<times> addr \<times> addr \<times> addr list \<times> node"

definition shape_node :: "node_shape \<Rightarrow> node" where
  "shape_node x = (case x of (nm, cp, comps, as, n) \<Rightarrow> n)"

definition shape_ok :: "node_shape \<Rightarrow> bool" where
  "shape_ok x = (case x of (nm, cp, comps, as, n) \<Rightarrow> length as = length (components n))"

definition c_node_of :: "node_shape \<Rightarrow> c_node" where
  "c_node_of x = (case x of (nm, cp, comps, as, n) \<Rightarrow>
     \<lparr>cn_name = nm, cn_id = node_id n, cn_type = node_type n, cn_state = node_state n,
      cn_num_components = num_components n, cn_components = cp\<rparr>)"

definition c_component_of :: "addr \<Rightarrow> component \<Rightarrow> c_component" where
  "c_component_of a c = \<lparr>cc_name = a, cc_severity = comp_severity c\<rparr>"

definition name_cells :: "addr list \<Rightarrow> component list \<Rightarrow> cells" where
  "name_cells as cs = zip as (map (\<lambda>c. Chars (comp_name c)) cs)"

text \<open>The blocks of a node that nothing frees, and the one that the clean-up frees.\<close>

definition leaked_cells :: "node_shape \<Rightarrow> cells" where
  "leaked_cells x = (case x of (nm, cp, comps, as, n) \<Rightarrow>
     [(nm, Chars (node_name n)), (comps, Component_array (map2 c_component_of as (components n)))]
     @ name_cells as (components n))"

definition pointer_cell :: "node_shape \<Rightarrow> addr \<times> block" where
  "pointer_cell x = (case x of (nm, cp, comps, as, n) \<Rightarrow>
     (cp, Pointers (map (Pair comps) [0..<length (components n)])))"

definition nodes_cell :: "addr \<Rightarrow> node_shape list \<Rightarrow> nat \<Rightarrow> addr \<times> block" where
  "nodes_cell nodes xs m = (nodes, Node_array (map c_node_of xs @ replicate m zero_node))"

definition lau_cell :: "addr \<Rightarrow> addr \<Rightarrow> nat \<Rightarrow> nat \<Rightarrow> addr \<times> block" where
  "lau_cell lau nodes i m = (lau, Pointers (map (Pair nodes) [0..<i] @ replicate m (NULL, 0)))"

text \<open>The nodes \<open>xs\<close> are read, \<open>m\<close> more are to come.\<close>

definition nodes_cells :: "addr \<Rightarrow> addr \<Rightarrow> node_shape list \<Rightarrow> nat \<Rightarrow> cells" where
  "nodes_cells nodes lau xs m =
     nodes_cell nodes xs m # lau_cell lau nodes (length xs) m # map pointer_cell xs @ concat (map leaked_cells xs)"

text \<open>One component: its pointer, the copy of its name, and the element of the array.\<close>

lemma component_step:
  assumes "owns h ((cp, Pointers (map (Pair comps) [0..<j] @ replicate (Suc k) (0, 0)))
      # (comps, Component_array (xs @ replicate (Suc k) zero_component)) # rest) fr" "length xs = j"
  obtains h1 nm h2 h3 where "set_pointer cp j (comps, j) h = Some h1" "c_alloc (Chars cur) h1 = (nm, h2)"
    "update_component comps j (\<lambda>c. c\<lparr>cc_name := nm\<rparr>) h2 = Some h3"
    "owns h3 ((cp, Pointers (map (Pair comps) [0..<Suc j] @ replicate k (0, 0)))
        # (comps, Component_array ((xs @ [\<lparr>cc_name = nm, cc_severity = 0\<rparr>]) @ replicate k zero_component)) # (nm, Chars cur) # rest) fr"
proof -
  let ?ps = "map (Pair comps) [0..<j]" and ?z = "replicate k (0, 0) :: cptr list"
  let ?zc = "replicate k zero_component"
  from owns_set_pointer [OF assms(1), of j "(comps, j)"] obtain h1 where
    1: "set_pointer cp j (comps, j) h = Some h1"
      "owns h1 ((cp, Pointers (?ps @ (comps, j) # ?z)) # (comps, Component_array (xs @ replicate (Suc k) zero_component)) # rest) fr"
    by (auto simp: list_update_append)
  obtain nm h2 where 2: "c_alloc (Chars cur) h1 = (nm, h2)"
    "owns h2 ((nm, Chars cur) # (cp, Pointers (?ps @ (comps, j) # ?z))
       # (comps, Component_array (xs @ replicate (Suc k) zero_component)) # rest) fr"
    using owns_alloc_ex [OF 1(2)] by blast
  have "owns h2 ((comps, Component_array (xs @ replicate (Suc k) zero_component)) # (nm, Chars cur)
      # (cp, Pointers (?ps @ (comps, j) # ?z)) # rest) fr" by (rule owns_perm [OF 2(2)]) simp
  from owns_update_component [OF this, of j "\<lambda>c. c\<lparr>cc_name := nm\<rparr>"] assms(2) obtain h3 where
    3: "update_component comps j (\<lambda>c. c\<lparr>cc_name := nm\<rparr>) h2 = Some h3"
      "owns h3 ((comps, Component_array (xs @ \<lparr>cc_name = nm, cc_severity = 0\<rparr> # ?zc)) # (nm, Chars cur)
        # (cp, Pointers (?ps @ (comps, j) # ?z)) # rest) fr"
    by (auto simp: list_update_append nth_append zero_component_def)
  show thesis
    by (rule that [OF 1(1) 2(1) 3(1)]) (rule owns_perm [OF 3(2)], simp)
qed

lemma components_owned:
  assumes "owns h ((cp, Pointers (map (Pair comps) [0..<j] @ replicate k (0, 0)))
      # (comps, Component_array (xs @ replicate k zero_component)) # rest) fr" "length xs = j"
  shows "case read_components k r of
      None \<Rightarrow> \<exists>h'. rc_components k j cp comps r h = Some (None, h')
    | Some (cs, r') \<Rightarrow> \<exists>h' as. rc_components k j cp comps r h = Some (Some r', h') \<and> length as = length cs \<and> length cs = k
        \<and> owns h' ((cp, Pointers (map (Pair comps) [0..<j + k]))
            # (comps, Component_array (xs @ map2 c_component_of as cs)) # name_cells as cs @ rest) fr"
  using assms
proof (induction k arbitrary: j xs r h rest)
  case 0
  then show ?case by (auto simp: name_cells_def intro!: exI [of _ "[]"])
next
  case (Suc k)
  show ?case
  proof (cases "strtok csv_delim r")
    case (Some cr)
    obtain cur r' where cr: "cr = (cur, r')" by (cases cr)
    obtain h1 nm h2 h3 where set: "set_pointer cp j (comps, j) h = Some h1" "c_alloc (Chars cur) h1 = (nm, h2)"
      "update_component comps j (\<lambda>c. c\<lparr>cc_name := nm\<rparr>) h2 = Some h3" and
      own: "owns h3 ((cp, Pointers (map (Pair comps) [0..<Suc j] @ replicate k (0, 0)))
        # (comps, Component_array ((xs @ [\<lparr>cc_name = nm, cc_severity = 0\<rparr>]) @ replicate k zero_component)) # (nm, Chars cur) # rest) fr"
      by (rule component_step [OF Suc.prems])
    let ?xs = "xs @ [\<lparr>cc_name = nm, cc_severity = 0\<rparr>]"
    have step: "rc_components (Suc k) j cp comps r h = rc_components k (Suc j) cp comps r' h3"
      using Some cr set by simp
    have len: "length ?xs = Suc j" using Suc.prems(2) by simp
    note IH = Suc.IH [OF own len, of r']
    show ?thesis
    proof (cases "read_components k r'")
      case None
      with IH Some cr step show ?thesis by auto
    next
      case (Some csr)
      obtain cs r'' where csr: "csr = (cs, r'')" by (cases csr)
      from IH [unfolded Some csr option.case prod.case] obtain h' as where h': "rc_components k (Suc j) cp comps r' h3 = Some (Some r'', h')"
        "length as = length cs" "length cs = k"
        "owns h' ((cp, Pointers (map (Pair comps) [0..<Suc j + k]))
            # (comps, Component_array (?xs @ map2 c_component_of as cs)) # name_cells as cs @ (nm, Chars cur) # rest) fr"
        by blast
      let ?c = "\<lparr>comp_name = cur, comp_severity = 0\<rparr>"
      have res: "owns h' ((cp, Pointers (map (Pair comps) [0..<j + Suc k]))
          # (comps, Component_array (xs @ map2 c_component_of (nm # as) (?c # cs))) # name_cells (nm # as) (?c # cs) @ rest) fr"
        by (rule owns_perm [OF h'(4)]) (simp add: name_cells_def c_component_of_def)
      have "read_components (Suc k) r = Some (?c # cs, r'')" using \<open>strtok csv_delim r = Some cr\<close> cr Some csr by simp
      with res show ?thesis
        unfolding step by (simp only: option.case prod.case) (rule exI [of _ h'], rule exI [of _ "nm # as"], simp add: h'(1-3))
    qed
  qed simp
qed

text \<open>The reading of the nodes leaves the global pointers alone.\<close>

definition same_pointers :: "replay_c \<Rightarrow> replay_c \<Rightarrow> bool" where
  "same_pointers s s' \<longleftrightarrow> same_nodes s s' \<and> rc_faults s' = rc_faults s \<and> rc_num_fault s' = rc_num_fault s"

text \<open>The model's counterpart of the rest of a line.\<close>

definition node_rest :: "nat \<Rightarrow> string \<Rightarrow> string \<Rightarrow> replay \<Rightarrow> step_result \<times> replay" where
  "node_rest i name r1 r =
     (case strtok csv_delim r1 of
        None \<Rightarrow> (Step_error 1, rp_logf LL_Error ''[REPLAY] unexpected end of line'' r)
      | Some (cnt, r2) \<Rightarrow>
          (case read_components (unat (ucast (strtoul_val 0 cnt) :: u32)) r2 of
             None \<Rightarrow> (Step_error 1, rp_logf LL_Error ''[REPLAY] unexpected end of line'' r)
           | Some (cs, r3) \<Rightarrow>
               let r4 = r\<lparr>rp_nodes := rp_nodes r @ [\<lparr>node_name = name, node_id = of_nat i, node_type = uniform_node,
                                    node_state = NODE_STATE_UNKNOWN, components = cs\<rparr>]\<rparr>
               in (Step_ok, if strtok csv_delim r3 \<noteq> None
                            then rp_logf LL_Warning ''[REPLAY] garbage at the end of the line'' r4 else r4)))"

text \<open>The array of nodes while the one behind \<open>xs\<close> is being filled in.\<close>

abbreviation open_node :: "addr \<Rightarrow> node_shape list \<Rightarrow> c_node \<Rightarrow> nat \<Rightarrow> addr \<times> block" where
  "open_node nodes xs n m \<equiv> (nodes, Node_array (map c_node_of xs @ n # replicate m zero_node))"

lemma owns_open_node:
  assumes "owns h (open_node nodes xs n m # cs) fr"
  shows "\<exists>h'. update_node nodes (length xs) f h = Some h' \<and> owns h' (open_node nodes xs (f n) m # cs) fr"
  using owns_update_node [OF assms, of "length xs" f] by (auto simp: list_update_append nth_append)

abbreviation (input) read_result where
  "read_result rc res nodes lau xs m s r fr \<equiv>
     (case res of
        (Step_ok, r') \<Rightarrow> \<exists>b t' s' x. rc = Some (Step_ok, b, s')
          \<and> owns (rc_heap s') (nodes_cells nodes lau (xs @ [x]) m @ buf_cells b t') fr
          \<and> same_globals s' r' \<and> rp_nodes r' = rp_nodes r @ [shape_node x] \<and> shape_ok x \<and> same_pointers s s'
      | (Step_error e, r') \<Rightarrow> \<exists>b s'. rc = Some (Step_error e, b, s') \<and> rc_log s' = rp_log r'
      | (Step_crash, r') \<Rightarrow> rc = None)"

lemma same_globals_logD: "same_globals s r \<Longrightarrow> rc_log s = rp_log r"
  by (simp add: same_globals_def)

lemma same_globals_heap [simp]: "same_globals (s\<lparr>rc_heap := h\<rparr>) r = same_globals s r"
  "same_globals s (r\<lparr>rp_nodes := ns\<rparr>) = same_globals s r"
  by (simp_all add: same_globals_def)

lemma same_pointers_log [simp]: "same_pointers s (rc_logf l m s') = same_pointers s s'"
  "same_pointers s (s'\<lparr>rc_heap := h\<rparr>) = same_pointers s s'"
  by (simp_all add: same_pointers_def same_nodes_def rc_logf_def)

lemma same_pointers_refl [simp]: "same_pointers s s"
  by (simp add: same_pointers_def)

lemma rc_heap_log [simp]: "rc_heap (rc_logf l m s) = rc_heap s" "rc_heap (rc_log_line m s) = rc_heap s"
  by (simp_all add: rc_logf_def rc_log_line_def)

lemma rp_nodes_log [simp]: "rp_nodes (rp_logf l m r) = rp_nodes r" "rp_nodes (rp_log_line m r) = rp_nodes r"
  by (simp_all add: rp_logf_def rp_log_line_def)

text \<open>The two arrays of a node's components.\<close>

lemma component_arrays:
  assumes "owns h (open_node nodes xs n m # rest) fr"
  obtains cp h1 h2 comps h3 where "c_alloc (Pointers (replicate k (0, 0))) h = (cp, h1)"
    "update_node nodes (length xs) (\<lambda>n. n\<lparr>cn_num_components := num, cn_components := cp\<rparr>) h1 = Some h2"
    "c_alloc (Component_array (replicate k zero_component)) h2 = (comps, h3)"
    "owns h3 ((cp, Pointers (map (Pair comps) [0..<0] @ replicate k (0, 0))) # (comps, Component_array ([] @ replicate k zero_component))
      # open_node nodes xs (n\<lparr>cn_num_components := num, cn_components := cp\<rparr>) m # rest) fr"
proof -
  let ?p0 = "Pointers (replicate k (0, 0))" and ?c0 = "Component_array (replicate k zero_component)"
  obtain cp h1 where 1: "c_alloc ?p0 h = (cp, h1)" "owns h1 ((cp, ?p0) # open_node nodes xs n m # rest) fr"
    using owns_alloc_ex [OF assms] by blast
  let ?n' = "n\<lparr>cn_num_components := num, cn_components := cp\<rparr>"
  have "owns h1 (open_node nodes xs n m # (cp, ?p0) # rest) fr" by (rule owns_perm [OF 1(2)]) simp
  from owns_open_node [OF this, of "\<lambda>n. n\<lparr>cn_num_components := num, cn_components := cp\<rparr>"] obtain h2 where
    2: "update_node nodes (length xs) (\<lambda>n. n\<lparr>cn_num_components := num, cn_components := cp\<rparr>) h1 = Some h2"
      "owns h2 (open_node nodes xs ?n' m # (cp, ?p0) # rest) fr" by blast
  obtain comps h3 where 3: "c_alloc ?c0 h2 = (comps, h3)" "owns h3 ((comps, ?c0) # open_node nodes xs ?n' m # (cp, ?p0) # rest) fr"
    using owns_alloc_ex [OF 2(2)] by blast
  show thesis
    by (rule that [OF 1(1) 2(1) 3(1)]) (rule owns_perm [OF 3(2)], simp)
qed

lemma node_rest_refines:
  assumes own: "owns (rc_heap s) (open_node (rc_nodes s) xs \<lparr>cn_name = nm, cn_id = of_nat (length xs), cn_type = uniform_node,
      cn_state = 0, cn_num_components = 0, cn_components = 0\<rparr> m # (nm, Chars name)
      # lau_cell lau (rc_nodes s) (Suc (length xs)) m # map pointer_cell xs @ concat (map leaked_cells xs) @ buf_cells b t) fr"
    and glob: "same_globals s r"
  shows "read_result (rc_node_rest (length xs) b r1 s) (node_rest (length xs) name r1 r) (rc_nodes s) lau xs m s r fr"
proof (cases "strtok csv_delim r1")
  case None
  with glob show ?thesis by (simp add: rc_node_rest_def node_rest_def same_globals_logD)
next
  case (Some cr)
  obtain cnt r2 where cr: "cr = (cnt, r2)" by (cases cr)
  let ?num = "ucast (strtoul_val 0 cnt) :: u32" and ?i = "length xs" and ?nodes = "rc_nodes s"
  let ?n = "\<lparr>cn_name = nm, cn_id = of_nat ?i, cn_type = uniform_node, cn_state = 0, cn_num_components = 0, cn_components = 0\<rparr>"
  let ?rest = "(nm, Chars name) # lau_cell lau ?nodes (Suc ?i) m # map pointer_cell xs @ concat (map leaked_cells xs) @ buf_cells b t"
  let ?set = "\<lambda>cp n. n\<lparr>cn_num_components := ?num, cn_components := cp\<rparr>"
  obtain cp h1 h2 comps h3 where set: "c_alloc (Pointers (replicate (unat ?num) (0, 0))) (rc_heap s) = (cp, h1)"
    "update_node ?nodes ?i (?set cp) h1 = Some h2" "c_alloc (Component_array (replicate (unat ?num) zero_component)) h2 = (comps, h3)" and
    own3: "owns h3 ((cp, Pointers (map (Pair comps) [0..<0] @ replicate (unat ?num) (0, 0)))
      # (comps, Component_array ([] @ replicate (unat ?num) zero_component)) # open_node ?nodes xs (?set cp ?n) m # ?rest) fr"
    by (rule component_arrays [OF own])
  note comps = components_owned [OF own3, of r2, OF list.size(3)]
  show ?thesis
  proof (cases "read_components (unat ?num) r2")
    case None
    from comps [unfolded None option.case] obtain h4 where "rc_components (unat ?num) 0 cp comps r2 h3 = Some (None, h4)"
      by blast
    with Some cr None set glob show ?thesis
      by (simp add: rc_node_rest_def node_rest_def) (simp add: rc_logf_def rp_logf_def same_globals_def)
  next
    case csr: (Some csr)
    obtain cs r3 where csr': "csr = (cs, r3)" by (cases csr)
    from comps [unfolded csr csr' option.case prod.case] obtain h4 as where
      4: "rc_components (unat ?num) 0 cp comps r2 h3 = Some (Some r3, h4)" "length as = length cs" "length cs = unat ?num"
        "owns h4 ((cp, Pointers (map (Pair comps) [0..<0 + unat ?num])) # (comps, Component_array ([] @ map2 c_component_of as cs))
            # name_cells as cs @ open_node ?nodes xs (?set cp ?n) m # ?rest) fr" by blast
    let ?node = "\<lparr>node_name = name, node_id = of_nat ?i, node_type = uniform_node, node_state = 0, components = cs\<rparr>"
    let ?x = "(nm, cp, comps, as, ?node)"
    have num: "of_nat (length cs) = ?num" using 4(3) by simp
    have "owns h4 (nodes_cells ?nodes lau (xs @ [?x]) m @ buf_cells b t) fr"
      by (rule owns_perm [OF 4(4)])
         (simp add: nodes_cells_def nodes_cell_def c_node_of_def pointer_cell_def leaked_cells_def num 4(3) [symmetric] del: upt_Suc)
    moreover have "rc_node_rest ?i b r1 s = Some (Step_ok, b,
        if strtok csv_delim r3 \<noteq> None then rc_logf LL_Warning ''[REPLAY] garbage at the end of the line'' (s\<lparr>rc_heap := h4\<rparr>)
        else s\<lparr>rc_heap := h4\<rparr>)"
      using Some cr set 4(1) by (simp add: rc_node_rest_def)
    moreover have "rp_nodes r @ [?node] = rp_nodes r @ [shape_node ?x]" "shape_ok ?x"
      using 4(2) by (simp_all add: shape_node_def shape_ok_def)
    ultimately show ?thesis
      using Some cr csr csr' glob by (auto simp: node_rest_def Let_def) blast+
  qed
qed

lemma read_node_rest:
  "read_node (file_env env) i r =
     (case getline (rp_file r) of
        None \<Rightarrow> (Step_error 1, rp_logf LL_Error ''[REPLAY] unable to read line'' r)
      | Some (line, rest) \<Rightarrow>
          let r1 = rp_log_line (c_str line) (r\<lparr>rp_file := rest\<rparr>)
          in case strtok csv_delim (c_str line) of
               None \<Rightarrow> (Step_crash, r1)
             | Some (name, t) \<Rightarrow>
                 if \<not> fe_calloc env rest
                 then (Step_error 1, rp_logf LL_Error ''[REPLAY] not enough memory to allocate node name'' r1)
                 else node_rest i name t r1)"
  by (simp add: read_node_def node_rest_def Let_def split: option.split)

text \<open>A new element of the array of nodes, its pointer for the server, and the copy of its name.\<close>

abbreviation (input) fresh_node where
  "fresh_node i nm \<equiv> \<lparr>cn_name = nm, cn_id = of_nat i, cn_type = uniform_node, cn_state = 0, cn_num_components = 0, cn_components = 0\<rparr>"

lemma node_opened:
  assumes "owns h (nodes_cells nodes lau xs (Suc m) @ cells) fr"
  obtains h1 h2 where "set_pointer lau (length xs) (nodes, length xs) h = Some h1"
    "update_node nodes (length xs) (\<lambda>n. n\<lparr>cn_id := of_nat (length xs), cn_type := uniform_node, cn_state := 0\<rparr>) h1 = Some h2"
    "owns h2 (open_node nodes xs (fresh_node (length xs) 0) m # lau_cell lau nodes (Suc (length xs)) m
      # map pointer_cell xs @ concat (map leaked_cells xs) @ cells) fr"
proof -
  let ?i = "length xs" and ?rest = "map pointer_cell xs @ concat (map leaked_cells xs) @ cells"
  let ?upd = "\<lambda>n. n\<lparr>cn_id := of_nat ?i, cn_type := uniform_node, cn_state := 0\<rparr>"
  have "owns h (lau_cell lau nodes ?i (Suc m) # nodes_cell nodes xs (Suc m) # ?rest) fr"
    by (rule owns_perm [OF assms]) (simp add: nodes_cells_def)
  from owns_set_pointer [OF this [unfolded lau_cell_def], of ?i "(nodes, ?i)"] obtain h1 where
    1: "set_pointer lau ?i (nodes, ?i) h = Some h1"
      "owns h1 (lau_cell lau nodes (Suc ?i) m # nodes_cell nodes xs (Suc m) # ?rest) fr"
    by (auto simp: list_update_append lau_cell_def)
  have "owns h1 (open_node nodes xs zero_node m # lau_cell lau nodes (Suc ?i) m # ?rest) fr"
    by (rule owns_perm [OF 1(2)]) (simp add: nodes_cell_def)
  from owns_open_node [OF this, of ?upd] obtain h2 where 2: "update_node nodes ?i ?upd h1 = Some h2"
    "owns h2 (open_node nodes xs (?upd zero_node) m # lau_cell lau nodes (Suc ?i) m # ?rest) fr" by blast
  show thesis by (rule that [OF 1(1) 2(1)]) (use 2(2) in \<open>simp add: zero_node_def\<close>)
qed

lemma node_named:
  assumes "owns h (open_node nodes xs (fresh_node i 0) m # rest) fr"
  obtains nm h1 h2 where "c_alloc (Chars name) h = (nm, h1)" "update_node nodes (length xs) (\<lambda>n. n\<lparr>cn_name := nm\<rparr>) h1 = Some h2"
    "owns h2 (open_node nodes xs (fresh_node i nm) m # (nm, Chars name) # rest) fr"
proof -
  obtain nm h1 where 1: "c_alloc (Chars name) h = (nm, h1)" "owns h1 ((nm, Chars name) # open_node nodes xs (fresh_node i 0) m # rest) fr"
    using owns_alloc_ex [OF assms] by blast
  have "owns h1 (open_node nodes xs (fresh_node i 0) m # (nm, Chars name) # rest) fr"
    by (rule owns_perm [OF 1(2)]) simp
  from owns_open_node [OF this, of "\<lambda>n. n\<lparr>cn_name := nm\<rparr>"] that [OF 1(1)] show thesis by auto
qed

lemma named_node_refines:
  assumes own: "owns h (open_node (rc_nodes s) xs (fresh_node (length xs) 0) m # lau_cell lau (rc_nodes s) (Suc (length xs)) m
      # map pointer_cell xs @ concat (map leaked_cells xs) @ buf_cells b t) fr"
    and glob: "same_globals s r"
  obtains nm h1 h2 where "c_alloc (Chars name) h = (nm, h1)" "update_node (rc_nodes s) (length xs) (\<lambda>n. n\<lparr>cn_name := nm\<rparr>) h1 = Some h2"
    "read_result (rc_node_rest (length xs) b r1 ((rc_log_line l (s\<lparr>rc_file := rest\<rparr>))\<lparr>rc_heap := h2\<rparr>))
       (node_rest (length xs) name r1 (rp_log_line l (r\<lparr>rp_file := rest\<rparr>))) (rc_nodes s) lau xs m s r fr"
proof -
  let ?i = "length xs" and ?nodes = "rc_nodes s"
  obtain nm h1 h2 where 1: "c_alloc (Chars name) h = (nm, h1)"
    and 2: "update_node ?nodes ?i (\<lambda>n. n\<lparr>cn_name := nm\<rparr>) h1 = Some h2"
      "owns h2 (open_node ?nodes xs (fresh_node ?i nm) m # (nm, Chars name) # lau_cell lau ?nodes (Suc ?i) m
        # map pointer_cell xs @ concat (map leaked_cells xs) @ buf_cells b t) fr"
    by (rule node_named [OF own])
  let ?s = "(rc_log_line l (s\<lparr>rc_file := rest\<rparr>))\<lparr>rc_heap := h2\<rparr>"
  let ?r = "rp_log_line l (r\<lparr>rp_file := rest\<rparr>)"
  have glob': "same_globals ?s ?r" using glob by (simp add: same_globals_def rc_log_line_def rp_log_line_def rc_logf_def rp_logf_def)
  have "read_result (rc_node_rest ?i b r1 ?s) (node_rest ?i name r1 ?r) (rc_nodes ?s) lau xs m ?s ?r fr"
    by (rule node_rest_refines [OF _ glob']) (use 2(2) in simp)
  moreover have "same_pointers ?s = same_pointers s" "rc_nodes ?s = rc_nodes s" "rp_nodes ?r = rp_nodes r"
    by (simp_all add: fun_eq_iff same_pointers_def same_nodes_def rc_log_line_def rc_logf_def)
  ultimately show thesis by (intro that [OF 1 2(1)]) (simp only:)
qed

lemma read_node_refines:
  assumes own: "owns (rc_heap s) (nodes_cells (rc_nodes s) lau xs (Suc m) @ buf_cells buf t) fr"
    and glob: "same_globals s r"
  shows "read_result (rc_read_node env lau (length xs) buf s) (read_node (file_env env) (length xs) r)
    (rc_nodes s) lau xs m s r fr"
proof -
  let ?i = "length xs" and ?nodes = "rc_nodes s"
  obtain b h t' where get: "rc_getline buf (rc_file s) (rc_heap s) = Some (getline (rc_file s), b, h)"
    "owns h (nodes_cells ?nodes lau xs (Suc m) @ buf_cells b t') fr"
    using getline_owned [OF own, of "rc_file s"] by blast
  have fl: "rp_file r = rc_file s" "rp_log r = rc_log s" using glob by (simp_all add: same_globals_def)
  show ?thesis
  proof (cases "getline (rc_file s)")
    case None
    with get fl show ?thesis by (simp add: read_node_rest rc_read_node_def rc_logf_def rp_logf_def)
  next
    case (Some lr)
    obtain line rest where lr: "lr = (line, rest)" by (cases lr)
    let ?rest = "lau_cell lau ?nodes (Suc ?i) m # map pointer_cell xs @ concat (map leaked_cells xs) @ buf_cells b t'"
    obtain h1 h2 where 1: "set_pointer lau ?i (?nodes, ?i) h = Some h1"
      and 2: "update_node ?nodes ?i (\<lambda>n. n\<lparr>cn_id := of_nat ?i, cn_type := uniform_node, cn_state := 0\<rparr>) h1 = Some h2"
        "owns h2 (open_node ?nodes xs (fresh_node ?i 0) m # ?rest) fr"
      by (rule node_opened [OF get(2)])
    note sofar = Some lr get(1) 1 2(1) fl
    show ?thesis
    proof (cases "strtok csv_delim (c_str line)")
      case None
      with sofar show ?thesis by (simp add: read_node_rest rc_read_node_def Let_def)
    next
      case tok: (Some nr)
      obtain name r1 where nr: "nr = (name, r1)" by (cases nr)
      show ?thesis
      proof (cases "fe_calloc env rest")
        case False
        from owns_open_node [OF 2(2), of "\<lambda>n. n\<lparr>cn_name := 0\<rparr>"] sofar tok nr False show ?thesis
          by (auto simp: read_node_rest rc_read_node_def Let_def rc_logf_def rp_logf_def rc_log_line_def rp_log_line_def)
      next
        case True
        let ?s = "\<lambda>h. (rc_log_line (c_str line) (s\<lparr>rc_file := rest\<rparr>))\<lparr>rc_heap := h\<rparr>"
        let ?r = "rp_log_line (c_str line) (r\<lparr>rp_file := rest\<rparr>)"
        obtain nm h3 h4 where 3: "c_alloc (Chars name) h2 = (nm, h3)" "update_node ?nodes ?i (\<lambda>n. n\<lparr>cn_name := nm\<rparr>) h3 = Some h4"
          and res: "read_result (rc_node_rest ?i b r1 (?s h4)) (node_rest ?i name r1 ?r) ?nodes lau xs m s r fr"
          by (rule named_node_refines [OF 2(2) glob])
        have rc: "rc_read_node env lau ?i buf s = rc_node_rest ?i b r1 (?s h4)"
          using sofar tok nr True 3 by (simp add: rc_read_node_def)
        have rd: "read_node (file_env env) ?i r = node_rest ?i name r1 ?r"
          using sofar tok nr True by (simp add: read_node_rest Let_def)
        show ?thesis unfolding rc rd by (rule res)
      qed
    qed
  qed
qed

lemma same_pointers_trans: "same_pointers s s' \<Longrightarrow> same_pointers s' s'' \<Longrightarrow> same_pointers s s''"
  by (simp add: same_pointers_def same_nodes_def)

lemma read_nodes_refines:
  assumes "owns (rc_heap s) (nodes_cells (rc_nodes s) lau xs k @ buf_cells buf t) fr" "same_globals s r"
    "rp_nodes r = map shape_node xs" "list_all shape_ok xs"
  shows "case read_nodes (file_env env) k (length xs) r of
      (Step_ok, r') \<Rightarrow> \<exists>b t' s' ys. rc_read_nodes env lau k (length xs) buf s = Some (Step_ok, b, s')
        \<and> owns (rc_heap s') (nodes_cells (rc_nodes s) lau ys 0 @ buf_cells b t') fr
        \<and> same_globals s' r' \<and> rp_nodes r' = map shape_node ys \<and> length ys = length xs + k \<and> list_all shape_ok ys \<and> same_pointers s s'
    | (Step_error e, r') \<Rightarrow> \<exists>b s'. rc_read_nodes env lau k (length xs) buf s = Some (Step_error e, b, s') \<and> rc_log s' = rp_log r'
    | (Step_crash, r') \<Rightarrow> rc_read_nodes env lau k (length xs) buf s = None"
  using assms
proof (induction k arbitrary: xs buf t s r)
  case 0
  then show ?case by auto
next
  case (Suc k)
  obtain res r1 where rd: "read_node (file_env env) (length xs) r = (res, r1)" by fastforce
  note node = read_node_refines [OF Suc.prems(1,2), of env, unfolded rd prod.case]
  show ?case
  proof (cases res)
    case Step_ok
    from node [unfolded Step_ok step_result.case] obtain b t' s' x where
      ok: "rc_read_node env lau (length xs) buf s = Some (Step_ok, b, s')"
        "owns (rc_heap s') (nodes_cells (rc_nodes s) lau (xs @ [x]) k @ buf_cells b t') fr"
        "same_globals s' r1" "rp_nodes r1 = rp_nodes r @ [shape_node x]" "shape_ok x" "same_pointers s s'" by blast
    have "rc_nodes s' = rc_nodes s" using ok(6) by (simp add: same_pointers_def same_nodes_def)
    with ok(2-5) Suc.prems(3,4) have "owns (rc_heap s') (nodes_cells (rc_nodes s') lau (xs @ [x]) k @ buf_cells b t') fr"
      "same_globals s' r1" "rp_nodes r1 = map shape_node (xs @ [x])" "list_all shape_ok (xs @ [x])" by simp_all
    from Suc.IH [OF this] show ?thesis
      using ok(1) rd Step_ok \<open>rc_nodes s' = rc_nodes s\<close> same_pointers_trans [OF ok(6)]
      by (simp split: prod.splits step_result.splits) blast+
  next
    case (Step_error e)
    with node rd show ?thesis by auto
  next
    case Step_crash
    with node rd show ?thesis by auto
  qed
qed

lemma first_tic_refines:
  assumes "owns (rc_heap s) (cs @ buf_cells buf t) fr" "same_globals s r"
  shows "\<exists>b t' s'. rc_read_first_tic env buf s = Some (b, s') \<and> owns (rc_heap s') (cs @ buf_cells b t') fr
    \<and> same_globals s' (read_first_tic (file_env env) r) \<and> same_pointers s s'"
proof -
  obtain b h t' where get: "rc_getline buf (rc_file s) (rc_heap s) = Some (getline (rc_file s), b, h)"
    "owns h (cs @ buf_cells b t') fr"
    using getline_owned [OF assms(1), of "rc_file s"] by blast
  have "\<exists>h2. c_free (fst (c_alloc bl h)) (snd (c_alloc bl h)) = Some h2 \<and> owns h2 (cs @ buf_cells b t') fr" for bl
    using owns_alloc_ex [OF get(2), of bl] owns_free by fastforce
  note free = this
  show ?thesis
  proof (cases "getline (rc_file s)")
    case None
    with get assms(2) show ?thesis
      by (auto simp: rc_read_first_tic_def read_first_tic_def same_globals_def rc_logf_def rp_logf_def
          same_pointers_def same_nodes_def)
  next
    case (Some lr)
    obtain line rest where lr: "lr = (line, rest)" by (cases lr)
    let ?msg = "Chars (snprintf 256 (''[REPLAY] expected [tic#<n>], found '' @ c_str line))"
    obtain h2 where h2: "c_free (fst (c_alloc ?msg h)) (snd (c_alloc ?msg h)) = Some h2" "owns h2 (cs @ buf_cells b t') fr"
      using free by blast
    show ?thesis
      using get assms(2) h2 Some lr
      by (auto simp: rc_read_first_tic_def read_first_tic_def Let_def split_beta same_globals_def
          rc_logf_def rp_logf_def rc_log_line_def rp_log_line_def same_pointers_def same_nodes_def)
  qed
qed

lemma rp_faults_log [simp]: "rp_faults (rp_logf l m r) = rp_faults r" "rp_faults (rp_log_line m r) = rp_faults r"
  by (simp_all add: rp_logf_def rp_log_line_def)

lemma rp_nodes_first_tic [simp]: "rp_nodes (read_first_tic env r) = rp_nodes r"
  by (simp add: read_first_tic_def Let_def split: option.split)

lemma free_buf:
  assumes "owns h (cs @ buf_cells b t) fr"
  shows "\<exists>h'. c_free b h = Some h' \<and> owns h' cs fr"
proof (cases "b = 0")
  case False
  then have "owns h ((b, Chars t) # cs) fr" by (intro owns_perm [OF assms]) (simp add: buf_cells_def)
  then show ?thesis by (rule owns_free)
qed (use assms in \<open>simp add: buf_cells_def\<close>)

lemma fill_nodes_refines:
  assumes own: "owns (rc_heap s) (nodes_cells (rc_nodes s) lau [] num @ buf_cells b t) fr" and glob: "same_globals s r"
    and "rp_nodes r = []" and rd: "read_nodes (file_env env) num 0 r = (res, r2)"
  shows "case res of
      Step_ok \<Rightarrow> \<exists>s' xs. rc_fill_nodes env lau num b s = Some (0, lau, s')
        \<and> owns (rc_heap s') (nodes_cells (rc_nodes s) lau xs 0) fr \<and> rp_nodes r2 = map shape_node xs
        \<and> same_globals s' (read_first_tic (file_env env) r2) \<and> num = length xs \<and> list_all shape_ok xs \<and> same_pointers s s'
    | Step_error e \<Rightarrow> \<exists>s'. rc_fill_nodes env lau num b s = Some (e, lau, s') \<and> rc_log s' = rp_log r2
    | Step_crash \<Rightarrow> rc_fill_nodes env lau num b s = None"
proof -
  have "rp_nodes r = map shape_node []" "list_all shape_ok []" using assms(3) by simp_all
  note nodes = read_nodes_refines [OF own glob this, of env, unfolded list.size rd prod.case]
  show ?thesis
  proof (cases res)
    case Step_ok
    with nodes obtain b1 t1 s1 ys where 1: "rc_read_nodes env lau num 0 b s = Some (Step_ok, b1, s1)"
      "owns (rc_heap s1) (nodes_cells (rc_nodes s) lau ys 0 @ buf_cells b1 t1) fr" "same_globals s1 r2"
      "rp_nodes r2 = map shape_node ys" "length ys = num" "list_all shape_ok ys" "same_pointers s s1" by auto
    obtain b2 t2 s2 where 2: "rc_read_first_tic env b1 s1 = Some (b2, s2)"
      "owns (rc_heap s2) (nodes_cells (rc_nodes s) lau ys 0 @ buf_cells b2 t2) fr"
      "same_globals s2 (read_first_tic (file_env env) r2)" "same_pointers s1 s2"
      using first_tic_refines [OF 1(2,3)] by blast
    obtain h where 3: "c_free b2 (rc_heap s2) = Some h" "owns h (nodes_cells (rc_nodes s) lau ys 0) fr"
      using free_buf [OF 2(2)] by blast
    show ?thesis
      using 1(1,4-6) 2(1,3) 3 same_pointers_trans [OF 1(7) 2(4)] Step_ok
      by (auto simp: rc_fill_nodes_def intro!: exI [of _ ys])
  qed (use nodes in \<open>auto simp: rc_fill_nodes_def\<close>)
qed

text \<open>
  \<open>get_nodes\<close> on a plugin that has just been initialised: the return value is that of the model, and
  when it is 0 the plugin owns the arrays and strings of the nodes and nothing else.
\<close>

lemma node_arrays:
  assumes "owns h cells fr"
  obtains nodes h1 lau h2 where "c_alloc (Node_array (replicate n zero_node)) h = (nodes, h1)"
    "c_alloc (Pointers (replicate n (0, 0))) h1 = (lau, h2)" "owns h2 (nodes_cells nodes lau [] n @ cells) fr"
proof -
  obtain nodes h1 where 1: "c_alloc (Node_array (replicate n zero_node)) h = (nodes, h1)"
    "owns h1 ((nodes, Node_array (replicate n zero_node)) # cells) fr"
    using owns_alloc_ex [OF assms] by blast
  obtain lau h2 where 2: "c_alloc (Pointers (replicate n (0, 0))) h1 = (lau, h2)"
    "owns h2 ((lau, Pointers (replicate n (0, 0))) # (nodes, Node_array (replicate n zero_node)) # cells) fr"
    using owns_alloc_ex [OF 1(2)] by blast
  show thesis
    by (rule that [OF 1(1) 2(1)]) (simp add: owns_perm [OF 2(2)] nodes_cells_def nodes_cell_def lau_cell_def)
qed

text \<open>The first line: the number of nodes, and what the globals are behind it.\<close>

definition rc_counted :: "string \<Rightarrow> string \<Rightarrow> addr \<Rightarrow> heap \<Rightarrow> replay_c \<Rightarrow> replay_c" where
  "rc_counted line rest old h s =
     (let num = strtoul_val 0 (c_str line)
      in rc_logf LL_Debug (snprintf 512 (''[REPLAY] nodes_num: '' @ show_unsigned num))
           (rc_log_line (c_str line) (s\<lparr>rc_node_ptr := old, rc_heap := h, rc_file := rest, rc_nodes_num := num\<rparr>)))"

definition rp_counted :: "string \<Rightarrow> string \<Rightarrow> replay \<Rightarrow> replay" where
  "rp_counted line rest r =
     rp_logf LL_Debug (snprintf 512 (''[REPLAY] nodes_num: '' @ show_unsigned (strtoul_val 0 (c_str line))))
       (rp_log_line (c_str line) (r\<lparr>rp_file := rest\<rparr>))"

lemma counted_globals:
  "same_globals (rc_counted line rest old h' (rc_start txt h)) ((rp_counted line rest (replay_start txt))\<lparr>rp_nodes := []\<rparr>)"
  "rp_file (rp_counted line rest r) = rest" "rc_nodes_num (rc_counted line rest old h' s) = strtoul_val 0 (c_str line)"
  by (simp_all add: rc_counted_def rp_counted_def same_globals_def rc_start_def replay_start_def rc_logf_def rp_logf_def
      rc_log_line_def rp_log_line_def Let_def)

lemma counted_pointers:
  "rc_node_ptr (rc_counted line rest old h' (rc_start txt h)) = old" "rc_faults (rc_counted line rest old h' (rc_start txt h)) = 0"
  "rc_num_fault (rc_counted line rest old h' (rc_start txt h)) = 0" "rc_heap (rc_counted line rest old h' (rc_start txt h)) = h'"
  by (simp_all add: rc_counted_def rc_start_def rc_logf_def rc_log_line_def Let_def)

abbreviation (input) nodes_result where
  "nodes_result rc res old fr \<equiv>
     (case res of
        (Nodes ns, r) \<Rightarrow> \<exists>lau s xs. rc = Some (0, lau, s)
          \<and> owns (rc_heap s) (nodes_cells (rc_nodes s) lau xs 0) fr \<and> ns = map shape_node xs
          \<and> same_globals s r \<and> rc_node_ptr s = old \<and> unat (rc_nodes_num s) = length xs
          \<and> rc_faults s = NULL \<and> rc_num_fault s = 0 \<and> list_all shape_ok xs
      | (Nodes_error e, r) \<Rightarrow> \<exists>lau s. rc = Some (e, lau, s) \<and> rc_log s = rp_log r
      | (Nodes_crash, r) \<Rightarrow> rc = None)"

lemma counted_refines:
  assumes own: "owns h0 (buf_cells b t) fr" and num: "n = unat (strtoul_val 0 (c_str line))"
    and rd: "read_nodes (file_env env) n 0 ((rp_counted line rest (replay_start txt))\<lparr>rp_nodes := []\<rparr>) = (res, r2)"
  obtains nodes h1 lau h2 where "c_alloc (Node_array (replicate n zero_node)) h0 = (nodes, h1)"
    "c_alloc (Pointers (replicate n (0, 0))) h1 = (lau, h2)"
    "nodes_result (rc_fill_nodes env lau n b ((rc_counted line rest old h0 (rc_start txt h))\<lparr>rc_nodes := nodes, rc_heap := h2\<rparr>))
       (case res of Step_ok \<Rightarrow> (let r3 = read_first_tic (file_env env) r2 in (Nodes (rp_nodes r3), r3))
         | Step_error e \<Rightarrow> (Nodes_error e, r2) | Step_crash \<Rightarrow> (Nodes_crash, r2)) old fr"
proof -
  obtain nodes h1 lau h2 where 1: "c_alloc (Node_array (replicate n zero_node)) h0 = (nodes, h1)"
    "c_alloc (Pointers (replicate n (0, 0))) h1 = (lau, h2)"
    and 2: "owns h2 (nodes_cells nodes lau [] n @ buf_cells b t) fr"
    by (rule node_arrays [OF own])
  let ?s = "(rc_counted line rest old h0 (rc_start txt h))\<lparr>rc_nodes := nodes, rc_heap := h2\<rparr>"
  let ?r = "(rp_counted line rest (replay_start txt))\<lparr>rp_nodes := []\<rparr>"
  have own2: "owns (rc_heap ?s) (nodes_cells (rc_nodes ?s) lau [] n @ buf_cells b t) fr" using 2 by simp
  have glob: "same_globals ?s ?r" using counted_globals(1) by (simp add: same_globals_def)
  have "rp_nodes ?r = []" by simp
  note fill = fill_nodes_refines [OF own2 glob this rd]
  have ptr: "rc_nodes s' = nodes \<and> rc_node_ptr s' = old \<and> unat (rc_nodes_num s') = n \<and> rc_faults s' = 0 \<and> rc_num_fault s' = 0"
    if "same_pointers ?s s'" for s'
    using that num by (simp add: same_pointers_def same_nodes_def counted_globals(3) counted_pointers)
  show thesis
  proof (rule that [OF 1], cases res)
    case Step_ok
    from fill [unfolded Step_ok step_result.case] obtain s' xs where
      3: "rc_fill_nodes env lau n b ?s = Some (0, lau, s')"
        "owns (rc_heap s') (nodes_cells (rc_nodes ?s) lau xs 0) fr" "rp_nodes r2 = map shape_node xs"
        "same_globals s' (read_first_tic (file_env env) r2)" "n = length xs" "list_all shape_ok xs" "same_pointers ?s s'" by blast
    with ptr [OF 3(7)] Step_ok
    show "nodes_result (rc_fill_nodes env lau n b ?s)
        (case res of Step_ok \<Rightarrow> (let r3 = read_first_tic (file_env env) r2 in (Nodes (rp_nodes r3), r3))
         | Step_error e \<Rightarrow> (Nodes_error e, r2) | Step_crash \<Rightarrow> (Nodes_crash, r2)) old fr"
      by (auto simp: Let_def intro!: exI [of _ xs])
  qed (use fill in auto)
qed

lemma get_nodes_refines:
  assumes "heap_ok h"
  shows "nodes_result (rc_get_nodes env old (rc_start txt h)) (replay_get_nodes (file_env env) (replay_start txt)) old (hp_mem h)"
proof -
  have "owns h ([] @ buf_cells 0 []) (hp_mem h)" using assms by (simp add: owns_nil buf_cells_def)
  from getline_owned [OF this, of "txt"] obtain b h0 t where
    get: "rc_getline 0 txt h = Some (getline txt, b, h0)" "owns h0 (buf_cells b t) (hp_mem h)" by auto
  have sel: "rc_file (rc_start txt h) = txt" "rc_heap (rc_start txt h) = h" "rp_file (replay_start txt) = txt"
    by (simp_all add: rc_start_def replay_start_def)
  show ?thesis
  proof (cases "getline txt")
    case None
    with get sel show ?thesis
      by (simp add: rc_get_nodes_def replay_get_nodes_def rc_logf_def rp_logf_def rc_start_def replay_start_def)
  next
    case (Some lr)
    obtain line rest where lr: "lr = (line, rest)" by (cases lr)
    let ?num = "strtoul_val 0 (c_str line)"
    let ?s1 = "rc_counted line rest old h0 (rc_start txt h)" and ?r1 = "rp_counted line rest (replay_start txt)"
    note defs = rc_get_nodes_def replay_get_nodes_def rc_counted_def rp_counted_def Let_def
    have log: "rc_log ?s1 = rp_log ?r1" using same_globals_logD [OF counted_globals(1)] by simp
    show ?thesis
    proof (cases "strtoul 0 (c_str line) = None \<or> \<not> fe_calloc env rest")
      case True
      with Some lr get sel log show ?thesis
        by (auto simp: defs) (simp_all add: rc_logf_def rp_logf_def)
    next
      case False
      then obtain v where ok: "strtoul 0 (c_str line) = Some v" "fe_calloc env rest" by auto
      obtain res r2 where rd: "read_nodes (file_env env) (unat ?num) 0 (?r1\<lparr>rp_nodes := []\<rparr>) = (res, r2)" by fastforce
      let ?res = "case res of Step_ok \<Rightarrow> (let r3 = read_first_tic (file_env env) r2 in (Nodes (rp_nodes r3), r3))
         | Step_error e \<Rightarrow> (Nodes_error e, r2) | Step_crash \<Rightarrow> (Nodes_crash, r2)"
      obtain nodes h1 lau h2 where 1: "c_alloc (Node_array (replicate (unat ?num) zero_node)) h0 = (nodes, h1)"
        "c_alloc (Pointers (replicate (unat ?num) (0, 0))) h1 = (lau, h2)"
        and fill: "nodes_result (rc_fill_nodes env lau (unat ?num) b (?s1\<lparr>rc_nodes := nodes, rc_heap := h2\<rparr>)) ?res old (hp_mem h)"
        by (rule counted_refines [OF get(2) refl rd])
      have rc: "rc_get_nodes env old (rc_start txt h) = rc_fill_nodes env lau (unat ?num) b (?s1\<lparr>rc_nodes := nodes, rc_heap := h2\<rparr>)"
        using Some lr get(1) sel ok 1 by (simp add: defs)
      have rp: "replay_get_nodes (file_env env) (replay_start txt) = ?res"
        using Some lr sel ok rd counted_globals(2) [of line rest] by (simp add: defs)
      show ?thesis unfolding rc rp by (rule fill)
    qed
  qed
qed

text \<open>The model reads the nodes without touching the faults, and its only error code is 1.\<close>

lemma read_node_keeps:
  "rp_faults (snd (read_node env i r)) = rp_faults r" "fst (read_node env i r) = Step_error e \<Longrightarrow> e = 1"
  by (auto simp: read_node_def Let_def split: option.splits if_splits)

lemma read_nodes_keeps:
  "rp_faults (snd (read_nodes env k i r)) = rp_faults r" "fst (read_nodes env k i r) = Step_error e \<Longrightarrow> e = 1"
proof (induction k arbitrary: i r)
  case (Suc k)
  { case 1 show ?case using Suc.IH(1) read_node_keeps(1) [of env i r] by (auto split: prod.splits step_result.splits) }
  { case 2 then show ?case using Suc.IH(2) read_node_keeps(2) [of env i r] by (auto split: prod.splits step_result.splits) }
qed simp_all

lemma rp_faults_first_tic [simp]: "rp_faults (read_first_tic env r) = rp_faults r"
  by (simp add: read_first_tic_def Let_def split: option.split)

lemma read_nodes_faults: "read_nodes env k i r = (res, r') \<Longrightarrow> rp_faults r' = rp_faults r"
  using read_nodes_keeps(1) [of env k i r] by simp

lemma read_nodes_error: "read_nodes env k i r = (Step_error e, r') \<Longrightarrow> e = 1"
  using read_nodes_keeps(2) [of env k i r] by simp

lemma rp_faults_get_nodes: "rp_faults (snd (replay_get_nodes (file_env env) r)) = rp_faults r"
  by (auto simp: replay_get_nodes_def Let_def split: option.split prod.split step_result.split dest: read_nodes_faults)

lemma get_nodes_error: "replay_get_nodes (file_env env) r = (Nodes_error e, r') \<Longrightarrow> e = 1"
  by (auto simp: replay_get_nodes_def Let_def split: option.splits if_splits prod.splits step_result.splits
      dest: read_nodes_error)

section \<open>A whole session\<close>

text \<open>
  The server gets the nodes, performs \<open>n\<close> tics, in each of which it reads the faults through the
  array, and runs the clean-up. It gives up without a clean-up when there are no nodes (Inl).
\<close>

fun rc_tics :: "file_env \<Rightarrow> nat \<Rightarrow> replay_c \<Rightarrow> (fault list list \<times> replay_c) option" where
  "rc_tics env 0 s = Some ([], s)"
| "rc_tics env (Suc n) s =
     do { s1 \<leftarrow> rc_tic env s;
          (arr, num) \<leftarrow> Some (rc_get_fail s1);
          fs \<leftarrow> those (map (\<lambda>i. read_fault arr i (rc_heap s1)) [0..<num]);
          (fss, s2) \<leftarrow> rc_tics env n s1;
          Some (fs # fss, s2) }"

definition rc_session :: "file_env \<Rightarrow> nat \<Rightarrow> string \<Rightarrow> heap \<Rightarrow> (int + fault list list \<times> heap) option" where
  "rc_session env n txt h =
     do { (ret, lau, s) \<leftarrow> rc_get_nodes env NULL (rc_start txt h);
          if ret \<noteq> 0 then Some (Inl ret)
          else do { (fss, s1) \<leftarrow> rc_tics env n s;
                    s2 \<leftarrow> rc_cleanup s1;
                    Some (Inr (fss, rc_heap s2)) } }"

lemma those_map_Some [simp]: "those (map Some xs) = Some xs"
  by (induction xs) simp_all

lemma tics_refine:
  assumes "refines s r [] fr"
  shows "\<exists>s'. rc_tics env n s = Some (fst (fm_run (replay_fm (file_env env)) n r), s')
    \<and> refines s' (snd (fm_run (replay_fm (file_env env)) n r)) [] fr \<and> same_nodes s s'"
  using assms
proof (induction n arbitrary: s r)
  case (Suc n)
  obtain s1 where 1: "rc_tic env s = Some s1" "refines s1 (replay_tic (file_env env) r) [] fr" "same_nodes s s1"
    using tic_refines [OF Suc.prems] by blast
  obtain s2 where "rc_tics env n s1 = Some (fst (fm_run (replay_fm (file_env env)) n (replay_tic (file_env env) r)), s2)"
    "refines s2 (snd (fm_run (replay_fm (file_env env)) n (replay_tic (file_env env) r))) [] fr" "same_nodes s1 s2"
    using Suc.IH [OF 1(2)] by blast
  with 1 refines_faults [OF 1(2)] same_nodes_trans [OF 1(3)] show ?case
    by (simp add: rc_get_fail_def fm_step_def replay_get_fail_def split_beta)
qed simp

lemma free_components_owned:
  assumes "owns h (nodes_cell nodes xs 0 # map pointer_cell ys @ rest) fr" "xs = zs @ ys"
  shows "\<exists>h'. rc_free_components nodes (length zs) (length ys) h = Some h' \<and> owns h' (nodes_cell nodes xs 0 # rest) fr"
  using assms
proof (induction ys arbitrary: zs h)
  case (Cons y ys)
  obtain nm cp comps as n where y: "y = (nm, cp, comps, as, n)" by (cases y)
  have pc: "pointer_cell y = (cp, Pointers (map (Pair comps) [0..<length (components n)]))"
    by (simp add: y pointer_cell_def)
  have "owns h ((cp, Pointers (map (Pair comps) [0..<length (components n)]))
      # nodes_cell nodes xs 0 # map pointer_cell ys @ rest) fr"
    by (rule owns_perm [OF Cons.prems(1)]) (simp add: pc)
  from owns_free [OF this] obtain h1 where
    1: "c_free cp h = Some h1" "owns h1 (nodes_cell nodes xs 0 # map pointer_cell ys @ rest) fr" by blast
  have "hp_mem h nodes = Some (Node_array (map c_node_of xs))"
    using owns_at [OF Cons.prems(1), of nodes] by (simp add: nodes_cell_def)
  then have step: "rc_free_components nodes (length zs) (length (y # ys)) h = rc_free_components nodes (Suc (length zs)) (length ys) h1"
    using Cons.prems(2) 1(1) by (simp add: heap_reads nth_opt_def nth_append y c_node_of_def)
  from Cons.IH [OF 1(2), of "zs @ [y]"] Cons.prems(2) show ?case unfolding step by simp
qed simp

text \<open>A plugin that owns its faults \<open>fx\<close> and its nodes \<open>xs\<close>, which the server reads through \<open>lau\<close>.\<close>

definition manages :: "replay_c \<Rightarrow> addr \<Rightarrow> node_shape list \<Rightarrow> (addr \<rightharpoonup> block) \<Rightarrow> bool" where
  "manages s lau xs fr \<longleftrightarrow> (\<exists>fx. holds_faults s fx (nodes_cells (rc_nodes s) lau xs 0) fr)
     \<and> rc_node_ptr s = NULL \<and> unat (rc_nodes_num s) = length xs \<and> list_all shape_ok xs"

lemma cleanup_owned:
  assumes "manages s lau xs fr"
  shows "\<exists>s'. rc_cleanup s = Some s' \<and> rc_nodes s' = rc_nodes s
    \<and> owns (rc_heap s') (lau_cell lau (rc_nodes s) (length xs) 0 # concat (map leaked_cells xs)) fr"
proof -
  obtain h where free: "rc_free_faults s = Some (s\<lparr>rc_heap := h\<rparr>)" "owns h (nodes_cells (rc_nodes s) lau xs 0) fr"
    using assms free_faults_owned by (fastforce simp: manages_def)
  let ?rest = "lau_cell lau (rc_nodes s) (length xs) 0 # concat (map leaked_cells xs)"
  have "owns h (nodes_cell (rc_nodes s) xs 0 # map pointer_cell xs @ ?rest) fr"
    by (rule owns_perm [OF free(2)]) (simp add: nodes_cells_def)
  from free_components_owned [OF this, of "[]"] obtain h1 where
    1: "rc_free_components (rc_nodes s) 0 (length xs) h = Some h1" "owns h1 (nodes_cell (rc_nodes s) xs 0 # ?rest) fr" by auto
  obtain h2 where 2: "c_free (rc_nodes s) h1 = Some h2" "owns h2 ?rest fr"
    using owns_free [OF 1(2) [unfolded nodes_cell_def]] by blast
  show ?thesis using free(1) 1(1) 2 assms by (auto simp: rc_cleanup_def manages_def)
qed

text \<open>The plugin behind a successful \<open>get_nodes\<close> and \<open>n\<close> tics.\<close>

lemma tics_manage:
  assumes "heap_ok h" "replay_get_nodes (file_env env) (replay_start txt) = (Nodes ns, r)"
  shows "\<exists>lau s s1 xs. rc_get_nodes env NULL (rc_start txt h) = Some (0, lau, s)
    \<and> rc_tics env n s = Some (fst (fm_run (replay_fm (file_env env)) n r), s1)
    \<and> manages s1 lau xs (hp_mem h) \<and> ns = map shape_node xs"
proof -
  from get_nodes_refines [OF assms(1), of env 0 "txt", unfolded assms(2) prod.case nodes_result.case] obtain lau s xs where
    1: "rc_get_nodes env 0 (rc_start txt h) = Some (0, lau, s)"
      "owns (rc_heap s) (nodes_cells (rc_nodes s) lau xs 0) (hp_mem h)" "ns = map shape_node xs" "same_globals s r"
      "rc_node_ptr s = 0" "unat (rc_nodes_num s) = length xs" "rc_faults s = 0" "rc_num_fault s = 0" "list_all shape_ok xs"
    by blast
  have "rp_faults r = []" using rp_faults_get_nodes [of env "replay_start txt"] assms(2) by (simp add: replay_start_def)
  moreover let ?fr = "hp_mem h ++ map_of (nodes_cells (rc_nodes s) lau xs 0)"
  have "holds_faults s [] [] ?fr" using owns_hide [OF 1(2)] 1(7,8) by (simp add: holds_faults_def faults_cells_def)
  ultimately have "refines s r [] ?fr" using 1(4) by (auto simp: refines_def)
  from tics_refine [OF this, of env n] obtain s1 where
    2: "rc_tics env n s = Some (fst (fm_run (replay_fm (file_env env)) n r), s1)"
      "refines s1 (snd (fm_run (replay_fm (file_env env)) n r)) [] ?fr" "same_nodes s s1" by blast
  obtain fx where "holds_faults s1 fx [] ?fr" using 2(2) by (auto simp: refines_def)
  then have "holds_faults s1 fx (nodes_cells (rc_nodes s) lau xs 0) (hp_mem h)"
    using owns_join [OF _ 1(2)] by (simp add: holds_faults_def)
  then have "manages s1 lau xs (hp_mem h)" using 1(5,6,9) 2(3) by (auto simp: manages_def same_nodes_def)
  with 1(1,3) 2(1) show ?thesis by blast
qed

text \<open>
  The session with memory returns what the model returns. When the nodes can be read, exactly the
  array handed to the server and, for each node, its name, its array of components and their names
  are never freed; all else that was allocated is.
\<close>

lemma session_refines:
  assumes "heap_ok h"
  shows "case replay_get_nodes (file_env env) (replay_start txt) of
      (Nodes ns, r) \<Rightarrow> \<exists>h' lau nodes xs. rc_session env n txt h = Some (Inr (fst (fm_run (replay_fm (file_env env)) n r), h'))
        \<and> ns = map shape_node xs \<and> list_all shape_ok xs \<and> owns h' (lau_cell lau nodes (length xs) 0 # concat (map leaked_cells xs)) (hp_mem h)
    | (Nodes_error e, r) \<Rightarrow> rc_session env n txt h = Some (Inl e)
    | (Nodes_crash, r) \<Rightarrow> rc_session env n txt h = None"
proof -
  obtain res r where res: "replay_get_nodes (file_env env) (replay_start txt) = (res, r)" by fastforce
  note get = get_nodes_refines [OF assms, of env 0 "txt", unfolded res prod.case]
  show ?thesis
  proof (cases res)
    case (Nodes ns)
    then obtain lau s s1 xs where 1: "rc_get_nodes env 0 (rc_start txt h) = Some (0, lau, s)"
      "rc_tics env n s = Some (fst (fm_run (replay_fm (file_env env)) n r), s1)"
      "manages s1 lau xs (hp_mem h)" "ns = map shape_node xs"
      using tics_manage [OF assms, of env "txt" ns r n] res by blast
    obtain s2 where 2: "rc_cleanup s1 = Some s2"
      "owns (rc_heap s2) (lau_cell lau (rc_nodes s1) (length xs) 0 # concat (map leaked_cells xs)) (hp_mem h)"
      using cleanup_owned [OF 1(3)] by blast
    have "rc_session env n txt h = Some (Inr (fst (fm_run (replay_fm (file_env env)) n r), rc_heap s2))"
      using 1(1,2) 2(1) by (simp add: rc_session_def)
    with res Nodes 1(3,4) 2(2) show ?thesis by (auto simp: manages_def)
  qed (use res get get_nodes_error [of env "replay_start txt"] in \<open>auto simp: rc_session_def\<close>)
qed

lemma length_leaked: "shape_ok x \<Longrightarrow> length (leaked_cells x) = 2 + length (components (shape_node x))"
  by (simp add: shape_ok_def leaked_cells_def shape_node_def name_cells_def split_beta)

lemma length_all_leaked:
  "list_all shape_ok xs \<Longrightarrow> length (concat (map leaked_cells xs)) = (\<Sum>n\<leftarrow>map shape_node xs. 2 + length (components n))"
  by (induction xs) (simp_all add: length_leaked)

lemma session_leaks:
  assumes "heap_ok h" "replay_get_nodes (file_env env) (replay_start txt) = (Nodes ns, r)"
  shows "\<exists>h'. rc_session env n txt h = Some (Inr (fst (fm_run (replay_fm (file_env env)) n r), h'))
    \<and> hp_mem h \<subseteq>\<^sub>m hp_mem h'
    \<and> card (dom (hp_mem h') - dom (hp_mem h)) = 1 + (\<Sum>n\<leftarrow>ns. 2 + length (components n))"
proof -
  obtain h' lau nodes xs where s: "rc_session env n txt h = Some (Inr (fst (fm_run (replay_fm (file_env env)) n r), h'))"
    "ns = map shape_node xs" "list_all shape_ok xs"
    and own: "owns h' (lau_cell lau nodes (length xs) 0 # concat (map leaked_cells xs)) (hp_mem h)"
    using session_refines [OF assms(1), of env n "txt"] assms(2) by auto
  show ?thesis
    using s owns_dom [OF own] length_all_leaked [OF s(3)] by (auto simp del: length_concat)
qed

end
