(* ===== verification/Shutdown.thy ===== *)
theory Shutdown
  imports Replay_Nodes Mosquitto Server Logging
begin

text \<open>
  The end of the program (\<open>srv/main.cpp\<close>, \<open>plugin_manager::cleanup\<close>): the plugins are cleaned up in the
  order of their addresses, while the thread of the mosquitto plugin may still deliver messages and
  the logger plugin stays in use. The nodes are those in the memory of the replay plugin, which the
  server reads and writes through the array it got from \<open>get_nodes\<close>. What uses freed memory or a
  closed stream has no result (None).
\<close>

section \<open>The server's nodes in memory (server.cpp)\<close>

definition c_node_ref :: "addr \<Rightarrow> nat \<Rightarrow> heap \<Rightarrow> (cptr \<times> c_node) option" where
  "c_node_ref lau i h =
     do { ps \<leftarrow> pointers_at lau h; p \<leftarrow> nth_opt ps i; ns \<leftarrow> nodes_at (fst p) h; n \<leftarrow> nth_opt ns (snd p);
          Some (p, n) }"

fun c_set_node_state :: "addr \<Rightarrow> nat \<Rightarrow> nat \<Rightarrow> string \<Rightarrow> u32 \<Rightarrow> heap \<Rightarrow> (int \<times> heap) option" where
  "c_set_node_state lau i 0 name state h = Some (1, h)"
| "c_set_node_state lau i (Suc k) name state h =
     do { (p, n) \<leftarrow> c_node_ref lau i h;
          nm \<leftarrow> chars_at (cn_name n) h;
          if name = nm
          then do { h1 \<leftarrow> update_node (fst p) (snd p) (\<lambda>n. n\<lparr>cn_state := state\<rparr>) h; Some (0, h1) }
          else c_set_node_state lau (Suc i) k name state h }"

fun c_all_nodes_ready :: "addr \<Rightarrow> nat \<Rightarrow> nat \<Rightarrow> heap \<Rightarrow> bool option" where
  "c_all_nodes_ready lau i 0 h = Some True"
| "c_all_nodes_ready lau i (Suc k) h =
     do { (p, n) \<leftarrow> c_node_ref lau i h;
          if cn_state n \<noteq> NODE_STATE_READY then Some False else c_all_nodes_ready lau (Suc i) k h }"

section \<open>The state at the end\<close>

text \<open>
  \<open>sd_open\<close>: the file logger's stream is open; \<open>sd_running\<close>: the thread of the mosquitto plugin runs;
  \<open>sd_logger_used\<close> is the logger of the plugin manager.
\<close>

datatype shipped = P_replay | P_mosquitto | P_filelogger

datatype used_logger = Use_standard | Use_file

record shutdown =
  sd_rep :: replay_c
  sd_lau :: addr
  sd_num :: nat
  sd_mosq :: mosq
  sd_running :: bool
  sd_logger_used :: used_logger
  sd_std :: stdout_log
  sd_file :: file_log
  sd_open :: bool

definition sd_logf :: "log_level \<Rightarrow> string \<Rightarrow> shutdown \<Rightarrow> shutdown option" where
  "sd_logf l m s =
     (case sd_logger_used s of
        Use_standard \<Rightarrow> Some (s\<lparr>sd_std := log_stdout l m (sd_std s)\<rparr>)
      | Use_file \<Rightarrow> if fl_lvl (sd_file s) \<le> l \<and> \<not> sd_open s then None
                    else Some (s\<lparr>sd_file := logging_fun l m (sd_file s)\<rparr>))"

section \<open>Messages\<close>

definition sd_set_state :: "string \<Rightarrow> u32 \<Rightarrow> shutdown \<Rightarrow> shutdown option" where
  "sd_set_state name state s =
     do { (r, h) \<leftarrow> c_set_node_state (sd_lau s) 0 (sd_num s) name state (rc_heap (sd_rep s));
          Some (s\<lparr>sd_rep := (sd_rep s)\<lparr>rc_heap := h\<rparr>\<rparr>) }"

text \<open>\<open>Server::on_message\<close>; no other callback is set (\<open>server_init\<close>).\<close>

definition sd_on_message :: "(string \<Rightarrow> backchannel option) \<Rightarrow> string \<Rightarrow> shutdown \<Rightarrow> shutdown option" where
  "sd_on_message parse msg s =
     (case parse msg of
        None \<Rightarrow> sd_logf LL_Warning ''unable to decode message on backchannel'' s
      | Some back \<Rightarrow>
          (case bc_msgtype back of
             BC_LOG \<Rightarrow> (case bc_logerrmsg back of None \<Rightarrow> Some s | Some m \<Rightarrow> sd_logf LL_Info (c_str m) s)
           | BC_ERROR \<Rightarrow> (case bc_logerrmsg back of None \<Rightarrow> Some s | Some m \<Rightarrow> sd_logf LL_Error (c_str m) s)
           | BC_STATUS \<Rightarrow>
               (case bc_newstatus back of
                  None \<Rightarrow> sd_logf LL_Warning ''status message did not contain a status'' s
                | Some st \<Rightarrow>
                    let (status, state) = status_state st; name = c_str (bc_nodename back)
                    in do { s1 \<leftarrow> sd_set_state name state s;
                            sd_logf LL_Info (snprintf 127 (''['' @ name @ ''] new status: '' @ status)) s1 })
           | BC_OTHER \<Rightarrow> Some s))"

text \<open>A message reaches the plugin as long as its thread runs.\<close>

definition sd_message :: "(string \<Rightarrow> backchannel option) \<Rightarrow> string \<Rightarrow> shutdown \<Rightarrow> shutdown option" where
  "sd_message parse payload s =
     (if \<not> sd_running s then Some s
      else do { s1 \<leftarrow> sd_logf LL_Debug ''[MQTT] message received'' s;
                if payload = [] \<or> mq_callback (sd_mosq s1) = None then Some s1
                else sd_on_message parse payload s1 })"

fun sd_messages :: "(string \<Rightarrow> backchannel option) \<Rightarrow> string list \<Rightarrow> shutdown \<Rightarrow> shutdown option" where
  "sd_messages parse [] s = Some s"
| "sd_messages parse (m # ms) s = do { s1 \<leftarrow> sd_message parse m s; sd_messages parse ms s1 }"

section \<open>Clean-up\<close>

text \<open>
  The clean-up function of each plugin. The one of mosquitto disconnects, stops the thread, destroys
  the connection and logs; the one of the file logger closes the stream.
\<close>

definition sd_cleanup :: "mosq_ret \<Rightarrow> shipped \<Rightarrow> shutdown \<Rightarrow> shutdown option" where
  "sd_cleanup ret p s =
     (case p of
        P_replay \<Rightarrow> do { r \<leftarrow> rc_cleanup (sd_rep s); Some (s\<lparr>sd_rep := r\<rparr>) }
      | P_mosquitto \<Rightarrow>
          sd_logf LL_Debug ''[MQTT] lib cleanup''
            (s\<lparr>sd_mosq := snd (mosq_cleanup ret (sd_mosq s)),
               sd_running := (sd_running s \<and> \<not> mq_is_init (sd_mosq s))\<rparr>)
      | P_filelogger \<Rightarrow> if sd_open s then Some (s\<lparr>sd_open := False\<rparr>) else None)"

text \<open>The loop of \<open>plugin_manager::cleanup\<close>; \<open>inbox k\<close> are the messages that arrive before the \<open>k\<close>th step.\<close>

fun sd_cleanups ::
  "mosq_ret \<Rightarrow> (string \<Rightarrow> backchannel option) \<Rightarrow> (nat \<Rightarrow> string list) \<Rightarrow> nat \<Rightarrow> shipped list \<Rightarrow> shutdown
   \<Rightarrow> shutdown option" where
  "sd_cleanups ret parse inbox k [] s = Some s"
| "sd_cleanups ret parse inbox k (p # ps) s =
     do { s1 \<leftarrow> sd_messages parse (inbox k) s; s2 \<leftarrow> sd_cleanup ret p s1; sd_cleanups ret parse inbox (Suc k) ps s2 }"

definition cleanup_order :: "(ptr \<times> shipped) list \<Rightarrow> shipped list" where
  "cleanup_order ps = map snd (sort_key fst ps)"

text \<open>The end of \<open>main\<close>.\<close>

definition sd_end ::
  "mosq_ret \<Rightarrow> (string \<Rightarrow> backchannel option) \<Rightarrow> (nat \<Rightarrow> string list) \<Rightarrow> (ptr \<times> shipped) list \<Rightarrow> shutdown
   \<Rightarrow> shutdown option" where
  "sd_end ret parse inbox ps s =
     do { s1 \<leftarrow> sd_logf LL_Info ''cleaning up'' s; sd_cleanups ret parse inbox 0 (cleanup_order ps) s1 }"

text \<open>The state when \<open>main\<close> has left its loop: the thread runs, the file logger is in use and its stream open.\<close>

definition sd_start :: "replay_c \<Rightarrow> addr \<Rightarrow> nat \<Rightarrow> mosq \<Rightarrow> stdout_log \<Rightarrow> file_log \<Rightarrow> shutdown" where
  "sd_start rep lau num mosq std fl =
     \<lparr>sd_rep = rep, sd_lau = lau, sd_num = num, sd_mosq = mosq, sd_running = True, sd_logger_used = Use_file,
      sd_std = std, sd_file = fl, sd_open = True\<rparr>"

section \<open>The server's view of the plugin's memory\<close>

lemma node_ref_owned:
  assumes "owns h (nodes_cells nodes lau xs 0 @ rest) fr" "i < length xs"
  shows "c_node_ref lau i h = Some ((nodes, i), c_node_of (xs ! i))"
  using owns_at [OF assms(1), of lau "Pointers (map (Pair nodes) [0..<length xs])"]
    owns_at [OF assms(1), of nodes "Node_array (map c_node_of xs)"] assms(2)
  by (simp add: c_node_ref_def heap_reads nth_opt_def nodes_cells_def nodes_cell_def lau_cell_def)

definition with_state :: "u32 \<Rightarrow> node_shape \<Rightarrow> node_shape" where
  "with_state st x = (case x of (nm, cp, comps, as, n) \<Rightarrow> (nm, cp, comps, as, n\<lparr>node_state := st\<rparr>))"

lemma with_state_simps [simp]:
  "shape_node (with_state st x) = (shape_node x)\<lparr>node_state := st\<rparr>" "shape_ok (with_state st x) = shape_ok x"
  "leaked_cells (with_state st x) = leaked_cells x" "pointer_cell (with_state st x) = pointer_cell x"
  "c_node_of (with_state st x) = (c_node_of x)\<lparr>cn_state := st\<rparr>"
  by (cases x; simp add: with_state_def shape_node_def shape_ok_def leaked_cells_def pointer_cell_def c_node_of_def)+

lemma node_name_owned:
  assumes "owns h (nodes_cells nodes lau xs 0 @ rest) fr" "i < length xs"
  shows "chars_at (cn_name (c_node_of (xs ! i))) h = Some (node_name (shape_node (xs ! i)))"
proof -
  obtain nm cp comps as n where x: "xs ! i = (nm, cp, comps, as, n)" by (cases "xs ! i")
  have "(nm, Chars (node_name n)) \<in> set (leaked_cells (xs ! i))" by (simp add: x leaked_cells_def)
  then have "(nm, Chars (node_name n)) \<in> set (nodes_cells nodes lau xs 0 @ rest)"
    using nth_mem [OF assms(2)] by (auto simp: nodes_cells_def)
  from owns_at [OF assms(1) this] show ?thesis by (simp add: x c_node_of_def shape_node_def heap_reads)
qed

text \<open>
  The server's write reaches the node of the plugin: it is the update of the list of nodes in the
  model of the server.
\<close>

lemma set_node_state_owned:
  assumes "owns h (nodes_cells nodes lau (zs @ ys) 0 @ rest) fr"
  shows "\<exists>h' xs'. c_set_node_state lau (length zs) (length ys) name st h =
      Some (fst (set_state_in name st (map shape_node ys)), h')
    \<and> owns h' (nodes_cells nodes lau xs' 0 @ rest) fr \<and> length xs' = length (zs @ ys)
    \<and> map shape_node xs' = map shape_node zs @ snd (set_state_in name st (map shape_node ys))
    \<and> list_all shape_ok xs' = list_all shape_ok (zs @ ys)"
  using assms
proof (induction ys arbitrary: zs)
  case (Cons y ys)
  let ?xs = "zs @ y # ys" and ?i = "length zs"
  have ref: "c_node_ref lau ?i h = Some ((nodes, ?i), c_node_of y)"
    "chars_at (cn_name (c_node_of y)) h = Some (node_name (shape_node y))"
    using node_ref_owned [OF Cons.prems, of ?i] node_name_owned [OF Cons.prems, of ?i] by simp_all
  show ?case
  proof (cases "name = node_name (shape_node y)")
    case False
    with Cons.IH [of "zs @ [y]"] Cons.prems ref show ?thesis by (auto simp: split_beta)
  next
    case True
    let ?xs' = "zs @ with_state st y # ys" and ?upd = "\<lambda>n. n\<lparr>cn_state := st\<rparr>"
    let ?more = "lau_cell lau nodes (length ?xs) 0 # map pointer_cell ?xs @ concat (map leaked_cells ?xs) @ rest"
    have "owns h ((nodes, Node_array (map c_node_of ?xs)) # ?more) fr"
      by (rule owns_perm [OF Cons.prems]) (simp add: nodes_cells_def nodes_cell_def)
    from owns_update_node [OF this, of ?i ?upd] obtain h1 where 1: "update_node nodes ?i ?upd h = Some h1"
      "owns h1 ((nodes, Node_array (map c_node_of ?xs')) # ?more) fr"
      by (auto simp: list_update_append nth_append)
    have "owns h1 (nodes_cells nodes lau ?xs' 0 @ rest) fr"
      by (rule owns_perm [OF 1(2)]) (simp add: nodes_cells_def nodes_cell_def)
    with True ref 1(1) show ?thesis by (auto intro!: exI [of _ ?xs'])
  qed
qed auto

lemma all_nodes_ready_owned:
  assumes "owns h (nodes_cells nodes lau (zs @ ys) 0 @ rest) fr"
  shows "c_all_nodes_ready lau (length zs) (length ys) h =
    Some (list_all (\<lambda>n. node_state n = NODE_STATE_READY) (map shape_node ys))"
  using assms
proof (induction ys arbitrary: zs)
  case (Cons y ys)
  have "c_node_ref lau (length zs) h = Some ((nodes, length zs), c_node_of y)"
    using node_ref_owned [OF Cons.prems, of "length zs"] by simp
  with Cons.IH [of "zs @ [y]"] Cons.prems show ?case by (simp add: c_node_of_def shape_node_def split_beta)
qed simp

section \<open>When the end is well defined\<close>

text \<open>
  The state in which the clean-up begins: the replay plugin manages the nodes that the server has,
  the mosquitto plugin is connected and its thread runs with the server's callback.
\<close>

definition serving :: "shutdown \<Rightarrow> bool" where
  "serving s \<longleftrightarrow> (\<exists>xs fr. manages (sd_rep s) (sd_lau s) xs fr \<and> sd_num s = length xs)
     \<and> sd_running s \<and> mq_is_init (sd_mosq s) \<and> mq_callback (sd_mosq s) \<noteq> None \<and> sd_open s"

definition same_control :: "shutdown \<Rightarrow> shutdown \<Rightarrow> bool" where
  "same_control s s' \<longleftrightarrow> sd_lau s' = sd_lau s \<and> sd_num s' = sd_num s \<and> sd_mosq s' = sd_mosq s \<and> sd_running s' = sd_running s
     \<and> sd_logger_used s' = sd_logger_used s \<and> fl_lvl (sd_file s') = fl_lvl (sd_file s) \<and> sd_open s' = sd_open s"

lemma same_control_trans: "same_control s s' \<Longrightarrow> same_control s' s'' \<Longrightarrow> same_control s s''"
  by (simp add: same_control_def)

lemma logf_open:
  assumes "sd_open s"
  shows "\<exists>s'. sd_logf l m s = Some s' \<and> same_control s s' \<and> sd_rep s' = sd_rep s"
  using assms flog.level_log by (auto simp: sd_logf_def same_control_def split: used_logger.split)

lemma set_state_serving:
  assumes "serving s"
  shows "\<exists>s'. sd_set_state name st s = Some s' \<and> same_control s s' \<and> serving s'"
proof -
  obtain xs fr fx where xs: "manages (sd_rep s) (sd_lau s) xs fr" "sd_num s = length xs"
    "holds_faults (sd_rep s) fx (nodes_cells (rc_nodes (sd_rep s)) (sd_lau s) xs 0) fr"
    using assms by (auto simp: serving_def manages_def)
  let ?faults = "faults_cells (rc_faults (sd_rep s)) fx" and ?nodes = "rc_nodes (sd_rep s)"
  have "owns (rc_heap (sd_rep s)) (?faults @ nodes_cells ?nodes (sd_lau s) xs 0) fr" using xs(3) by (simp add: holds_faults_def)
  then have "owns (rc_heap (sd_rep s)) (nodes_cells ?nodes (sd_lau s) ([] @ xs) 0 @ ?faults) fr"
    by (rule owns_perm) simp
  from set_node_state_owned [OF this, of name st] obtain h' xs' r where
    1: "c_set_node_state (sd_lau s) 0 (length xs) name st (rc_heap (sd_rep s)) = Some (r, h')"
      "owns h' (nodes_cells ?nodes (sd_lau s) xs' 0 @ ?faults) fr" "length xs' = length xs" "list_all shape_ok xs' = list_all shape_ok xs"
    by auto
  have "owns h' (?faults @ nodes_cells ?nodes (sd_lau s) xs' 0) fr" by (rule owns_perm [OF 1(2)]) simp
  with xs(1,3) 1(3,4) have "manages ((sd_rep s)\<lparr>rc_heap := h'\<rparr>) (sd_lau s) xs' fr"
    by (auto simp: manages_def holds_faults_def)
  with assms xs(2) 1 show ?thesis by (auto simp: sd_set_state_def serving_def same_control_def)
qed

lemma serving_log: "serving s \<Longrightarrow> \<exists>s'. sd_logf l m s = Some s' \<and> same_control s s' \<and> serving s'"
  using logf_open [of s l m] unfolding serving_def same_control_def by metis

lemma message_serving:
  assumes "serving s"
  shows "\<exists>s'. sd_message parse m s = Some s' \<and> same_control s s' \<and> serving s'"
proof -
  obtain s1 where 1: "sd_logf LL_Debug ''[MQTT] message received'' s = Some s1" "same_control s s1" "serving s1"
    using serving_log [OF assms] by blast
  have "\<exists>s'. sd_on_message parse m s1 = Some s' \<and> same_control s1 s' \<and> serving s'"
  proof (cases "\<exists>bk st. parse m = Some bk \<and> bc_msgtype bk = BC_STATUS \<and> bc_newstatus bk = Some st")
    case True
    then obtain bk st where b: "parse m = Some bk" "bc_msgtype bk = BC_STATUS" "bc_newstatus bk = Some st" by blast
    obtain s2 where "sd_set_state (c_str (bc_nodename bk)) (snd (status_state st)) s1 = Some s2" "same_control s1 s2" "serving s2"
      using set_state_serving [OF 1(3)] by blast
    with serving_log [OF this(3)] b show ?thesis
      using same_control_trans by (fastforce simp: sd_on_message_def split_beta Let_def)
  next
    case False
    have "\<exists>s'. Some s1 = Some s' \<and> same_control s1 s' \<and> serving s'" using 1(3) by (simp add: same_control_def)
    with False serving_log [OF 1(3)] show ?thesis
      by (auto simp: sd_on_message_def split: option.split bc_type.split)
  qed
  with 1 assms show ?thesis
    using same_control_trans by (fastforce simp: sd_message_def serving_def)
qed

lemma messages_serving:
  "serving s \<Longrightarrow> \<exists>s'. sd_messages parse ms s = Some s' \<and> same_control s s' \<and> serving s'"
proof (induction ms arbitrary: s)
  case Nil
  then show ?case by (simp add: same_control_def)
next
  case (Cons m ms)
  obtain s1 where 1: "sd_message parse m s = Some s1" "same_control s s1" "serving s1"
    using message_serving [OF Cons.prems] by blast
  with Cons.IH [OF 1(3)] same_control_trans [OF 1(2)] show ?case by auto
qed

lemma messages_idle: "\<not> sd_running s \<Longrightarrow> sd_messages parse ms s = Some s"
  by (induction ms) (simp_all add: sd_message_def)

text \<open>Mosquitto first: no message can arrive any more and the logger is open for its last line.\<close>

lemma mosquitto_first_ok:
  assumes "serving s" "rest = [P_replay, P_filelogger] \<or> rest = [P_filelogger, P_replay]"
  shows "sd_cleanups ret parse inbox k (P_mosquitto # rest) s \<noteq> None"
proof -
  obtain s1 where 1: "sd_messages parse (inbox k) s = Some s1" "serving s1"
    using messages_serving [OF assms(1)] by blast
  let ?s = "s1\<lparr>sd_mosq := snd (mosq_cleanup ret (sd_mosq s1)), sd_running := sd_running s1 \<and> \<not> mq_is_init (sd_mosq s1)\<rparr>"
  obtain s2 where 2: "sd_logf LL_Debug ''[MQTT] lib cleanup'' ?s = Some s2" "same_control ?s s2" "sd_rep s2 = sd_rep s1"
    using logf_open [of ?s] 1(2) by (auto simp: serving_def)
  have idle: "\<not> sd_running s2" "sd_open s2" using 1(2) 2(2) by (auto simp: same_control_def serving_def)
  obtain r where "rc_cleanup (sd_rep s2) = Some r"
    using 1(2) 2(3) cleanup_owned by (fastforce simp: serving_def)
  with 1(1) 2(1) idle assms(2) show ?thesis
    by (auto simp: sd_cleanup_def messages_idle)
qed

text \<open>Behind the clean-up of the replay plugin the server's nodes are gone.\<close>

lemma node_ref_freed:
  assumes "manages r lau xs fr" "rc_cleanup r = Some r'" "i < length xs"
  shows "c_node_ref lau i (rc_heap r') = None"
proof -
  obtain fx where fx: "holds_faults r fx (nodes_cells (rc_nodes r) lau xs 0) fr" using assms(1) by (auto simp: manages_def)
  have own: "owns (rc_heap r') (lau_cell lau (rc_nodes r) (length xs) 0 # concat (map leaked_cells xs)) fr"
    using cleanup_owned [OF assms(1)] assms(2) by auto
  have "owns (rc_heap r) (faults_cells (rc_faults r) fx @ nodes_cells (rc_nodes r) lau xs 0) fr"
    using fx by (simp add: holds_faults_def)
  then have "rc_nodes r \<notin> fst ` set (lau_cell lau (rc_nodes r) (length xs) 0 # concat (map leaked_cells xs))" "fr (rc_nodes r) = None"
    by (auto simp: owns_def nodes_cells_def nodes_cell_def)
  with own have "hp_mem (rc_heap r') (rc_nodes r) = None"
    unfolding owns_def by (simp add: map_add_None map_of_eq_None_iff)
  with owns_at [OF own, of lau "Pointers (map (Pair (rc_nodes r)) [0..<length xs])"] assms(3) show ?thesis
    by (simp add: c_node_ref_def heap_reads nth_opt_def lau_cell_def)
qed

lemma replay_before_mosquitto:
  assumes "serving s" "sd_num s \<noteq> 0" "m \<noteq> []"
    and "parse m = Some bk" "bc_msgtype bk = BC_STATUS" "bc_newstatus bk = Some st"
  shows "sd_cleanups ret parse (\<lambda>k. if k = 1 then [m] else []) 0 (P_replay # p # ps) s = None"
proof -
  obtain xs fr where xs: "manages (sd_rep s) (sd_lau s) xs fr" "sd_num s = length xs" using assms(1) by (auto simp: serving_def)
  obtain r where r: "rc_cleanup (sd_rep s) = Some r" using cleanup_owned [OF xs(1)] by blast
  obtain s1 where 1: "sd_logf LL_Debug ''[MQTT] message received'' (s\<lparr>sd_rep := r\<rparr>) = Some s1"
    "same_control (s\<lparr>sd_rep := r\<rparr>) s1" "sd_rep s1 = r"
    using logf_open [of "s\<lparr>sd_rep := r\<rparr>"] assms(1) by (auto simp: serving_def)
  have "sd_set_state name state s1 = None" for name state
    using node_ref_freed [OF xs(1) r, of 0] assms(2) xs(2) 1
    by (cases "length xs") (auto simp: sd_set_state_def same_control_def)
  then have "sd_message parse m (s\<lparr>sd_rep := r\<rparr>) = None"
    using 1 assms by (auto simp: sd_message_def sd_on_message_def serving_def same_control_def split_beta Let_def)
  with r show ?thesis by (simp add: sd_cleanup_def)
qed

text \<open>Behind the clean-up of the file logger, mosquitto's last log line goes to a closed stream.\<close>

lemma filelogger_before_mosquitto:
  assumes "serving s" "sd_logger_used s = Use_file" "fl_lvl (sd_file s) \<le> LL_Debug"
    and "rest = [P_mosquitto] \<or> rest = [P_mosquitto, P_replay] \<or> rest = [P_replay, P_mosquitto]"
  shows "sd_cleanups ret parse (\<lambda>k. []) 0 (P_filelogger # rest) s = None"
proof -
  obtain xs fr where xs: "manages (sd_rep s) (sd_lau s) xs fr" using assms(1) by (auto simp: serving_def)
  obtain r where "rc_cleanup (sd_rep s) = Some r" using cleanup_owned [OF xs] by blast
  with assms show ?thesis by (auto simp: sd_cleanup_def sd_logf_def serving_def)
qed

lemma cleanup_order_three:
  "distinct [a, b, c] \<Longrightarrow> cleanup_order [(a, P_replay), (b, P_mosquitto), (c, P_filelogger)] =
    (if b < a \<and> b < c then P_mosquitto # (if a < c then [P_replay, P_filelogger] else [P_filelogger, P_replay])
     else if a < c then P_replay # (if b < c then [P_mosquitto, P_filelogger] else [P_filelogger, P_mosquitto])
     else P_filelogger # (if a < b then [P_replay, P_mosquitto] else [P_mosquitto, P_replay]))"
  by (auto simp: cleanup_order_def)

lemma shutdown_defined_iff:
  assumes "serving s" "sd_num s \<noteq> 0" "sd_logger_used s = Use_file" "fl_lvl (sd_file s) \<le> LL_Debug" "distinct [a, b, c]"
    and "m \<noteq> []" "parse m = Some bk" "bc_msgtype bk = BC_STATUS" "bc_newstatus bk = Some st"
  shows "(\<forall>inbox. sd_end ret parse inbox [(a, P_replay), (b, P_mosquitto), (c, P_filelogger)] s \<noteq> None)
    \<longleftrightarrow> b < a \<and> b < c"
proof -
  obtain s1 where 1: "sd_logf LL_Info ''cleaning up'' s = Some s1" "same_control s s1" "serving s1"
    using serving_log [OF assms(1)] by blast
  have s1: "sd_num s1 \<noteq> 0" "sd_logger_used s1 = Use_file" "fl_lvl (sd_file s1) \<le> LL_Debug"
    using 1(2) assms(2-4) by (simp_all add: same_control_def)
  have endd: "sd_end ret parse inbox [(a, P_replay), (b, P_mosquitto), (c, P_filelogger)] s =
    sd_cleanups ret parse inbox 0 (cleanup_order [(a, P_replay), (b, P_mosquitto), (c, P_filelogger)]) s1" for inbox
    using 1(1) by (simp add: sd_end_def)
  show ?thesis
  proof
    assume "b < a \<and> b < c"
    then show "\<forall>inbox. sd_end ret parse inbox [(a, P_replay), (b, P_mosquitto), (c, P_filelogger)] s \<noteq> None"
      using mosquitto_first_ok [OF 1(3)] by (simp add: endd cleanup_order_three [OF assms(5)])
  next
    assume all: "\<forall>inbox. sd_end ret parse inbox [(a, P_replay), (b, P_mosquitto), (c, P_filelogger)] s \<noteq> None"
    show "b < a \<and> b < c"
    proof (rule ccontr)
      assume no: "\<not> (b < a \<and> b < c)"
      show False
      proof (cases "a < c")
        case True
        note bad = replay_before_mosquitto [of s1 m parse bk st ret, OF 1(3) s1(1) assms(6-9)]
        from True no spec [OF all, of "\<lambda>k. if k = 1 then [m] else []"] bad show False
          by (simp add: endd cleanup_order_three [OF assms(5)] del: sd_cleanups.simps split: if_splits)
      next
        case False
        note bad = filelogger_before_mosquitto [OF 1(3) s1(2,3), of _ ret parse]
        from False no spec [OF all, of "\<lambda>k. []"] bad show False
          by (simp add: endd cleanup_order_three [OF assms(5)] del: sd_cleanups.simps split: if_splits)
      qed
    qed
  qed
qed

end
