(* ===== verification/Preload.thy ===== *)
theory Preload
  imports Backend
begin

text \<open>
  The backend that is preloaded into the application (\<open>client/src/preload.c\<close>). It keeps the
  sockets the application opens, and shuts them down when the network fails.

  The array of sockets is a pointer to the heap: null, a block with the sockets in it, or a block
  that was freed. \<open>usable n\<close> is the size of the block the allocator gives for a request of \<open>n\<close>
  bytes. None is what C leaves undefined: a block freed twice or reallocated after it was freed, or
  a write behind a block. The libc functions that are hooked are given by their results.
\<close>

section \<open>State\<close>

datatype fds = Fds_null | Fds_block "int list" | Fds_freed

record preload =
  pre_net_state :: u64
  pre_is_init :: bool
  pre_fds :: fds
  pre_req_close_fds :: "int \<times> int"
  pre_shutdown :: "int list"
  pre_closed :: "int list"

definition preload_load :: preload where
  "preload_load = \<lparr>pre_net_state = 0, pre_is_init = False, pre_fds = Fds_null, pre_req_close_fds = (0, 0),
                   pre_shutdown = [], pre_closed = []\<rparr>"

definition sizeof_int :: nat where "sizeof_int = 4"

text \<open>The first \<open>num_fds\<close> elements of the array; a freed array has \<open>num_fds = 0\<close>.\<close>

definition tracked :: "preload \<Rightarrow> int list" where
  "tracked s = (case pre_fds s of Fds_block xs \<Rightarrow> xs | _ \<Rightarrow> [])"

section \<open>Faults\<close>

definition pre_switch_net :: "u64 \<Rightarrow> preload \<Rightarrow> (int \<times> preload) option" where
  "pre_switch_net severity s =
     (if pre_net_state s = 0 \<and> severity \<noteq> 0 then
        (let s1 = s\<lparr>pre_shutdown := pre_shutdown s @ tracked s\<rparr>
         in case pre_fds s of
              Fds_freed \<Rightarrow> None
            | Fds_null \<Rightarrow> Some (0, s1\<lparr>pre_net_state := 1\<rparr>)
            | Fds_block _ \<Rightarrow> Some (0, s1\<lparr>pre_fds := Fds_freed, pre_net_state := 1\<rparr>))
      else if pre_net_state s \<noteq> 0 \<and> severity = 0 then Some (0, s\<lparr>pre_net_state := 0\<rparr>)
      else Some (0, s))"

definition pre_set_state :: "u32 \<Rightarrow> u64 \<Rightarrow> preload \<Rightarrow> preload set_result" where
  "pre_set_state sys severity s =
     (if sys = SUBSYS_NET then
        (case pre_switch_net severity s of None \<Rightarrow> Undefined | Some (r, s') \<Rightarrow> Returned r s')
      else if sys = SUBSYS_PWR then Exited s
      else if sys = SUBSYS_MEM then Returned 0 s
      else Returned 1 s)"

text \<open>The clean-up switches with severity 0, which frees nothing.\<close>

definition pre_cleanup :: "preload \<Rightarrow> preload" where
  "pre_cleanup s = (case pre_switch_net 0 s of None \<Rightarrow> s | Some (_, s') \<Rightarrow> s')"

definition preload_method :: "preload injector" where
  "preload_method = \<lparr>mth_set_state = pre_set_state, mth_cleanup = pre_cleanup, mth_exit_fifo = fifo_cleanup\<rparr>"

section \<open>The list of sockets\<close>

definition add_sock_to_list :: "(nat \<Rightarrow> nat) \<Rightarrow> int \<Rightarrow> preload \<Rightarrow> (int \<times> preload) option" where
  "add_sock_to_list usable sock s =
     (if sock < 0 then Some (1, s)
      else if pre_fds s = Fds_freed then None
      else
        let num_fds = Suc (length (tracked s))
        in if usable num_fds < sizeof_int * num_fds then None
           else Some (0, s\<lparr>pre_fds := Fds_block (tracked s @ [sock])\<rparr>))"

definition is_in_list :: "int \<Rightarrow> preload \<Rightarrow> bool" where
  "is_in_list sock s = list_ex (\<lambda>fd. fd = sock) (tracked s)"

fun remove_first :: "int \<Rightarrow> int list \<Rightarrow> int list option" where
  "remove_first sock [] = None"
| "remove_first sock (fd # fds) =
     (if fd = sock then Some fds else map_option (Cons fd) (remove_first sock fds))"

definition remove_sock_from_list :: "int \<Rightarrow> preload \<Rightarrow> int \<times> preload" where
  "remove_sock_from_list sock s =
     (case remove_first sock (tracked s) of
        None \<Rightarrow> (1, s)
      | Some fds \<Rightarrow> (0, s\<lparr>pre_fds := Fds_block fds\<rparr>))"

section \<open>The hooks\<close>

definition pre_accept :: "(nat \<Rightarrow> nat) \<Rightarrow> int \<Rightarrow> int \<Rightarrow> preload \<Rightarrow> (int \<times> preload) option" where
  "pre_accept usable ret sock s =
     (if is_in_list sock s then map_option (\<lambda>(_, s'). (ret, s')) (add_sock_to_list usable ret s)
      else Some (ret, s))"

abbreviation (input) AF_INET :: int where "AF_INET \<equiv> 2"
abbreviation (input) AF_INET6 :: int where "AF_INET6 \<equiv> 10"

definition pre_socket :: "(nat \<Rightarrow> nat) \<Rightarrow> int \<Rightarrow> int \<Rightarrow> preload \<Rightarrow> (int \<times> preload) option" where
  "pre_socket usable ret domain s =
     (if domain = AF_INET \<or> domain = AF_INET6
      then map_option (\<lambda>(_, s'). (ret, s')) (add_sock_to_list usable ret s)
      else Some (ret, s))"

definition pre_close :: "int \<Rightarrow> int \<Rightarrow> preload \<Rightarrow> int \<times> preload" where
  "pre_close ret fd s =
     (let s1 = snd (remove_sock_from_list fd s) in (ret, s1\<lparr>pre_closed := pre_closed s1 @ [fd]\<rparr>))"

text \<open>
  \<open>init_hooks\<close>: \<open>pipe\<close> gives None or two descriptors; resolving the libc functions is not modelled.
  \<open>lauSim_init\<close> starts the thread that runs \<open>lauSim_main\<close>; its None is a null pointer.
\<close>

definition init_hooks ::
  "(int \<times> int) option \<Rightarrow> bool \<Rightarrow> string option \<Rightarrow> fifo_state \<times> preload \<Rightarrow> (int \<times> fifo_state \<times> preload) option" where
  "init_hooks pipe mkfifo_ok fopen = (\<lambda>(f, s).
     if pre_is_init s then Some (0, f, s)
     else case pipe of
            None \<Rightarrow> Some (1, f, s)
          | Some fds \<Rightarrow>
              map_option (\<lambda>f'. (0, f', s\<lparr>pre_req_close_fds := fds, pre_is_init := True\<rparr>))
                (backend_init mkfifo_ok fopen f))"

text \<open>The destructor closes the reading end of the pipe twice.\<close>

definition hook_cleanup :: "preload \<Rightarrow> preload" where
  "hook_cleanup s = s\<lparr>pre_closed := pre_closed s @ [fst (pre_req_close_fds s), fst (pre_req_close_fds s)]\<rparr>"

section \<open>Tracking\<close>

text \<open>
  What the application does, with the results of the kernel. The specification keeps the set of
  sockets that a network fault has to shut down.
\<close>

datatype sock_event = Ev_socket int int | Ev_accept int int | Ev_close int

fun sock_step :: "(nat \<Rightarrow> nat) \<Rightarrow> sock_event \<Rightarrow> preload \<Rightarrow> preload option" where
  "sock_step usable (Ev_socket domain ret) s = map_option snd (pre_socket usable ret domain s)"
| "sock_step usable (Ev_accept sock ret) s = map_option snd (pre_accept usable ret sock s)"
| "sock_step usable (Ev_close fd) s = Some (snd (pre_close 0 fd s))"

fun sock_run :: "(nat \<Rightarrow> nat) \<Rightarrow> sock_event list \<Rightarrow> preload \<Rightarrow> preload option" where
  "sock_run usable [] s = Some s"
| "sock_run usable (e # es) s =
     (case sock_step usable e s of None \<Rightarrow> None | Some s' \<Rightarrow> sock_run usable es s')"

fun spec_step :: "sock_event \<Rightarrow> int set \<Rightarrow> int set" where
  "spec_step (Ev_socket domain ret) S =
     (if (domain = AF_INET \<or> domain = AF_INET6) \<and> 0 \<le> ret then insert ret S else S)"
| "spec_step (Ev_accept sock ret) S = (if sock \<in> S \<and> 0 \<le> ret then insert ret S else S)"
| "spec_step (Ev_close fd) S = S - {fd}"

text \<open>The kernel never returns a descriptor that is open.\<close>

fun fresh_fd :: "sock_event \<Rightarrow> int set \<Rightarrow> bool" where
  "fresh_fd (Ev_socket domain ret) S = (ret \<notin> S)"
| "fresh_fd (Ev_accept sock ret) S = (ret \<notin> S)"
| "fresh_fd (Ev_close fd) S = True"

fun fresh_run :: "sock_event list \<Rightarrow> int set \<Rightarrow> bool" where
  "fresh_run [] S = True"
| "fresh_run (e # es) S = (fresh_fd e S \<and> fresh_run es (spec_step e S))"

definition fds_fit :: "(nat \<Rightarrow> nat) \<Rightarrow> nat \<Rightarrow> bool" where
  "fds_fit usable n \<longleftrightarrow> (\<forall>k \<le> n. sizeof_int * k \<le> usable k)"

lemma remove_first_distinct:
  "distinct fds \<Longrightarrow> (case remove_first sock fds of
     None \<Rightarrow> sock \<notin> set fds
   | Some r \<Rightarrow> distinct r \<and> set r = set fds - {sock} \<and> length fds = Suc (length r))"
  by (induction fds) (auto split: option.splits)

lemma add_sock_fits:
  assumes "fds_fit usable (Suc (length (tracked s)))" "pre_fds s \<noteq> Fds_freed"
  shows "add_sock_to_list usable sock s =
    (if sock < 0 then Some (1, s) else Some (0, s\<lparr>pre_fds := Fds_block (tracked s @ [sock])\<rparr>))"
  using assms unfolding add_sock_to_list_def fds_fit_def
  by (auto simp: Let_def not_less dest: spec [of _ "Suc (length (tracked s))"])

lemma tracked_block [simp]: "tracked (s\<lparr>pre_fds := Fds_block xs\<rparr>) = xs"
  by (simp add: tracked_def)

lemma remove_sock_tracked:
  assumes "distinct (tracked s)" "pre_fds s \<noteq> Fds_freed"
  shows "distinct (tracked (snd (remove_sock_from_list fd s)))
    \<and> set (tracked (snd (remove_sock_from_list fd s))) = set (tracked s) - {fd}
    \<and> length (tracked (snd (remove_sock_from_list fd s))) \<le> length (tracked s)
    \<and> pre_fds (snd (remove_sock_from_list fd s)) \<noteq> Fds_freed"
  using remove_first_distinct [OF assms(1), of fd] assms
  by (auto simp: remove_sock_from_list_def split: option.splits)

text \<open>One step refines the specification, as long as the array fits and was not freed.\<close>

lemma sock_step_tracked:
  assumes "distinct (tracked s)" "pre_fds s \<noteq> Fds_freed" "fresh_fd e (set (tracked s))"
    and "fds_fit usable (Suc (length (tracked s)))"
  obtains s' where "sock_step usable e s = Some s'" "distinct (tracked s')" "pre_fds s' \<noteq> Fds_freed"
    "set (tracked s') = spec_step e (set (tracked s))" "length (tracked s') \<le> Suc (length (tracked s))"
    "pre_net_state s' = pre_net_state s" "pre_shutdown s' = pre_shutdown s"
proof (cases e)
  case (Ev_socket domain ret)
  then show thesis
    using assms add_sock_fits [OF assms(4,2)]
    by (intro that [of "if (domain = AF_INET \<or> domain = AF_INET6) \<and> 0 \<le> ret
          then s\<lparr>pre_fds := Fds_block (tracked s @ [ret])\<rparr> else s"]) (auto simp: pre_socket_def)
next
  case (Ev_accept sock ret)
  then show thesis
    using assms add_sock_fits [OF assms(4,2)]
    by (intro that [of "if sock \<in> set (tracked s) \<and> 0 \<le> ret
          then s\<lparr>pre_fds := Fds_block (tracked s @ [ret])\<rparr> else s"])
       (auto simp: pre_accept_def is_in_list_def list_ex_iff)
next
  case (Ev_close fd)
  let ?s1 = "snd (remove_sock_from_list fd s)"
  have "tracked (?s1\<lparr>pre_closed := xs\<rparr>) = tracked ?s1" for xs by (simp add: tracked_def)
  moreover have "pre_net_state ?s1 = pre_net_state s" "pre_shutdown ?s1 = pre_shutdown s"
    by (simp_all add: remove_sock_from_list_def split: option.split)
  ultimately show thesis
    using Ev_close remove_sock_tracked [OF assms(1,2), of fd]
    by (intro that [of "?s1\<lparr>pre_closed := pre_closed ?s1 @ [fd]\<rparr>"]) (auto simp: pre_close_def Let_def)
qed

lemma sock_run_tracked:
  assumes "distinct (tracked s)" "pre_fds s \<noteq> Fds_freed" "fresh_run es (set (tracked s))"
    and "fds_fit usable (length (tracked s) + length es)"
  shows "\<exists>s'. sock_run usable es s = Some s' \<and> distinct (tracked s') \<and> pre_fds s' \<noteq> Fds_freed
    \<and> set (tracked s') = fold spec_step es (set (tracked s))
    \<and> pre_net_state s' = pre_net_state s \<and> pre_shutdown s' = pre_shutdown s"
  using assms
proof (induction es arbitrary: s)
  case (Cons e es)
  have fit: "fds_fit usable (Suc (length (tracked s)))" using Cons.prems(4) by (simp add: fds_fit_def)
  have fresh: "fresh_fd e (set (tracked s))" using Cons.prems(3) by simp
  obtain s1 where s1: "sock_step usable e s = Some s1" "distinct (tracked s1)" "pre_fds s1 \<noteq> Fds_freed"
    "set (tracked s1) = spec_step e (set (tracked s))" "length (tracked s1) \<le> Suc (length (tracked s))"
    "pre_net_state s1 = pre_net_state s" "pre_shutdown s1 = pre_shutdown s"
    by (rule sock_step_tracked [OF Cons.prems(1,2) fresh fit])
  moreover have "fds_fit usable (length (tracked s1) + length es)"
    using Cons.prems(4) s1(5) by (simp add: fds_fit_def)
  ultimately show ?case
    using Cons.IH [of s1] Cons.prems(3) by simp
qed simp

text \<open>A network fault shuts down what is tracked, and leaves the array freed.\<close>

lemma switch_net_fail:
  assumes "pre_net_state s = 0" "severity \<noteq> 0" "pre_fds s \<noteq> Fds_freed"
  obtains s' where "pre_switch_net severity s = Some (0, s')" "pre_net_state s' = 1"
    "pre_shutdown s' = pre_shutdown s @ tracked s" "pre_fds s' = (if pre_fds s = Fds_null then Fds_null else Fds_freed)"
  using assms by (cases "pre_fds s") (auto simp: pre_switch_net_def Let_def tracked_def)

section \<open>The method contract\<close>

lemma pre_method_sel [simp]:
  "mth_set_state preload_method = pre_set_state" "mth_cleanup preload_method = pre_cleanup"
  by (simp_all add: preload_method_def)

text \<open>It holds as long as the application opens no socket: the array stays a null pointer.\<close>

interpretation pre: injection_method preload_method "\<lambda>s. pre_fds s = Fds_null" "\<lambda>s. pre_net_state s \<noteq> 0"
  by unfold_locales (auto simp: pre_set_state_def pre_switch_net_def pre_cleanup_def Let_def)

text \<open>
  With a socket it does not: after a network fault the next socket reallocates the freed array,
  and the next network fault frees it again.
\<close>

lemma preload_use_after_free:
  assumes "pre_fds s = Fds_block xs" "pre_net_state s = 0" "severity \<noteq> 0" "pre_switch_net severity s = Some (r, s1)"
  shows "0 \<le> sock \<Longrightarrow> add_sock_to_list usable sock s1 = None"
    and "pre_switch_net 0 s1 = Some (r', s2) \<Longrightarrow> pre_switch_net severity s2 = None"
  using assms by (auto simp: pre_switch_net_def add_sock_to_list_def Let_def)

end
