(* ===== verification/Preload_Threads.thy ===== *)
theory Preload_Threads
  imports Preload
begin

text \<open>
  The preloaded library (\<open>client/src/preload.c\<close>) with several threads: those of the application, which
  call the hooks, and the one of the backend, which switches the network. A step is a call of the
  kernel, a critical section under \<open>fds_mutex\<close>, or the one access outside of it: \<open>is_in_list\<close> compares
  the index it found with \<open>num_fds\<close> after it has released the mutex.
\<close>

section \<open>States\<close>

datatype fd_kind = Inet_socket | Other_socket | Plain_file

text \<open>Where a thread of the application is in a hook, and the descriptor it is about.\<close>

datatype hook_pc =
    Outside
  | Opened int fd_kind
  | Accepted int int
  | Scanned nat int
  | Adding int
  | Closing int

text \<open>\<open>td_open\<close> is the kernel's table of open descriptors.\<close>

record threads =
  td_pre :: preload
  td_open :: "int \<Rightarrow> fd_kind option"
  td_pc :: "hook_pc list"

definition threads_start :: "nat \<Rightarrow> threads" where
  "threads_start n = \<lparr>td_pre = preload_load, td_open = (\<lambda>_. None), td_pc = replicate n Outside\<rparr>"

section \<open>Steps\<close>

text \<open>The loop of \<open>is_in_list\<close>: the index of the socket, or the number of sockets.\<close>

fun scan_list :: "int \<Rightarrow> int list \<Rightarrow> nat" where
  "scan_list sock [] = 0"
| "scan_list sock (fd # fds) = (if fd = sock then 0 else Suc (scan_list sock fds))"

text \<open>The kernel gives out a descriptor that is not in use, or an error.\<close>

definition kernel_new :: "fd_kind \<Rightarrow> int \<Rightarrow> (int \<Rightarrow> fd_kind option) \<Rightarrow> (int \<Rightarrow> fd_kind option) option" where
  "kernel_new k ret tab = (if ret < 0 then Some tab else if tab ret = None then Some (tab(ret \<mapsto> k)) else None)"

definition held :: "hook_pc \<Rightarrow> int list" where
  "held pc =
     (case pc of
        Outside \<Rightarrow> []
      | Opened ret k \<Rightarrow> if ret < 0 then [] else [ret]
      | Accepted sock ret \<Rightarrow> if ret < 0 then [] else [ret]
      | Scanned i ret \<Rightarrow> if ret < 0 then [] else [ret]
      | Adding ret \<Rightarrow> if ret < 0 then [] else [ret]
      | Closing fd \<Rightarrow> [fd])"

text \<open>
  A thread outside the hooks may call one of them or another function that opens a file; it closes
  only descriptors that no hook is working on, since no call has returned those to the application.
  \<open>Go t\<close> is the next step of thread \<open>t\<close> inside a hook, \<open>Net severity\<close> a command of the backend.
\<close>

datatype act = Socket nat fd_kind int | Accept nat int int | Open_file nat int | Close nat int | Go nat | Net u64

definition set_pc :: "nat \<Rightarrow> hook_pc \<Rightarrow> threads \<Rightarrow> threads" where
  "set_pc t pc s = s\<lparr>td_pc := (td_pc s)[t := pc]\<rparr>"

definition go_step :: "(nat \<Rightarrow> nat) \<Rightarrow> nat \<Rightarrow> threads \<Rightarrow> threads option" where
  "go_step usable t s =
     (case td_pc s ! t of
        Outside \<Rightarrow> None
      | Opened ret k \<Rightarrow>
          if k = Inet_socket
          then map_option (\<lambda>(_, p). set_pc t Outside (s\<lparr>td_pre := p\<rparr>)) (add_sock_to_list usable ret (td_pre s))
          else Some (set_pc t Outside s)
      | Accepted sock ret \<Rightarrow> Some (set_pc t (Scanned (scan_list sock (tracked (td_pre s))) ret) s)
      | Scanned i ret \<Rightarrow> Some (set_pc t (if i < length (tracked (td_pre s)) then Adding ret else Outside) s)
      | Adding ret \<Rightarrow>
          map_option (\<lambda>(_, p). set_pc t Outside (s\<lparr>td_pre := p\<rparr>)) (add_sock_to_list usable ret (td_pre s))
      | Closing fd \<Rightarrow>
          Some (set_pc t Outside (s\<lparr>td_open := (td_open s)(fd := None),
                                   td_pre := (td_pre s)\<lparr>pre_closed := pre_closed (td_pre s) @ [fd]\<rparr>\<rparr>)))"

fun act_thread :: "act \<Rightarrow> nat option" where
  "act_thread (Socket t k ret) = Some t"
| "act_thread (Accept t sock ret) = Some t"
| "act_thread (Open_file t ret) = Some t"
| "act_thread (Close t fd) = Some t"
| "act_thread (Go t) = Some t"
| "act_thread (Net severity) = None"

fun outside_step :: "act \<Rightarrow> threads \<Rightarrow> threads option" where
  "outside_step (Socket t k ret) s =
     (if k = Plain_file then None
      else map_option (\<lambda>tab. set_pc t (Opened ret k) (s\<lparr>td_open := tab\<rparr>)) (kernel_new k ret (td_open s)))"
| "outside_step (Accept t sock ret) s =
     (case td_open s sock of
        None \<Rightarrow> None
      | Some k \<Rightarrow> if k = Plain_file then None
                  else map_option (\<lambda>tab. set_pc t (Accepted sock ret) (s\<lparr>td_open := tab\<rparr>)) (kernel_new k ret (td_open s)))"
| "outside_step (Open_file t ret) s = map_option (\<lambda>tab. s\<lparr>td_open := tab\<rparr>) (kernel_new Plain_file ret (td_open s))"
| "outside_step (Close t fd) s =
     (if td_open s fd = None \<or> fd \<in> set (concat (map held (td_pc s))) then None
      else Some (set_pc t (Closing fd) (s\<lparr>td_pre := snd (remove_sock_from_list fd (td_pre s))\<rparr>)))"
| "outside_step (Go t) s = None"
| "outside_step (Net severity) s = None"

definition act_step :: "(nat \<Rightarrow> nat) \<Rightarrow> act \<Rightarrow> threads \<Rightarrow> threads option" where
  "act_step usable a s =
     (case a of
        Net severity \<Rightarrow> map_option (\<lambda>(_, p). s\<lparr>td_pre := p\<rparr>) (pre_switch_net severity (td_pre s))
      | Go t \<Rightarrow> if t < length (td_pc s) then go_step usable t s else None
      | _ \<Rightarrow> (case act_thread a of
               None \<Rightarrow> None
             | Some t \<Rightarrow> if t < length (td_pc s) \<and> td_pc s ! t = Outside then outside_step a s else None))"

text \<open>A schedule of the threads; None when a step is not enabled or not defined.\<close>

fun act_run :: "(nat \<Rightarrow> nat) \<Rightarrow> act list \<Rightarrow> threads \<Rightarrow> threads option" where
  "act_run usable [] s = Some s"
| "act_run usable (a # as) s = (case act_step usable a s of None \<Rightarrow> None | Some s' \<Rightarrow> act_run usable as s')"

text \<open>With no other step in between, scan and comparison are the test of the sequential model.\<close>

lemma scan_list_in: "scan_list sock fds < length fds \<longleftrightarrow> sock \<in> set fds"
  by (induction fds) auto

lemma scan_is_in_list: "scan_list sock (tracked s) < length (tracked s) \<longleftrightarrow> is_in_list sock s"
  by (auto simp: scan_list_in is_in_list_def list_ex_iff)

section \<open>Invariant\<close>

text \<open>
  The tracked descriptors and those the threads are working on are all different and open; what is
  tracked or may become so is a socket.
\<close>

definition gaining :: "hook_pc \<Rightarrow> int list" where
  "gaining pc = (case pc of Closing fd \<Rightarrow> [] | _ \<Rightarrow> held pc)"

definition sockets :: "(int \<Rightarrow> fd_kind option) \<Rightarrow> int set" where
  "sockets tab = {fd. tab fd = Some Inet_socket \<or> tab fd = Some Other_socket}"

definition fds_inv :: "int list \<Rightarrow> int list \<Rightarrow> int list \<Rightarrow> (int \<Rightarrow> fd_kind option) \<Rightarrow> bool" where
  "fds_inv tr hs gs tab \<longleftrightarrow> distinct (tr @ hs) \<and> set hs \<subseteq> dom tab \<and> set tr \<union> set gs \<subseteq> sockets tab"

definition td_inv :: "threads \<Rightarrow> bool" where
  "td_inv s \<longleftrightarrow> fds_inv (tracked (td_pre s)) (concat (map held (td_pc s))) (concat (map gaining (td_pc s))) (td_open s)"

lemma held_simps [simp]:
  "held Outside = []" "held (Opened ret k) = (if ret < 0 then [] else [ret])"
  "held (Accepted sock ret) = (if ret < 0 then [] else [ret])" "held (Scanned i ret) = (if ret < 0 then [] else [ret])"
  "held (Adding ret) = (if ret < 0 then [] else [ret])" "held (Closing fd) = [fd]"
  by (simp_all add: held_def)

lemma gaining_simps [simp]:
  "gaining Outside = []" "gaining (Opened ret k) = (if ret < 0 then [] else [ret])"
  "gaining (Accepted sock ret) = (if ret < 0 then [] else [ret])" "gaining (Scanned i ret) = (if ret < 0 then [] else [ret])"
  "gaining (Adding ret) = (if ret < 0 then [] else [ret])" "gaining (Closing fd) = []"
  by (simp_all add: gaining_def)

lemma gaining_held: "set (gaining pc) \<subseteq> set (held pc)"
  by (simp add: gaining_def split: hook_pc.split)

text \<open>What a step of thread \<open>t\<close> means for the invariant: the lists of the other threads stay.\<close>

lemma td_inv_thread:
  assumes "t < length (td_pc s)"
  obtains hx hy gx gy where
    "td_inv s \<longleftrightarrow> fds_inv (tracked (td_pre s)) (hx @ held (td_pc s ! t) @ hy) (gx @ gaining (td_pc s ! t) @ gy) (td_open s)"
    "set (concat (map held (td_pc s))) = set hx \<union> set (held (td_pc s ! t)) \<union> set hy" "set gx \<union> set gy \<subseteq> set hx \<union> set hy"
    "\<And>pc s'. td_pc s' = (td_pc s)[t := pc] \<Longrightarrow> td_inv s' \<longleftrightarrow>
       fds_inv (tracked (td_pre s')) (hx @ held pc @ hy) (gx @ gaining pc @ gy) (td_open s')"
proof -
  let ?xs = "take t (td_pc s)" and ?ys = "drop (Suc t) (td_pc s)"
  let ?c = "\<lambda>f pcs. concat (map f pcs) :: int list"
  have pcs: "td_pc s = ?xs @ td_pc s ! t # ?ys" using assms by (rule id_take_nth_drop)
  have cat: "?c f (td_pc s) = ?c f ?xs @ f (td_pc s ! t) @ ?c f ?ys" for f :: "hook_pc \<Rightarrow> int list"
    using arg_cong [OF pcs, of "?c f"] by simp
  show thesis
  proof (rule that [of "?c held ?xs" "?c held ?ys" "?c gaining ?xs" "?c gaining ?ys"])
    show "set (?c gaining ?xs) \<union> set (?c gaining ?ys) \<subseteq> set (?c held ?xs) \<union> set (?c held ?ys)"
      using gaining_held by (simp, blast)
    show "td_inv s' \<longleftrightarrow> fds_inv (tracked (td_pre s')) (?c held ?xs @ held pc @ ?c held ?ys)
        (?c gaining ?xs @ gaining pc @ ?c gaining ?ys) (td_open s')" if "td_pc s' = (td_pc s)[t := pc]" for pc s'
      using assms that by (simp add: td_inv_def upd_conv_take_nth_drop)
  qed (simp_all add: td_inv_def cat Un_assoc)
qed

lemma td_inv_start: "td_inv (threads_start n)"
  by (simp add: td_inv_def fds_inv_def threads_start_def preload_load_def tracked_def)

lemma sockets_dom: "sockets tab \<subseteq> dom tab"
  by (auto simp: sockets_def)

lemma fds_inv_add:
  "fds_inv tr (hx @ (if ret < 0 then [] else [ret]) @ hy) (gx @ (if ret < 0 then [] else [ret]) @ gy) tab \<Longrightarrow>
   fds_inv (if ret < 0 then tr else tr @ [ret]) (hx @ [] @ hy) (gx @ [] @ gy) tab"
  unfolding fds_inv_def by auto

lemma fds_inv_drop:
  "fds_inv tr (hx @ h @ hy) (gx @ g @ gy) tab \<Longrightarrow> fds_inv tr (hx @ [] @ hy) (gx @ [] @ gy) tab"
  unfolding fds_inv_def by auto

lemma fds_inv_new:
  assumes "fds_inv tr hs gs tab" "kernel_new k ret tab = Some tab'"
  shows "fds_inv tr hs gs tab'" "0 \<le> ret \<Longrightarrow> ret \<notin> set tr \<union> set hs \<and> ret \<in> dom tab'"
    "0 \<le> ret \<Longrightarrow> k \<noteq> Plain_file \<Longrightarrow> ret \<in> sockets tab'"
proof -
  have tab: "tab' = (if ret < 0 then tab else tab(ret \<mapsto> k))" "0 \<le> ret \<Longrightarrow> ret \<notin> dom tab"
    using assms(2) by (auto simp: kernel_new_def split: if_splits)
  then have "dom tab \<subseteq> dom tab'" "sockets tab \<subseteq> sockets tab'" by (auto simp: sockets_def)
  then show "fds_inv tr hs gs tab'" using assms(1) unfolding fds_inv_def by blast
  assume "0 \<le> ret"
  with tab show "ret \<notin> set tr \<union> set hs \<and> ret \<in> dom tab'"
    using assms(1) sockets_dom [of tab] unfolding fds_inv_def by auto
  show "ret \<in> sockets tab'" if "k \<noteq> Plain_file"
    using tab(1) that \<open>0 \<le> ret\<close> by (cases k) (auto simp: sockets_def)
qed

lemma fds_inv_gain:
  assumes "fds_inv tr (hx @ [] @ hy) (gx @ [] @ gy) tab" "kernel_new k ret tab = Some tab'" "k \<noteq> Plain_file"
  shows "fds_inv tr (hx @ (if ret < 0 then [] else [ret]) @ hy) (gx @ (if ret < 0 then [] else [ret]) @ gy) tab'"
  using fds_inv_new [OF assms(1,2)] assms(3) unfolding fds_inv_def by auto

lemma tracked_add:
  "add_sock_to_list usable ret p = Some (r, p') \<Longrightarrow> tracked p' = (if ret < 0 then tracked p else tracked p @ [ret])"
  by (auto simp: add_sock_to_list_def Let_def tracked_def split: if_splits)

lemma tracked_remove:
  assumes "distinct (tracked p)"
  shows "distinct (tracked (snd (remove_sock_from_list fd p)))"
    "set (tracked (snd (remove_sock_from_list fd p))) = set (tracked p) - {fd}"
  using remove_first_distinct [OF assms, of fd] assms
  by (auto simp: remove_sock_from_list_def split: option.splits)

lemma fds_inv_close:
  assumes "fds_inv tr (hx @ [] @ hy) (gx @ [] @ gy) tab" "fd \<in> dom tab" "fd \<notin> set hx \<union> set hy"
    and "distinct tr'" "set tr' = set tr - {fd}"
  shows "fds_inv tr' (hx @ [fd] @ hy) (gx @ [] @ gy) tab"
  using assms unfolding fds_inv_def by auto

text \<open>The closed descriptor is neither tracked nor in the hands of another thread.\<close>

lemma fds_inv_closed:
  assumes "fds_inv tr (hx @ [fd] @ hy) (gx @ [] @ gy) tab" "set gx \<union> set gy \<subseteq> set hx \<union> set hy"
  shows "fds_inv tr (hx @ [] @ hy) (gx @ [] @ gy) (tab(fd := None))"
proof -
  have "fd \<notin> set tr \<union> set hx \<union> set hy" using assms(1) by (auto simp: fds_inv_def)
  moreover have "dom (tab(fd := None)) = dom tab - {fd}" "sockets (tab(fd := None)) = sockets tab - {fd}"
    by (auto simp: sockets_def)
  ultimately show ?thesis using assms unfolding fds_inv_def by auto
qed

lemma tracked_switch_net:
  "pre_switch_net severity p = Some (r, p') \<Longrightarrow> tracked p' = tracked p \<or> tracked p' = []"
  by (auto simp: pre_switch_net_def Let_def tracked_def split: if_splits fds.splits)

lemma set_pc_sel [simp]:
  "td_pre (set_pc t pc s) = td_pre s" "td_open (set_pc t pc s) = td_open s" "td_pc (set_pc t pc s) = (td_pc s)[t := pc]"
  by (simp_all add: set_pc_def)

lemma td_inv_go:
  assumes inv: "td_inv s" and t: "t < length (td_pc s)" and go: "go_step usable t s = Some s'"
  shows "td_inv s'"
proof -
  obtain hx hy gx gy where now: "fds_inv (tracked (td_pre s)) (hx @ held (td_pc s ! t) @ hy) (gx @ gaining (td_pc s ! t) @ gy) (td_open s)"
    and sub: "set gx \<union> set gy \<subseteq> set hx \<union> set hy"
    and post: "\<And>pc s'. td_pc s' = (td_pc s)[t := pc] \<Longrightarrow> td_inv s' \<longleftrightarrow>
       fds_inv (tracked (td_pre s')) (hx @ held pc @ hy) (gx @ gaining pc @ gy) (td_open s')"
    using td_inv_thread [OF t] inv by metis
  have add: "td_inv (set_pc t Outside (s\<lparr>td_pre := p\<rparr>))"
    if "add_sock_to_list usable ret (td_pre s) = Some (r, p)"
      "fds_inv (tracked (td_pre s)) (hx @ (if ret < 0 then [] else [ret]) @ hy) (gx @ (if ret < 0 then [] else [ret]) @ gy) (td_open s)"
    for ret r p
    using post [of "set_pc t Outside (s\<lparr>td_pre := p\<rparr>)" Outside] fds_inv_add [OF that(2)] tracked_add [OF that(1)] by simp
  show ?thesis
  proof (cases "td_pc s ! t")
    case (Opened ret k)
    with go now show ?thesis
      using add post [of s' Outside] fds_inv_drop [OF now] by (auto simp: go_step_def split: if_splits)
  next
    case (Accepted sock ret)
    with go now show ?thesis
      using post [of s' "Scanned (scan_list sock (tracked (td_pre s))) ret"] by (auto simp: go_step_def)
  next
    case (Scanned i ret)
    with go now show ?thesis
      using post [of s' Outside] post [of s' "Adding ret"] fds_inv_drop [OF now] by (auto simp: go_step_def split: if_splits)
  next
    case (Adding ret)
    with go now show ?thesis using add by (auto simp: go_step_def)
  next
    case (Closing fd)
    have "tracked (td_pre s') = tracked (td_pre s)" using go Closing by (auto simp: go_step_def tracked_def)
    with Closing go now show ?thesis
      using post [of s' Outside] fds_inv_closed [OF _ sub, of "tracked (td_pre s)" fd "td_open s"]
      by (auto simp: go_step_def)
  qed (use go in \<open>simp add: go_step_def\<close>)
qed

lemma td_inv_outside:
  assumes inv: "td_inv s" and t: "t < length (td_pc s)" "td_pc s ! t = Outside" "act_thread a = Some t"
    and out: "outside_step a s = Some s'"
  shows "td_inv s'"
proof -
  obtain hx hy gx gy where now: "fds_inv (tracked (td_pre s)) (hx @ [] @ hy) (gx @ [] @ gy) (td_open s)"
    and all: "set (concat (map held (td_pc s))) = set hx \<union> set hy"
    and post: "\<And>pc s'. td_pc s' = (td_pc s)[t := pc] \<Longrightarrow> td_inv s' \<longleftrightarrow>
       fds_inv (tracked (td_pre s')) (hx @ held pc @ hy) (gx @ gaining pc @ gy) (td_open s')"
    using td_inv_thread [OF t(1)] inv t(2) by (simp, metis append_Nil sup_bot_right)
  show ?thesis
  proof (cases a)
    case (Socket u k ret)
    with t(3) out post [of s' "Opened ret k"] fds_inv_gain [OF now] show ?thesis by (auto split: if_splits)
  next
    case (Accept u sock ret)
    with t(3) out post [of s' "Accepted sock ret"] fds_inv_gain [OF now] show ?thesis
      by (auto split: if_splits option.splits)
  next
    case (Open_file u ret)
    with t out post [of s' Outside] fds_inv_new(1) [OF now] list_update_id [of "td_pc s" t] show ?thesis by auto
  next
    case (Close u fd)
    have dis: "distinct (tracked (td_pre s))" using now by (simp add: fds_inv_def)
    have nin: "fd \<notin> set (concat (map held (td_pc s)))" and fd: "fd \<in> dom (td_open s)"
      and s': "s' = set_pc t (Closing fd) (s\<lparr>td_pre := snd (remove_sock_from_list fd (td_pre s))\<rparr>)"
      using Close t(3) out by (auto split: if_splits)
    from fds_inv_close [OF now fd nin [unfolded all] tracked_remove [OF dis]]
    have "fds_inv (tracked (td_pre s')) (hx @ [fd] @ hy) (gx @ [] @ gy) (td_open s')" by (simp add: s')
    with post [of s' "Closing fd"] s' show ?thesis by simp
  qed (use out in simp_all)
qed

lemma act_step_cases:
  assumes "act_step usable a s = Some s'"
  obtains (net) severity r p where "a = Net severity" "pre_switch_net severity (td_pre s) = Some (r, p)" "s' = s\<lparr>td_pre := p\<rparr>"
    | (go) t where "a = Go t" "t < length (td_pc s)" "go_step usable t s = Some s'"
    | (outside) t where "act_thread a = Some t" "t < length (td_pc s)" "td_pc s ! t = Outside" "outside_step a s = Some s'"
  using assms by (cases a) (auto simp: act_step_def simp del: outside_step.simps split: if_splits)

lemma td_inv_step:
  assumes "td_inv s" "act_step usable a s = Some s'"
  shows "td_inv s'"
  using assms(2)
proof (cases rule: act_step_cases)
  case (net severity r p)
  from tracked_switch_net [OF net(2)] show ?thesis
    using assms(1) by (elim disjE) (simp_all add: td_inv_def fds_inv_def net(3))
qed (use assms(1) td_inv_go td_inv_outside in blast)+

lemma td_inv_run: "td_inv s \<Longrightarrow> act_run usable as s = Some s' \<Longrightarrow> td_inv s'"
  by (induction as arbitrary: s) (auto split: option.splits dest: td_inv_step)

section \<open>Nothing is missed without accept\<close>

text \<open>
  As long as no thread accepts connections and the network has not failed, an open internet socket is
  tracked or still in the hands of the hook that opened it or closes it.
\<close>

fun plain_act :: "act \<Rightarrow> bool" where
  "plain_act (Accept t sock ret) = False"
| "plain_act (Net severity) = False"
| "plain_act _ = True"

definition plain_pc :: "(int \<Rightarrow> fd_kind option) \<Rightarrow> hook_pc \<Rightarrow> bool" where
  "plain_pc tab pc \<longleftrightarrow>
     (case pc of Outside \<Rightarrow> True | Opened ret k \<Rightarrow> 0 \<le> ret \<longrightarrow> tab ret = Some k | Closing fd \<Rightarrow> True | _ \<Rightarrow> False)"

definition inet :: "(int \<Rightarrow> fd_kind option) \<Rightarrow> int set" where
  "inet tab = {fd. tab fd = Some Inet_socket}"

definition all_tracked :: "int list \<Rightarrow> hook_pc list \<Rightarrow> (int \<Rightarrow> fd_kind option) \<Rightarrow> bool" where
  "all_tracked tr pcs tab \<longleftrightarrow> inet tab \<subseteq> set tr \<union> set (concat (map held pcs)) \<and> list_all (plain_pc tab) pcs"

definition tracks_all :: "threads \<Rightarrow> bool" where
  "tracks_all s \<longleftrightarrow> all_tracked (tracked (td_pre s)) (td_pc s) (td_open s)"

lemma tracks_all_start: "tracks_all (threads_start n)"
  by (simp add: tracks_all_def all_tracked_def threads_start_def inet_def list_all_iff plain_pc_def)

text \<open>A thread keeps what it had when the table changes only at a descriptor that is not its own.\<close>

lemma plain_pc_update: "plain_pc tab pc \<Longrightarrow> fd \<notin> set (held pc) \<Longrightarrow> plain_pc (tab(fd := v)) pc"
  by (auto simp: plain_pc_def split: hook_pc.splits if_splits)

lemma plain_pcs_update:
  "list_all (plain_pc tab) pcs \<Longrightarrow> fd \<notin> set (concat (map held pcs)) \<Longrightarrow> list_all (plain_pc (tab(fd := v))) pcs"
  by (auto simp: list_all_iff intro: plain_pc_update)

lemma thread_split:
  assumes "t < length pcs"
  obtains xs ys where "pcs = xs @ pcs ! t # ys" "\<And>pc. pcs[t := pc] = xs @ pc # ys"
  using id_take_nth_drop [OF assms] upd_conv_take_nth_drop [OF assms] by metis

lemma all_tracked_new:
  assumes "all_tracked tr (xs @ Outside # ys) tab" "kernel_new k ret tab = Some tab'"
    and "0 \<le> ret \<Longrightarrow> ret \<notin> set (concat (map held (xs @ Outside # ys)))"
  shows "all_tracked tr (xs @ Opened ret k # ys) tab'" "k \<noteq> Inet_socket \<Longrightarrow> all_tracked tr (xs @ Outside # ys) tab'"
proof -
  have tab: "tab' = (if ret < 0 then tab else tab(ret \<mapsto> k))" using assms(2) by (auto simp: kernel_new_def split: if_splits)
  have "list_all (plain_pc tab') xs" "list_all (plain_pc tab') ys"
    using assms(1,3) by (auto simp: tab all_tracked_def intro: plain_pcs_update)
  with assms(1) tab show "all_tracked tr (xs @ Opened ret k # ys) tab'"
    "k \<noteq> Inet_socket \<Longrightarrow> all_tracked tr (xs @ Outside # ys) tab'"
    by (auto simp: all_tracked_def plain_pc_def inet_def split: if_splits)
qed

lemma all_tracked_leave:
  assumes "all_tracked tr (xs @ Opened ret k # ys) tab"
  shows "all_tracked (if ret < 0 then tr else tr @ [ret]) (xs @ Outside # ys) tab"
    "k \<noteq> Inet_socket \<Longrightarrow> all_tracked tr (xs @ Outside # ys) tab"
  using assms by (auto simp: all_tracked_def plain_pc_def inet_def split: if_splits)

lemma all_tracked_close:
  assumes "all_tracked tr (xs @ Outside # ys) tab" "set tr' = set tr - {fd}"
  shows "all_tracked tr' (xs @ Closing fd # ys) tab"
  using assms by (auto simp: all_tracked_def plain_pc_def)

lemma all_tracked_closed:
  assumes "all_tracked tr (xs @ Closing fd # ys) tab" "distinct (concat (map held (xs @ Closing fd # ys)))"
  shows "all_tracked tr (xs @ Outside # ys) (tab(fd := None))"
proof -
  have "fd \<notin> set (concat (map held xs))" "fd \<notin> set (concat (map held ys))" using assms(2) by auto
  then have "list_all (plain_pc (tab(fd := None))) xs" "list_all (plain_pc (tab(fd := None))) ys"
    using assms(1) by (auto simp: all_tracked_def intro: plain_pcs_update)
  with assms(1) show ?thesis by (auto simp: all_tracked_def plain_pc_def inet_def)
qed

lemma tracks_all_go:
  assumes inv: "td_inv s" and all: "tracks_all s" and go: "t < length (td_pc s)" "go_step usable t s = Some s'"
  shows "tracks_all s'"
proof -
  obtain xs ys where pcs: "td_pc s = xs @ td_pc s ! t # ys" "\<And>pc. (td_pc s)[t := pc] = xs @ pc # ys"
    using thread_split [OF go(1)] by metis
  have now: "all_tracked (tracked (td_pre s)) (xs @ td_pc s ! t # ys) (td_open s)"
    using all pcs(1) unfolding tracks_all_def by simp
  have dis: "distinct (concat (map held (xs @ td_pc s ! t # ys)))"
    using inv pcs(1) by (simp add: td_inv_def fds_inv_def)
  have "plain_pc (td_open s) (td_pc s ! t)" using now by (simp add: all_tracked_def)
  then consider (opened) ret k where "td_pc s ! t = Opened ret k" | (closing) fd where "td_pc s ! t = Closing fd"
    using go(2) by (cases "td_pc s ! t") (auto simp: plain_pc_def go_step_def)
  then show ?thesis
  proof cases
    case opened
    with go(2) all_tracked_leave [OF now [unfolded opened]] show ?thesis
      by (auto simp: go_step_def tracks_all_def pcs(2) dest: tracked_add split: if_splits)
  next
    case closing
    have "tracked (td_pre s') = tracked (td_pre s)" using go(2) closing by (auto simp: go_step_def tracked_def)
    with closing go(2) all_tracked_closed [OF now [unfolded closing] dis [unfolded closing]] show ?thesis
      by (auto simp: go_step_def tracks_all_def pcs(2))
  qed
qed

lemma tracks_all_outside:
  assumes inv: "td_inv s" and all: "tracks_all s" and plain: "plain_act a"
    and outside: "act_thread a = Some t" "t < length (td_pc s)" "td_pc s ! t = Outside" "outside_step a s = Some s'"
  shows "tracks_all s'"
proof -
  obtain xs ys where pcs: "td_pc s = xs @ Outside # ys" "\<And>pc. (td_pc s)[t := pc] = xs @ pc # ys"
    using thread_split [OF outside(2)] outside(3) by metis
  have now: "all_tracked (tracked (td_pre s)) (xs @ Outside # ys) (td_open s)" using all pcs(1) by (simp add: tracks_all_def)
  have new: "ret \<notin> set (concat (map held (xs @ Outside # ys)))" if "kernel_new k ret (td_open s) = Some tab" "0 \<le> ret" for k ret tab
    using fds_inv_new(2) [OF inv [unfolded td_inv_def] that] pcs(1) by simp
  have dis: "distinct (tracked (td_pre s))" using inv by (simp add: td_inv_def fds_inv_def)
  show ?thesis
  proof (cases a)
    case (Socket u k ret)
    with outside(1,4) all_tracked_new(1) [OF now _ new] show ?thesis
      by (auto simp: tracks_all_def pcs(2) split: if_splits)
  next
    case (Open_file u ret)
    with outside(1,4) all_tracked_new(2) [OF now _ new] pcs(1) show ?thesis by (auto simp: tracks_all_def)
  next
    case (Close u fd)
    with outside(1,4) all_tracked_close [OF now tracked_remove(2) [OF dis]] show ?thesis
      by (auto simp: tracks_all_def pcs(2) split: if_splits)
  qed (use plain outside in auto)
qed

lemma tracks_all_step:
  assumes inv: "td_inv s" and all: "tracks_all s" and step: "act_step usable a s = Some s'" and plain: "plain_act a"
  shows "tracks_all s'"
  using step
proof (cases rule: act_step_cases)
  case (net severity r p)
  with plain show ?thesis by simp
next
  case (go t)
  then show ?thesis by (intro tracks_all_go [OF inv all])
next
  case (outside t)
  then show ?thesis by (intro tracks_all_outside [OF inv all plain])
qed

lemma tracks_all_run:
  "td_inv s \<Longrightarrow> tracks_all s \<Longrightarrow> list_all plain_act as \<Longrightarrow> act_run usable as s = Some s' \<Longrightarrow> tracks_all s'"
proof (induction as arbitrary: s)
  case (Cons a as)
  then obtain s1 where "act_step usable a s = Some s1" "act_run usable as s1 = Some s'" by (auto split: option.splits)
  with Cons.IH [of s1] Cons.prems td_inv_step tracks_all_step show ?case by (metis list.pred_inject(2))
qed simp

text \<open>Before the first fault the library is as it was loaded, but for the list.\<close>

definition nominal :: "preload \<Rightarrow> bool" where
  "nominal p \<longleftrightarrow> pre_net_state p = 0 \<and> pre_shutdown p = [] \<and> pre_fds p \<noteq> Fds_freed"

lemma nominal_add: "nominal p \<Longrightarrow> add_sock_to_list usable ret p = Some (r, p') \<Longrightarrow> nominal p'"
  by (auto simp: nominal_def add_sock_to_list_def Let_def split: if_splits)

lemma nominal_remove: "nominal p \<Longrightarrow> nominal (snd (remove_sock_from_list fd p))"
  by (auto simp: nominal_def remove_sock_from_list_def split: option.split)

lemma nominal_step:
  assumes "nominal (td_pre s)" "act_step usable a s = Some s'" "plain_act a"
  shows "nominal (td_pre s')"
  using assms(2)
proof (cases rule: act_step_cases)
  case (net severity r p)
  with assms(3) show ?thesis by simp
next
  case (go t)
  have "nominal ((td_pre s)\<lparr>pre_closed := xs\<rparr>)" for xs using assms(1) by (simp add: nominal_def)
  with go(3) assms(1) nominal_add [OF assms(1)] show ?thesis
    by (auto simp: go_step_def split: hook_pc.splits if_splits)
next
  case (outside t)
  with assms(1,3) nominal_remove show ?thesis by (cases a) (auto split: if_splits option.splits)
qed

lemma nominal_run:
  "nominal (td_pre s) \<Longrightarrow> list_all plain_act as \<Longrightarrow> act_run usable as s = Some s' \<Longrightarrow> nominal (td_pre s')"
  by (induction as arbitrary: s) (auto split: option.splits dest: nominal_step)

text \<open>
  A network fault in any schedule shuts down open sockets only, each once. Without accepts it misses
  no internet socket that is not in the hands of a hook at that time.
\<close>

lemma network_fault_safe:
  assumes "act_run usable acts (threads_start n) = Some s" "pre_switch_net severity (td_pre s) = Some (r, p)"
  shows "\<exists>new. pre_shutdown p = pre_shutdown (td_pre s) @ new \<and> distinct new \<and> set new \<subseteq> sockets (td_open s)"
proof -
  have inv: "td_inv s" using td_inv_run [OF td_inv_start assms(1)] .
  have "pre_shutdown p = pre_shutdown (td_pre s) @ tracked (td_pre s) \<or> pre_shutdown p = pre_shutdown (td_pre s) @ []"
    using assms(2) by (auto simp: pre_switch_net_def Let_def tracked_def split: if_splits fds.splits)
  with inv show ?thesis by (auto simp: td_inv_def fds_inv_def)
qed

lemma network_fault_complete:
  assumes "act_run usable acts (threads_start n) = Some s" "list_all plain_act acts" "severity \<noteq> 0"
  shows "\<exists>p. pre_switch_net severity (td_pre s) = Some (0, p)
    \<and> inet (td_open s) - set (concat (map held (td_pc s))) \<subseteq> set (pre_shutdown p)"
proof -
  have nom: "nominal (td_pre s)"
    using nominal_run [OF _ assms(2,1)] by (simp add: nominal_def threads_start_def preload_load_def)
  then obtain p where p: "pre_switch_net severity (td_pre s) = Some (0, p)" "pre_shutdown p = tracked (td_pre s)"
    using switch_net_fail [of "td_pre s" severity] assms(3) by (auto simp: nominal_def)
  have "tracks_all s" using tracks_all_run [OF td_inv_start tracks_all_start assms(2,1)] .
  with p show ?thesis by (auto simp: tracks_all_def all_tracked_def)
qed

section \<open>What the threads can spoil\<close>

text \<open>
  Thread 0 accepts a connection on a local socket while thread 1 opens an internet socket between the
  scan and the comparison: the connection counts as found in the list.
\<close>

definition wrongly_tracked :: "act list" where
  "wrongly_tracked =
     [Socket 0 Other_socket 3, Go 0, Accept 0 3 4, Go 0, Socket 1 Inet_socket 5, Go 1, Go 0, Go 0]"

text \<open>Thread 1 closes an earlier socket between them: the connection is not found.\<close>

definition missed_accept :: "act list" where
  "missed_accept =
     [Socket 1 Inet_socket 3, Go 1, Socket 1 Inet_socket 5, Go 1, Accept 0 5 6, Go 0, Close 1 3, Go 1, Go 0]"

end
