(* ===== verification/Lifecycle.thy ===== *)
theory Lifecycle
  imports Shutdown Preload_Threads
begin

text \<open>
  How the long-lived objects begin and end: the three singletons of the server (\<open>get_instance\<close> and
  \<open>cleanup\<close> in \<open>srv/config.cpp\<close>, \<open>srv/server.cpp\<close> and \<open>srv/plugin_internal.cpp\<close>), the logger pointers of the plugins, and the libc functions behind the
  hooks of the preloaded library.
\<close>

section \<open>The singletons\<close>

text \<open>The three static pointers (0 is \<open>nullptr\<close>) and the objects that are alive.\<close>

record instances =
  conf_instance :: addr
  srv_instance :: addr
  pm_instance :: addr
  in_live :: "addr list"
  in_next :: addr

definition no_instances :: instances where
  "no_instances = \<lparr>conf_instance = 0, srv_instance = 0, pm_instance = 0, in_live = [], in_next = 1\<rparr>"

definition new_object :: "instances \<Rightarrow> addr \<times> instances" where
  "new_object s = (in_next s, s\<lparr>in_live := in_next s # in_live s, in_next := in_next s + 1\<rparr>)"

text \<open>Deleting what is not alive is undefined.\<close>

definition delete_object :: "addr \<Rightarrow> instances \<Rightarrow> instances option" where
  "delete_object a s = (if a \<in> set (in_live s) then Some (s\<lparr>in_live := removeAll a (in_live s)\<rparr>) else None)"

definition pm_get_instance :: "instances \<Rightarrow> addr \<times> instances" where
  "pm_get_instance s =
     (if pm_instance s = 0 then let (a, s1) = new_object s in (a, s1\<lparr>pm_instance := a\<rparr>) else (pm_instance s, s))"

text \<open>The constructor of \<open>Config\<close> asks for the plugin manager.\<close>

definition config_get_instance :: "instances \<Rightarrow> addr \<times> instances" where
  "config_get_instance s =
     (if conf_instance s = 0
      then let (a, s1) = new_object s; (_, s2) = pm_get_instance s1 in (a, s2\<lparr>conf_instance := a\<rparr>)
      else (conf_instance s, s))"

definition server_get_instance :: "instances \<Rightarrow> addr \<times> instances" where
  "server_get_instance s =
     (if srv_instance s = 0 then let (a, s1) = new_object s in (a, s1\<lparr>srv_instance := a\<rparr>) else (srv_instance s, s))"

definition config_cleanup :: "instances \<Rightarrow> instances option" where
  "config_cleanup s = (if conf_instance s \<noteq> 0 then delete_object (conf_instance s) s else Some s)"

definition server_cleanup :: "instances \<Rightarrow> instances option" where
  "server_cleanup s = (if srv_instance s \<noteq> 0 then delete_object (srv_instance s) s else Some s)"

definition instances_ok :: "instances \<Rightarrow> bool" where
  "instances_ok s \<longleftrightarrow> 0 < in_next s \<and> (\<forall>a \<in> set (in_live s). 0 < a \<and> a < in_next s)
     \<and> {conf_instance s, srv_instance s, pm_instance s} \<subseteq> insert 0 (set (in_live s))
     \<and> distinct (filter (\<lambda>a. a \<noteq> 0) [conf_instance s, srv_instance s, pm_instance s])"

text \<open>What the code relies on from \<open>get_instance\<close>: a live object, the same one at every call.\<close>

locale singleton =
  fixes get :: "instances \<Rightarrow> addr \<times> instances" and inst :: "instances \<Rightarrow> addr"
  assumes keeps: "instances_ok s \<Longrightarrow> instances_ok (snd (get s))"
    and alive: "instances_ok s \<Longrightarrow> fst (get s) \<in> set (in_live (snd (get s)))"
    and stored: "inst (snd (get s)) = fst (get s)"
    and found: "inst s \<noteq> 0 \<Longrightarrow> get s = (inst s, s)"
begin

lemma again:
  assumes "instances_ok s"
  shows "get (snd (get s)) = get s"
proof -
  have "fst (get s) \<noteq> 0" using alive [OF assms] keeps [OF assms] by (auto simp: instances_ok_def)
  then show ?thesis using found [of "snd (get s)"] stored [of s] by (metis prod.collapse)
qed

end

interpretation pmi: singleton pm_get_instance pm_instance
  by unfold_locales
     (auto simp: pm_get_instance_def new_object_def instances_ok_def Let_def split: if_splits)

interpretation sri: singleton server_get_instance srv_instance
  by unfold_locales
     (auto simp: server_get_instance_def new_object_def instances_ok_def Let_def split: if_splits)

interpretation cfi: singleton config_get_instance conf_instance
  by unfold_locales
     (auto simp: config_get_instance_def pm_get_instance_def new_object_def instances_ok_def Let_def split: if_splits)

text \<open>
  The order of \<open>main\<close>: server, configuration and plugin manager are made, \<open>Server::init\<close> asks for the last
  two again, and at the end configuration and server are deleted. Each of the two is deleted once; the
  plugin manager stays, and so do the pointers to the deleted objects.
\<close>

definition main_instances :: "instances \<Rightarrow> instances option" where
  "main_instances s =
     (let (_, s1) = server_get_instance s; (_, s2) = config_get_instance s1; (_, s3) = pm_get_instance s2;
          (_, s4) = config_get_instance s3; (_, s5) = pm_get_instance s4
      in case config_cleanup s5 of None \<Rightarrow> None | Some s6 \<Rightarrow> server_cleanup s6)"

lemma main_instances_end:
  "main_instances no_instances =
     Some \<lparr>conf_instance = 2, srv_instance = 1, pm_instance = 3, in_live = [3], in_next = 4\<rparr>"
  by (simp add: main_instances_def no_instances_def config_get_instance_def pm_get_instance_def server_get_instance_def
      config_cleanup_def server_cleanup_def delete_object_def new_object_def)

text \<open>A second clean-up deletes a deleted object.\<close>

lemma cleanup_twice:
  assumes "instances_ok s" "conf_instance s \<noteq> 0" "config_cleanup s = Some s'"
  shows "config_cleanup s' = None \<and> fst (config_get_instance s') \<notin> set (in_live s')"
  using assms by (auto simp: config_cleanup_def delete_object_def config_get_instance_def split: if_splits)

section \<open>Logger pointers\<close>

text \<open>
  The plugins keep the logger they got; \<open>post\<close> asks the plugin manager again, since the configuration
  may have chosen another one in between.
\<close>

record 'l logger_holder =
  lh_logg :: "'l option"

definition replay_post :: "'l \<Rightarrow> 'l logger_holder \<Rightarrow> int \<times> 'l logger_holder" where
  "replay_post used s = (0, s\<lparr>lh_logg := Some used\<rparr>)"

definition filelogger_post :: "'l \<Rightarrow> 'l logger_holder \<Rightarrow> int \<times> 'l logger_holder" where
  "filelogger_post used s = (0, s\<lparr>lh_logg := Some used\<rparr>)"

definition echo_post_init :: "'l \<Rightarrow> 'l logger_holder \<Rightarrow> int \<times> 'l logger_holder" where
  "echo_post_init used s = (0, s\<lparr>lh_logg := Some used\<rparr>)"

text \<open>The table of the file logger, and its clean-up, which closes the stream.\<close>

record 's logger_table =
  lg_version :: int
  lg_set_ll :: "log_level \<Rightarrow> 's \<Rightarrow> 's"
  lg_log_fun :: "log_level \<Rightarrow> string \<Rightarrow> 's \<Rightarrow> 's"

definition file_log_table :: "file_log logger_table" where
  "file_log_table = \<lparr>lg_version = 0, lg_set_ll = set_log_level, lg_log_fun = logging_fun\<rparr>"

definition filelogger_get_logger :: "file_log logger_table" where
  "filelogger_get_logger = file_log_table"

definition filelogger_cleanup :: "'l \<Rightarrow> 'l logger_holder \<Rightarrow> bool \<Rightarrow> (int \<times> 'l logger_holder \<times> bool) option" where
  "filelogger_cleanup used s opened = (if opened then Some (0, s\<lparr>lh_logg := Some used\<rparr>, False) else None)"

lemma sd_cleanup_filelogger:
  "sd_cleanup ret P_filelogger s = map_option (\<lambda>(r, lh, opened). s\<lparr>sd_open := opened\<rparr>) (filelogger_cleanup used lh (sd_open s))"
  by (simp add: sd_cleanup_def filelogger_cleanup_def)

section \<open>The libc functions behind the hooks\<close>

record 'f hooks =
  hk_socket :: "'f option"
  hk_accept :: "'f option"
  hk_close :: "'f option"

definition no_hooks :: "'f hooks" where
  "no_hooks = \<lparr>hk_socket = None, hk_accept = None, hk_close = None\<rparr>"

text \<open>A function that is not found ends the process with the code on the left.\<close>

definition lauSim_resolve :: "(string \<Rightarrow> 'f option) \<Rightarrow> string \<Rightarrow> int + 'f" where
  "lauSim_resolve dlsym fname = (case dlsym fname of None \<Rightarrow> Inl 1 | Some f \<Rightarrow> Inr f)"

definition resolve_hooks :: "(string \<Rightarrow> 'f option) \<Rightarrow> 'f hooks \<Rightarrow> int + 'f hooks" where
  "resolve_hooks dlsym hk =
     (case lauSim_resolve dlsym ''socket'' of Inl e \<Rightarrow> Inl e | Inr f \<Rightarrow>
      case lauSim_resolve dlsym ''close'' of Inl e \<Rightarrow> Inl e | Inr g \<Rightarrow>
      case lauSim_resolve dlsym ''accept'' of Inl e \<Rightarrow> Inl e | Inr k \<Rightarrow>
        Inr (hk\<lparr>hk_socket := Some f, hk_close := Some g, hk_accept := Some k\<rparr>))"

text \<open>\<open>init_hooks\<close> with the functions it resolves between the pipe and \<open>lauSim_init\<close>.\<close>

definition load_hooks ::
  "(string \<Rightarrow> 'f option) \<Rightarrow> (int \<times> int) option \<Rightarrow> bool \<Rightarrow> string option \<Rightarrow> 'f hooks \<times> fifo_state \<times> preload
   \<Rightarrow> (int + int \<times> 'f hooks \<times> fifo_state \<times> preload) option" where
  "load_hooks dlsym pipe mkfifo_ok fopen = (\<lambda>(hk, f, s).
     if pre_is_init s then Some (Inr (0, hk, f, s))
     else case pipe of
            None \<Rightarrow> Some (Inr (1, hk, f, s))
          | Some fds \<Rightarrow>
              (case resolve_hooks dlsym hk of
                 Inl e \<Rightarrow> Some (Inl e)
               | Inr hk' \<Rightarrow>
                   map_option (\<lambda>f'. Inr (0, hk', f', s\<lparr>pre_req_close_fds := fds, pre_is_init := True\<rparr>))
                     (backend_init mkfifo_ok fopen f)))"

definition hooks_ready :: "'f hooks \<Rightarrow> preload \<Rightarrow> bool" where
  "hooks_ready hk s \<longleftrightarrow> (pre_is_init s \<longrightarrow> hk_socket hk \<noteq> None \<and> hk_accept hk \<noteq> None \<and> hk_close hk \<noteq> None)"

text \<open>
  A library that counts as initialised has all its functions; where all are found the steps are those
  of the model without them.
\<close>

lemma load_hooks_ready:
  assumes "hooks_ready hk s" "load_hooks dlsym pipe mkfifo_ok fopen (hk, f, s) = Some (Inr (r, hk', f', s'))"
  shows "hooks_ready hk' s' \<and> init_hooks pipe mkfifo_ok fopen (f, s) = Some (r, f', s')"
  using assms
  by (auto simp: load_hooks_def resolve_hooks_def init_hooks_def hooks_ready_def split: if_splits option.splits sum.splits)

lemma load_hooks_exits:
  "load_hooks dlsym pipe mkfifo_ok fopen (hk, f, s) = Some (Inl e) \<longleftrightarrow>
     e = 1 \<and> \<not> pre_is_init s \<and> pipe \<noteq> None \<and> (\<exists>fname \<in> {''socket'', ''close'', ''accept''}. dlsym fname = None)"
  by (auto simp: load_hooks_def resolve_hooks_def lauSim_resolve_def split: option.splits sum.splits)

text \<open>The thread of the backend: the process ends with what \<open>lauSim_main\<close> returns.\<close>

definition lauSim_run_main ::
  "'s injector \<Rightarrow> u64 \<Rightarrow> (nat \<Rightarrow> bool \<times> bool) \<Rightarrow> fifo_state \<Rightarrow> 's \<Rightarrow> (int option \<times> fifo_state) option" where
  "lauSim_run_main mth junk sel f s =
     map_option (\<lambda>(r, f'). (case r of Main_returned c s' \<Rightarrow> Some c | Main_exited s' \<Rightarrow> Some 0 | Main_undefined \<Rightarrow> None, f'))
       (lauSim_main mth junk sel f s)"

end
