(* ===== verification/Replay_Lines.thy ===== *)
theory Replay_Lines
  imports Replay
begin

text \<open>
  The replay plugin on an arbitrary file, not only on a recording: the faults of a run are the fault
  lines of the file in their order, each reported once, and they are numbered consecutively. The
  specification \<open>file_faults\<close> reads the whole file without any tic.
\<close>

section \<open>The faults of a file\<close>

definition line_fault :: "string \<Rightarrow> fault_data option" where
  "line_fault buf =
     (if strstr ''tic#'' buf then None
      else case strchr (CHR '','') buf of
        None \<Rightarrow> None
      | Some i \<Rightarrow>
          (case strchr (CHR '','') (drop (Suc i) buf) of
             None \<Rightarrow> None
           | Some j \<Rightarrow>
               (case strtoul 0 (drop (Suc j) (drop (Suc i) buf)) of
                  None \<Rightarrow> None
                | Some (severity, _) \<Rightarrow>
                    Some (take i buf, if take j (drop (Suc i) buf) = [] then None else Some (take j (drop (Suc i) buf)),
                          ucast severity))))"

function file_faults :: "string \<Rightarrow> fault_data list" where
  "file_faults txt =
     (case getline txt of
        None \<Rightarrow> []
      | Some (line, rest) \<Rightarrow>
          (case line_fault (c_str line) of None \<Rightarrow> [] | Some fd \<Rightarrow> [fd]) @ file_faults rest)"
  by pat_completeness auto
termination
  by (relation "measure length") (auto dest: getline_less)

declare file_faults.simps [simp del]

text \<open>Faults \<open>fs\<close> numbered from the one behind \<open>i\<close>.\<close>

fun numbered :: "u64 \<Rightarrow> fault list \<Rightarrow> bool" where
  "numbered i [] = True"
| "numbered i (f # fs) = (fault_id f = ucast (i + 1) \<and> numbered (i + 1) fs)"

lemma numbered_append:
  "numbered i (fs @ gs) \<longleftrightarrow> numbered i fs \<and> numbered (i + of_nat (length fs)) gs"
  by (induction fs arbitrary: i) (simp_all add: ac_simps)

section \<open>Lines\<close>

text \<open>A line adds its fault, if it has one, with the next number.\<close>

lemma replay_line_adds:
  "\<exists>fs. rp_faults (replay_line env buf s) = rp_faults s @ fs
    \<and> map fault_data fs = (case line_fault buf of None \<Rightarrow> [] | Some fd \<Rightarrow> [fd])
    \<and> numbered (rp_id s) fs \<and> rp_id (replay_line env buf s) = rp_id s + of_nat (length fs)
    \<and> rp_done (replay_line env buf s) = rp_done s"
proof (cases "line_fault buf")
  case None
  then have "rp_faults (replay_line env buf s) = rp_faults s" "rp_id (replay_line env buf s) = rp_id s"
    "rp_done (replay_line env buf s) = rp_done s"
    by (auto simp: replay_line_def line_fault_def rp_logf_def Let_def split: if_splits option.splits)
  with None show ?thesis by auto
next
  case (Some fd)
  then obtain name cmp severity where "replay_line env buf s = add_fault name cmp severity s"
    "fd = (name, if cmp = [] then None else Some cmp, ucast severity)"
    by (auto simp: replay_line_def line_fault_def Let_def split: if_splits option.splits)
  with Some show ?thesis
    by (auto simp: add_fault_def fault_data_def)
qed

text \<open>
  The loop of a tic takes lines from the front of the file; what it adds to the faults and what is
  left in the file are the faults of the file. Only the end of the file makes it stop for good.
\<close>

definition consumes :: "replay \<Rightarrow> replay \<Rightarrow> bool" where
  "consumes s s' \<longleftrightarrow> (\<exists>fs. rp_faults s' = rp_faults s @ fs
     \<and> file_faults (rp_file s) = map fault_data fs @ file_faults (rp_file s')
     \<and> numbered (rp_id s) fs \<and> rp_id s' = rp_id s + of_nat (length fs)
     \<and> (rp_done s' \<longrightarrow> rp_done s \<or> rp_file s' = []))"

lemma consumes_refl [simp]: "consumes s s"
  by (auto simp: consumes_def intro: exI [of _ "[]"])

lemma consumes_trans: "consumes s s' \<Longrightarrow> consumes s' s'' \<Longrightarrow> rp_done s' = rp_done s \<Longrightarrow> consumes s s''"
proof -
  assume 1: "consumes s s'" "consumes s' s''" "rp_done s' = rp_done s"
  obtain fs where fs: "rp_faults s' = rp_faults s @ fs" "file_faults (rp_file s) = map fault_data fs @ file_faults (rp_file s')"
    "numbered (rp_id s) fs" "rp_id s' = rp_id s + of_nat (length fs)" using 1(1) by (auto simp: consumes_def)
  obtain gs where gs: "rp_faults s'' = rp_faults s' @ gs" "file_faults (rp_file s') = map fault_data gs @ file_faults (rp_file s'')"
    "numbered (rp_id s') gs" "rp_id s'' = rp_id s' + of_nat (length gs)" "rp_done s'' \<longrightarrow> rp_done s' \<or> rp_file s'' = []"
    using 1(2) by (auto simp: consumes_def)
  have "numbered (rp_id s) (fs @ gs)" using fs(3,4) gs(3) by (simp add: numbered_append)
  then show "consumes s s''"
    unfolding consumes_def using fs gs 1(3) by (intro exI [of _ "fs @ gs"]) (simp add: ac_simps)
qed

lemma replay_line_consumes:
  assumes "getline (rp_file s) = Some (line, rest)"
  shows "consumes s (replay_line env (c_str line) (rp_log_line (c_str line) (s\<lparr>rp_file := rest\<rparr>)))"
proof -
  let ?s = "rp_log_line (c_str line) (s\<lparr>rp_file := rest\<rparr>)"
  have s: "rp_faults ?s = rp_faults s" "rp_id ?s = rp_id s" "rp_done ?s = rp_done s" "rp_file ?s = rest"
    by (simp_all add: rp_log_line_def rp_logf_def)
  show ?thesis
    using replay_line_adds [of env "c_str line" ?s] file_faults.simps [of "rp_file s"] assms
    by (auto simp: consumes_def s)
qed

lemma replay_loop_consumes: "consumes s (replay_loop env s)"
proof (induction env s rule: replay_loop.induct)
  case (1 env s)
  show ?case
  proof (cases "rp_nxt_tic s < rp_tic_num s \<and> \<not> rp_done s")
    case False
    then show ?thesis by (subst replay_loop.simps) auto
  next
    case True
    show ?thesis
    proof (cases "getline (rp_file s)")
      case None
      then have "rp_file s = []" by (auto simp: getline_def split: if_splits list.splits)
      with None True show ?thesis by (subst replay_loop.simps) (simp add: consumes_def)
    next
      case (Some lr)
      obtain line rest where lr: "lr = (line, rest)" by (cases lr)
      let ?s = "rp_log_line (c_str line) (s\<lparr>rp_file := rest\<rparr>)"
      have "rp_done ?s = rp_done s" by (simp add: rp_log_line_def rp_logf_def)
      then have dn: "rp_done (replay_line env (c_str line) ?s) = rp_done s"
        using replay_line_adds [of env "c_str line" ?s] by auto
      from consumes_trans [OF replay_line_consumes [OF Some [unfolded lr]] 1 [OF True Some lr [symmetric]] dn]
      show ?thesis using Some lr True by (subst replay_loop.simps) simp
    qed
  qed
qed

section \<open>Runs\<close>

text \<open>A tic: its faults and what is left make up what was left before.\<close>

lemma replay_tic_faults:
  assumes "rp_done s \<longrightarrow> rp_file s = []"
  shows "file_faults (rp_file s) = map fault_data (rp_faults (replay_tic env s)) @ file_faults (rp_file (replay_tic env s))
    \<and> numbered (rp_id s) (rp_faults (replay_tic env s))
    \<and> rp_id (replay_tic env s) = rp_id s + of_nat (length (rp_faults (replay_tic env s)))
    \<and> (rp_done (replay_tic env s) \<longrightarrow> rp_file (replay_tic env s) = [])"
proof -
  let ?s1 = "s\<lparr>rp_faults := [], rp_tic_num := rp_tic_num s + 1\<rparr>"
  have "consumes ?s1 (replay_loop env ?s1)" by (rule replay_loop_consumes)
  with assms show ?thesis
    by (auto simp: replay_tic_def Let_def consumes_def file_faults.simps [of "[]"] getline_def)
qed

lemma replay_run_faults:
  assumes "rp_done s \<longrightarrow> rp_file s = []" "fm_run (replay_fm env) n s = (fss, s')"
  shows "file_faults (rp_file s) = map fault_data (concat fss) @ file_faults (rp_file s')
    \<and> numbered (rp_id s) (concat fss) \<and> (rp_done s' \<longrightarrow> rp_file s' = [])"
  using assms
proof (induction n arbitrary: s fss)
  case 0
  then show ?case by (simp add:)
next
  case (Suc n)
  obtain fss' where run: "fm_run (replay_fm env) n (replay_tic env s) = (fss', s')"
    and fss: "fss = rp_faults (replay_tic env s) # fss'"
    using Suc.prems(2) by (auto simp: fm_step_def replay_get_fail_def split: prod.splits)
  note tic = replay_tic_faults [OF Suc.prems(1), of env]
  with Suc.IH [OF _ run] show ?case by (auto simp: fss numbered_append)
qed

section \<open>Behind the nodes\<close>

text \<open>Reading the nodes neither ends the file nor numbers a fault.\<close>

definition same_progress :: "replay \<Rightarrow> replay \<Rightarrow> bool" where
  "same_progress s s' \<longleftrightarrow> rp_done s' = rp_done s \<and> rp_id s' = rp_id s"

lemma same_progress_simps [simp]:
  "same_progress s (rp_logf l m s') = same_progress s s'" "same_progress s (rp_log_line m s') = same_progress s s'"
  "same_progress s (s'\<lparr>rp_file := x\<rparr>) = same_progress s s'" "same_progress s (s'\<lparr>rp_nodes := ns\<rparr>) = same_progress s s'"
  "same_progress s (s'\<lparr>rp_nxt_tic := t\<rparr>) = same_progress s s'" "same_progress s s"
  by (simp_all add: same_progress_def rp_logf_def rp_log_line_def)

lemma read_node_progress: "same_progress s (snd (read_node env i s))"
  by (auto simp: read_node_def Let_def split: option.splits if_splits)

lemma read_nodes_progress: "same_progress s (snd (read_nodes env k i s))"
proof (induction k arbitrary: i s)
  case (Suc k)
  show ?case using read_node_progress [of s env i] Suc.IH [of "snd (read_node env i s)" "Suc i"]
    by (auto simp: same_progress_def split: prod.splits step_result.splits)
qed simp

lemma get_nodes_progress: "same_progress s (snd (replay_get_nodes env s))"
proof -
  have first: "same_progress s (read_first_tic env s') = same_progress s s'" for s'
    by (simp add: read_first_tic_def Let_def split: option.split)
  have nodes: "read_nodes env k i s1 = (r, s2) \<Longrightarrow> same_progress s s1 \<Longrightarrow> same_progress s s2" for k i s1 r s2
    using read_nodes_progress [of s1 env k i] by (auto simp: same_progress_def)
  show ?thesis
    by (auto simp: replay_get_nodes_def Let_def first elim!: nodes split: option.split prod.split step_result.split)
qed

lemma get_nodes_start: "replay_get_nodes env (replay_start txt) = (r, s) \<Longrightarrow> \<not> rp_done s \<and> rp_id s = 0"
  using get_nodes_progress [of "replay_start txt" env] by (simp add: same_progress_def replay_start_def)

end
