(* ===== verification/Config_Text.thy ===== *)
theory Config_Text
  imports Config
begin

text \<open>
  The text of a configuration file: a section with the libraries and their arguments, a section with
  an assignment for every plugin of the configuration and for the length of a tic. \<open>load_config\<close> reads
  it back (\<open>srv/config.cpp\<close>).
\<close>

section \<open>Writing\<close>

definition unlines :: "string list \<Rightarrow> string" where
  "unlines ls = concat (map (\<lambda>l. l @ [newline]) ls)"

definition lib_line :: "string \<times> string list \<Rightarrow> string" where
  "lib_line = (\<lambda>(path, args). path @ concat (map (\<lambda>a. CHR '' '' # a) args))"

definition field_line :: "'w pheap \<Rightarrow> string \<Rightarrow> ptr option \<Rightarrow> string list" where
  "field_line h key po = (case po of None \<Rightarrow> [] | Some p \<Rightarrow> [key @ '' = '' @ pl_name (h p)])"

definition config_fields :: "'w pheap \<Rightarrow> config \<Rightarrow> string list" where
  "config_fields h c =
     field_line h ''com-actor'' (cf_com_actor c) @ field_line h ''com-notify'' (cf_com_notify c)
     @ field_line h ''logger'' (cf_logger c) @ field_line h ''fault-manager'' (cf_fault_manager c)
     @ [''tic = '' @ show_unsigned (cf_tic_length c)]"

definition config_text :: "'w pheap \<Rightarrow> (string \<times> string list) list \<Rightarrow> config \<Rightarrow> string" where
  "config_text h libs c = unlines ([''[libs]''] @ map lib_line libs @ [''[config]''] @ config_fields h c)"

text \<open>Every line is logged, and the libraries are loaded in their order, as long as they can be.\<close>

definition log_line :: "string \<Rightarrow> 'p world \<Rightarrow> 'p world" where
  "log_line l w = w_logf LL_Debug (c_str (''Line: '' @ l)) w"

fun load_libs :: "'p loader \<Rightarrow> string \<Rightarrow> (string \<times> string list) list \<Rightarrow> 'p world \<Rightarrow> 'p world option" where
  "load_libs dlmopen dlerror [] w = Some w"
| "load_libs dlmopen dlerror (lib # libs) w =
     (case load_library dlmopen dlerror (fst lib) (snd lib) (log_line (lib_line lib) w) of
        (r, w') \<Rightarrow> if r = 0 then load_libs dlmopen dlerror libs w' else None)"

section \<open>What can be written\<close>

definition token_ok :: "string \<Rightarrow> bool" where
  "token_ok t \<longleftrightarrow> t \<noteq> [] \<and> list_all (\<lambda>c. \<not> isspace c \<and> c \<noteq> NUL) t"

definition lib_ok :: "string \<times> string list \<Rightarrow> bool" where
  "lib_ok lib \<longleftrightarrow> token_ok (fst lib) \<and> list_all token_ok (snd lib) \<and> hd (fst lib) \<noteq> CHR ''#''
     \<and> get_token_identifyer (fst lib) AND decl_id \<noteq> 0"

definition names_ok :: "'w pheap \<Rightarrow> config \<Rightarrow> bool" where
  "names_ok h c \<longleftrightarrow> (\<forall>p \<in> set_option (cf_com_actor c) \<union> set_option (cf_com_notify c) \<union> set_option (cf_logger c)
     \<union> set_option (cf_fault_manager c). token_ok (pl_name (h p)))"

section \<open>Tokens and lines\<close>

lemma isspace_simps [simp]: "isspace (CHR '' '')" "isspace newline"
  by (simp_all add: isspace_def)

lemma token_ok_chars: "token_ok t \<Longrightarrow> newline \<notin> set t \<and> NUL \<notin> set t"
  by (auto simp: token_ok_def list_all_iff isspace_def)

lemma extract_space [simp]: "extract_token (CHR '' '' # s) = extract_token s"
  by (simp add: extract_token_def)

lemma extract_token_ok:
  assumes "token_ok t" "r = [] \<or> isspace (hd r)"
  shows "extract_token (t @ r) = Some (t, r)"
proof -
  have all: "list_all (\<lambda>c. \<not> isspace c) t" "t \<noteq> []" using assms(1) by (auto simp: token_ok_def list_all_iff)
  then have "dropWhile isspace (t @ r) = t @ r" using list_all_hd [OF all(1)] by simp
  moreover have "takeWhile (\<lambda>c. \<not> isspace c) (t @ r) = t \<and> dropWhile (\<lambda>c. \<not> isspace c) (t @ r) = r"
    using all assms(2) by (cases r) simp_all
  ultimately show ?thesis using all(2) by (simp add: extract_token_def)
qed

lemma tokens_args: "list_all token_ok args \<Longrightarrow> tokens (concat (map (\<lambda>a. CHR '' '' # a) args)) = args"
proof (induction args)
  case Nil
  then show ?case by (simp add: tokens.simps extract_token_def)
next
  case (Cons a args)
  have "extract_token (a @ concat (map (\<lambda>a. CHR '' '' # a) args)) = Some (a, concat (map (\<lambda>a. CHR '' '' # a) args))"
    using Cons.prems by (intro extract_token_ok) (auto, cases args, auto)
  with Cons show ?case by (simp add: tokens.simps [of "CHR '' '' # _"])
qed

lemma unlines_simps [simp]:
  "unlines [] = []" "unlines (l # ls) = l @ newline # unlines ls" "unlines (ls @ ls') = unlines ls @ unlines ls'"
  by (simp_all add: unlines_def)

lemma config_lines_step:
  assumes "newline \<notin> set l" "config_line h dlmopen dlerror l st = Inr (0, st')"
  shows "config_lines h dlmopen dlerror (l @ newline # rest) st = config_lines h dlmopen dlerror rest st'"
  using assms by (simp add: config_lines.simps [of _ _ _ "l @ newline # rest"] std_getline_def)

lemma log_line_pm [simp]:
  "pm_plugins (w_pm (log_line l w)) = pm_plugins (w_pm w)" "registered (w_pm (log_line l w)) = registered (w_pm w)"
  "pm_inv h (w_pm (log_line l w)) = pm_inv h (w_pm w)"
  by (simp_all add: log_line_def)

lemma stoul_show_unsigned: "stoul (show_unsigned (n :: u64)) = Stoul n"
proof -
  have "unat n < 2 ^ 64" using unsigned_less [of n] by simp
  then show ?thesis using read_number_show_nat(2) [of "[]" "unat n"] by (simp add: stoul_def show_unsigned_def)
qed

lemma section_lines:
  "config_line h dlmopen dlerror ''[libs]'' (state, c, w) = Inr (0, 2, c, log_line ''[libs]'' w)"
  "config_line h dlmopen dlerror ''[config]'' (state, c, w) = Inr (0, 1, c, log_line ''[config]'' w)"
  by (simp_all add: config_line_def extract_token_def isspace_def get_token_identifyer_def tokenids_def strcasecmp_eq_def
      tolower_def c_str_def log_line_def)

lemma config_line_lib:
  assumes "lib_ok lib"
  shows "config_line h dlmopen dlerror (lib_line lib) (2, c, w) =
    (case load_library dlmopen dlerror (fst lib) (snd lib) (log_line (lib_line lib) w) of
       (r, w') \<Rightarrow> Inr (if r \<noteq> 0 then - 1 else 0, 2, c, w'))"
proof -
  obtain path args where lib: "lib = (path, args)" by (cases lib)
  have ok: "token_ok path" "list_all token_ok args" "hd path \<noteq> CHR ''#''" "get_token_identifyer path AND decl_id \<noteq> 0"
    using assms lib by (simp_all add: lib_ok_def)
  let ?rest = "concat (map (\<lambda>a. CHR '' '' # a) args)"
  have "extract_token (path @ ?rest) = Some (path, ?rest)"
    by (rule extract_token_ok [OF ok(1)]) (cases args, auto)
  moreover have "c_str path = path" "map c_str args = args"
    using ok token_ok_chars by (auto simp: list_all_iff intro: map_idI)
  ultimately show ?thesis
    using ok by (simp add: config_line_def lib lib_line_def load_lib_def tokens_args log_line_def Let_def split: prod.split)
qed

lemma config_lines_libs:
  assumes "list_all lib_ok libs" "load_libs dlmopen dlerror libs w = Some w'"
  shows "config_lines h dlmopen dlerror (unlines (map lib_line libs) @ rest) (2, c, w) =
    config_lines h dlmopen dlerror rest (2, c, w')"
  using assms
proof (induction libs arbitrary: w)
  case (Cons lib libs)
  from Cons.prems(2) obtain w1 where
    1: "load_library dlmopen dlerror (fst lib) (snd lib) (log_line (lib_line lib) w) = (0, w1)"
      "load_libs dlmopen dlerror libs w1 = Some w'"
    by (auto split: prod.splits if_splits)
  have "newline \<notin> set (lib_line lib)"
    using Cons.prems(1) token_ok_chars by (auto simp: lib_ok_def lib_line_def list_all_iff split_beta)
  moreover have "config_line h dlmopen dlerror (lib_line lib) (2, c, w) = Inr (0, 2, c, w1)"
    using Cons.prems(1) 1(1) by (simp add: config_line_lib)
  ultimately show ?case using Cons.IH [OF _ 1(2)] Cons.prems(1) by (simp add: config_lines_step)
qed simp

section \<open>Assignments\<close>

definition field_key :: "string \<Rightarrow> u32 \<Rightarrow> bool" where
  "field_key key tid \<longleftrightarrow> token_ok key \<and> hd key \<noteq> CHR ''#'' \<and> get_token_identifyer key = tid \<and> tid AND decl_id \<noteq> 0"

lemma field_keys:
  "field_key ''com-actor'' com_actor_id" "field_key ''com-notify'' com_notify_id" "field_key ''logger'' logger_id"
  "field_key ''fault-manager'' manager_id" "field_key ''tic'' tic_id"
  by (simp_all add: field_key_def token_ok_def isspace_def get_token_identifyer_def tokenids_def strcasecmp_eq_def
      tolower_def)

lemma config_line_assign:
  assumes "field_key key tid" "token_ok value"
  shows "config_line h dlmopen dlerror (key @ '' = '' @ value) (1, c, w) =
    (case set_config h tid ('' = '' @ value) (c, log_line (key @ '' = '' @ value) w) of
       Inl e \<Rightarrow> Inl e | Inr (r, c', w') \<Rightarrow> Inr (if r \<noteq> 0 then - 1 else 0, 1, c', w'))"
proof -
  have "extract_token (key @ '' = '' @ value) = Some (key, '' = '' @ value)"
    using assms(1) by (intro extract_token_ok) (auto simp: field_key_def)
  with assms(1) show ?thesis
    by (simp add: config_line_def log_line_def field_key_def Let_def split: sum.split)
qed

lemma set_config_value:
  assumes "token_ok value"
  shows "set_config h tid ('' = '' @ value) (c, w) =
    (if tid = tic_id then assign_tic value (c, w)
     else case get_by_name h value (w_pm w) of
       None \<Rightarrow> Inr (- 1, c, w_logf LL_Error (c_str (''plugin \"'' @ value @ ''\" is not loaded'')) w)
     | Some p \<Rightarrow> Inr (assign h tid p (c, w)))"
proof -
  have "extract_token (''='' @ CHR '' '' # value) = Some (''='', CHR '' '' # value)"
    by (rule extract_token_ok) (simp_all add: token_ok_def isspace_def)
  moreover have "extract_token (value @ []) = Some (value, [])" by (rule extract_token_ok [OF assms]) simp
  ultimately show ?thesis using assms token_ok_chars by (simp add: set_config_def)
qed

text \<open>An assignment to a field that is not set, by a capable and registered plugin, sets it.\<close>

lemma config_lines_field:
  fixes w :: "'p world"
  assumes key: "field_key key tid" "tid \<noteq> tic_id"
    and inv: "pm_inv h (w_pm w)" "capable h (registered (w_pm w)) t po" "\<forall>p \<in> set_option po. token_ok (pl_name (h p))"
    and sets: "\<And>p (w :: 'p world). HAS_PL_TYPE (h p) t \<Longrightarrow> assign h tid p (c, w) = (0, upd (Some p) c, w)" "upd None c = c"
  shows "config_lines h dlmopen dlerror (unlines (field_line h key po) @ rest) (1, c, w) =
    config_lines h dlmopen dlerror rest (1, upd po c, fold log_line (field_line h key po) w)"
proof (cases po)
  case None
  with sets(2) show ?thesis by (simp add: field_line_def)
next
  case (Some p)
  let ?name = "pl_name (h p)"
  let ?line = "key @ '' = '' @ ?name"
  have p: "token_ok ?name" "HAS_PL_TYPE (h p) t" "get_by_name h ?name (w_pm (log_line ?line w)) = Some p"
    using inv Some get_by_name_iff [of h "w_pm (log_line ?line w)" ?name p]
    by (simp_all add: capable_def registered_def)
  have "newline \<notin> set ?line" using token_ok_chars [OF p(1)] key(1) token_ok_chars [of key] by (auto simp: field_key_def)
  moreover have "config_line h dlmopen dlerror ?line (1, c, w) = Inr (0, 1, upd po c, log_line ?line w)"
    using config_line_assign [OF key(1) p(1), of h dlmopen dlerror c w] set_config_value [OF p(1), of h tid c "log_line ?line w"]
      p(2,3) key(2) sets(1) Some by simp
  ultimately show ?thesis
    using config_lines_step [of ?line h dlmopen dlerror "(1, c, w)"] Some by (simp add: field_line_def)
qed

lemma fold_log_pm [simp]:
  "pm_plugins (w_pm (fold log_line ls w)) = pm_plugins (w_pm w)"
  "registered (w_pm (fold log_line ls w)) = registered (w_pm w)" "pm_inv h (w_pm (fold log_line ls w)) = pm_inv h (w_pm w)"
  by (induction ls arbitrary: w) simp_all

lemma config_lines_tic:
  assumes "cf_tic_length c = 0"
  shows "config_lines h dlmopen dlerror ((''tic = '' @ show_unsigned n) @ newline # rest) (1, c, w) =
    config_lines h dlmopen dlerror rest (1, c\<lparr>cf_tic_length := n\<rparr>, log_line (''tic = '' @ show_unsigned n) w)"
proof -
  have chars: "\<not> isspace x \<and> x \<noteq> NUL" if "x \<in> set (show_unsigned n)" for x
    using that show_unsigned_digits [of n] by (auto simp: list_all_iff is_digit_def digit_val_def isspace_def)
  then have ok: "token_ok (show_unsigned n)"
    by (simp add: token_ok_def list_all_iff)
  have "config_line h dlmopen dlerror (''tic'' @ '' = '' @ show_unsigned n) (1, c, w) =
    Inr (0, 1, c\<lparr>cf_tic_length := n\<rparr>, log_line (''tic'' @ '' = '' @ show_unsigned n) w)"
    unfolding config_line_assign [OF field_keys(5) ok] set_config_value [OF ok]
    using assms by (simp add: assign_tic_def stoul_show_unsigned warn_if_def)
  moreover have "newline \<notin> set (''tic = '' @ show_unsigned n)" using token_ok_chars [OF ok] by simp
  ultimately show ?thesis by (intro config_lines_step) simp_all
qed

text \<open>The lines of the second section, one field after the other.\<close>

lemma config_lines_fields:
  assumes "pm_inv h (w_pm w)" "config_inv h conf (registered (w_pm w))" "names_ok h conf"
  shows "config_lines h dlmopen dlerror (unlines (config_fields h conf)) (1, new_config, w) =
    Inr (0, conf\<lparr>cf_is_loaded := True\<rparr>, fold log_line (config_fields h conf) w)"
proof -
  let ?A = "field_line h ''com-actor'' (cf_com_actor conf)" and ?N = "field_line h ''com-notify'' (cf_com_notify conf)"
  let ?L = "field_line h ''logger'' (cf_logger conf)" and ?M = "field_line h ''fault-manager'' (cf_fault_manager conf)"
  let ?c1 = "new_config\<lparr>cf_com_actor := cf_com_actor conf\<rparr>"
  let ?c2 = "?c1\<lparr>cf_com_notify := cf_com_notify conf\<rparr>"
  let ?c3 = "?c2\<lparr>cf_logger := cf_logger conf\<rparr>"
  let ?c4 = "?c3\<lparr>cf_fault_manager := cf_fault_manager conf\<rparr>"
  note inv = assms [unfolded config_inv_def names_ok_def]
  have A: "config_lines h dlmopen dlerror (unlines ?A @ r) (1, new_config, w) =
      config_lines h dlmopen dlerror r (1, ?c1, fold log_line ?A w)" for r
    by (rule config_lines_field [OF field_keys(1), where t = PL_COM_ACTOR and upd = "\<lambda>po. cf_com_actor_update (\<lambda>_. po)"])
       (use inv in \<open>auto simp: assign_def assign_com_actor_def new_config_def warn_if_def\<close>)
  have N: "config_lines h dlmopen dlerror (unlines ?N @ r) (1, ?c1, w') =
      config_lines h dlmopen dlerror r (1, ?c2, fold log_line ?N w')" if "w' = fold log_line ls w" for r w' ls
    by (rule config_lines_field [OF field_keys(2), where t = PL_COM_EXTERN and upd = "\<lambda>po. cf_com_notify_update (\<lambda>_. po)"])
       (use inv that in \<open>auto simp: assign_def assign_com_notify_def new_config_def warn_if_def\<close>)
  have L: "config_lines h dlmopen dlerror (unlines ?L @ r) (1, ?c2, w') =
      config_lines h dlmopen dlerror r (1, ?c3, fold log_line ?L w')" if "w' = fold log_line ls w" for r w' ls
    by (rule config_lines_field [OF field_keys(3), where t = PL_LOGGER and upd = "\<lambda>po. cf_logger_update (\<lambda>_. po)"])
       (use inv that in \<open>auto simp: assign_def assign_logger_def new_config_def warn_if_def\<close>)
  have M: "config_lines h dlmopen dlerror (unlines ?M @ r) (1, ?c3, w') =
      config_lines h dlmopen dlerror r (1, ?c4, fold log_line ?M w')" if "w' = fold log_line ls w" for r w' ls
    by (rule config_lines_field [OF field_keys(4), where t = PL_FAULT_MANAGER and upd = "\<lambda>po. cf_fault_manager_update (\<lambda>_. po)"])
       (use inv that in \<open>auto simp: assign_def assign_manager_def new_config_def warn_if_def\<close>)
  let ?w4 = "fold log_line ?M (fold log_line ?L (fold log_line ?N (fold log_line ?A w)))"
  let ?T = "''tic = '' @ show_unsigned (cf_tic_length conf)"
  have T: "config_lines h dlmopen dlerror (?T @ newline # []) (1, ?c4, ?w4) =
      Inr (0, conf\<lparr>cf_is_loaded := True\<rparr>, log_line ?T ?w4)"
    by (subst config_lines_tic) (simp_all add: new_config_def config_lines.simps std_getline_def)
  have "config_lines h dlmopen dlerror (unlines ?A @ unlines ?N @ unlines ?L @ unlines ?M @ ?T @ newline # []) (1, new_config, w) =
      Inr (0, conf\<lparr>cf_is_loaded := True\<rparr>, log_line ?T ?w4)"
    unfolding A N [of _ "?A", OF refl]
    by (subst L [of _ "?A @ ?N"], simp, subst M [of _ "?A @ ?N @ ?L"], simp, rule T)
  then show ?thesis by (simp add: config_fields_def)
qed

section \<open>The round trip\<close>

lemma config_text_read:
  assumes "files name = Some (config_text h libs conf)"
    and "list_all lib_ok libs" "load_libs dlmopen dlerror libs (log_line ''[libs]'' w) = Some w1"
    and "pm_inv h (w_pm w1)" "config_inv h conf (registered (w_pm w1))" "names_ok h conf"
  shows "load_config h dlmopen dlerror files name (new_config, w) =
    Inr (0, conf\<lparr>cf_is_loaded := True\<rparr>, fold log_line (''[config]'' # config_fields h conf) w1)"
proof -
  let ?fields = "unlines (config_fields h conf)"
  have "load_config h dlmopen dlerror files name (new_config, w) =
    config_lines h dlmopen dlerror (''[libs]'' @ newline # unlines (map lib_line libs) @ ''[config]'' @ newline # ?fields) (0, new_config, w)"
    using assms(1) by (simp add: load_config_def new_config_def config_text_def)
  also have "\<dots> = config_lines h dlmopen dlerror (unlines (map lib_line libs) @ ''[config]'' @ newline # ?fields)
      (2, new_config, log_line ''[libs]'' w)"
    by (rule config_lines_step) (simp_all add: section_lines)
  also have "\<dots> = config_lines h dlmopen dlerror (''[config]'' @ newline # ?fields) (2, new_config, w1)"
    by (rule config_lines_libs [OF assms(2,3)])
  also have "\<dots> = config_lines h dlmopen dlerror ?fields (1, new_config, log_line ''[config]'' w1)"
    by (rule config_lines_step) (simp_all add: section_lines)
  also have "\<dots> = Inr (0, conf\<lparr>cf_is_loaded := True\<rparr>, fold log_line (''[config]'' # config_fields h conf) w1)"
    using config_lines_fields [of h "log_line ''[config]'' w1" conf] assms(4-6) by simp
  finally show ?thesis .
qed

end
