(* ===== verification/Message_Order.thy ===== *)
theory Message_Order
  imports Main_Loop
begin

text \<open>
  Messages that arrive while tics run. The thread of the communication plugin may call \<open>on_message\<close>
  between any two of the calls that \<open>Server::do_tic\<close> makes (\<open>srv/server.cpp\<close>): the reading of the clock,
  the fault manager's tic, \<open>manage_fails\<close> and \<open>skip_to_end_of_tic\<close>.
\<close>

section \<open>The calls of a tic\<close>

definition tic_phase ::
  "(string list \<Rightarrow> string list \<Rightarrow> string) \<Rightarrow> (nat \<Rightarrow> u64) \<Rightarrow> nat \<Rightarrow> 'p world server \<times> 'p world
   \<Rightarrow> ('p world server \<times> 'p world) option" where
  "tic_phase serialize clock k = (\<lambda>(s, w).
     if k = 0 then
       Some (if sv_tic s = 0
             then s\<lparr>sv_timestamp := sint (clock (sv_clock s)), sv_clock := Suc (sv_clock s)\<rparr> else s, w)
     else if k = 1 then Some (s, fm_tic (sv_manager s) w)
     else if k = 2 then Some (s, manage_fails serialize s w)
     else skip_to_end_of_tic clock (s, w))"

datatype srv_event = Call | Message string

text \<open>A schedule of calls and messages; \<open>k\<close> is the next call of the current tic.\<close>

fun run_events ::
  "(string \<Rightarrow> backchannel option) \<Rightarrow> (string list \<Rightarrow> string list \<Rightarrow> string) \<Rightarrow> (nat \<Rightarrow> u64) \<Rightarrow> nat \<Rightarrow> srv_event list
   \<Rightarrow> 'p world server \<times> 'p world \<Rightarrow> ('p world server \<times> 'p world) option" where
  "run_events parse serialize clock k [] sw = Some sw"
| "run_events parse serialize clock k (Message m # es) sw =
     run_events parse serialize clock k es (on_messages parse [m] sw)"
| "run_events parse serialize clock k (Call # es) sw =
     (case tic_phase serialize clock k sw of
        None \<Rightarrow> None
      | Some sw' \<Rightarrow> run_events parse serialize clock (if k < 3 then Suc k else 0) es sw')"

fun num_calls :: "srv_event list \<Rightarrow> nat" where
  "num_calls [] = 0"
| "num_calls (Call # es) = Suc (num_calls es)"
| "num_calls (Message m # es) = num_calls es"

fun arrived :: "srv_event list \<Rightarrow> string list" where
  "arrived [] = []"
| "arrived (Call # es) = arrived es"
| "arrived (Message m # es) = m # arrived es"

text \<open>Without messages the calls of \<open>n\<close> tics are \<open>n\<close> tics.\<close>

lemma do_tic_phases:
  "run_events parse serialize clock 0 (Call # Call # Call # Call # es) sw =
     (case do_tic serialize clock sw of None \<Rightarrow> None | Some sw' \<Rightarrow> run_events parse serialize clock 0 es sw')"
  by (cases sw) (simp add: tic_phase_def do_tic_def Let_def)

lemma run_tics_events:
  "run_events parse serialize clock 0 (replicate (4 * n) Call) sw = run_tics serialize clock n sw"
proof (induction n arbitrary: sw)
  case (Suc n)
  have "replicate (4 * Suc n) Call = Call # Call # Call # Call # replicate (4 * n) Call"
    by (simp add: eval_nat_numeral)
  with Suc show ?case by (simp only: do_tic_phases run_tics.simps)
qed simp

section \<open>Calls and messages do not see each other\<close>

text \<open>
  The server in the middle of a schedule, related to the one that only makes the calls and the one
  that only gets the messages.
\<close>

definition mixes :: "('p world server \<times> 'p world) \<Rightarrow> ('p world server \<times> 'p world) \<Rightarrow> ('p world server \<times> 'p world) \<Rightarrow> bool" where
  "mixes sw ca me \<longleftrightarrow> fst sw = (fst ca)\<lparr>sv_nodes := sv_nodes (fst me), sv_forwarded := sv_forwarded (fst me)\<rparr>
     \<and> w_plug (snd sw) = w_plug (snd ca) \<and> sv_other_cb (fst me) = sv_other_cb (fst ca)"

text \<open>What a message makes of the nodes and of the forwarded messages.\<close>

definition message_nodes :: "(string \<Rightarrow> backchannel option) \<Rightarrow> string \<Rightarrow> node list \<Rightarrow> node list" where
  "message_nodes parse m ns =
     (case parse m of
        None \<Rightarrow> ns
      | Some bk \<Rightarrow> (case (bc_msgtype bk, bc_newstatus bk) of
          (BC_STATUS, Some st) \<Rightarrow> snd (set_state_in (c_str (bc_nodename bk)) (snd (status_state st)) ns)
        | _ \<Rightarrow> ns))"

definition message_forwarded :: "(string \<Rightarrow> backchannel option) \<Rightarrow> string \<Rightarrow> msg_callback option
    \<Rightarrow> (msg_callback \<times> string) list \<Rightarrow> (msg_callback \<times> string) list" where
  "message_forwarded parse m other fw =
     (case (parse m, other) of (Some bk, Some cb) \<Rightarrow> if bc_msgtype bk = BC_OTHER then fw @ [(cb, m)] else fw | _ \<Rightarrow> fw)"

lemma on_message_parts:
  "\<exists>w'. on_message parse m (Some s) w =
     (Some (s\<lparr>sv_nodes := message_nodes parse m (sv_nodes s),
              sv_forwarded := message_forwarded parse m (sv_other_cb s) (sv_forwarded s)\<rparr>), w')
   \<and> w_plug w' = w_plug w"
proof (cases "parse m")
  case (Some bk)
  then show ?thesis
    by (cases "bc_msgtype bk"; cases "bc_logerrmsg bk"; cases "bc_newstatus bk"; cases "sv_other_cb s")
       (simp_all add: on_message_def message_nodes_def message_forwarded_def set_node_state_def w_logf_def split_beta Let_def)
qed (simp add: on_message_def message_nodes_def message_forwarded_def w_logf_def split: option.split)

lemma mixes_message:
  assumes "mixes sw ca me"
  shows "mixes (on_messages parse [m] sw) ca (on_messages parse [m] me)"
proof -
  obtain s w s2 w2 where p: "sw = (s, w)" "me = (s2, w2)" by (cases sw, cases me)
  obtain w' where 1: "on_message parse m (Some s) w = (Some (s\<lparr>sv_nodes := message_nodes parse m (sv_nodes s),
      sv_forwarded := message_forwarded parse m (sv_other_cb s) (sv_forwarded s)\<rparr>), w')" "w_plug w' = w_plug w"
    using on_message_parts by blast
  obtain w2' where 2: "on_message parse m (Some s2) w2 = (Some (s2\<lparr>sv_nodes := message_nodes parse m (sv_nodes s2),
      sv_forwarded := message_forwarded parse m (sv_other_cb s2) (sv_forwarded s2)\<rparr>), w2')"
    using on_message_parts by blast
  show ?thesis using assms 1 2 by (simp add: mixes_def p)
qed

lemma skip_parts:
  "skip_to_end_of_tic clock (s\<lparr>sv_nodes := ns, sv_forwarded := fw\<rparr>, w) = None \<longleftrightarrow> skip_to_end_of_tic clock (s, w') = None"
  "skip_to_end_of_tic clock (s, w') = Some (s1, w1) \<Longrightarrow> same_setup s s1 \<and> w_plug w1 = w_plug w'
     \<and> (\<exists>w2. skip_to_end_of_tic clock (s\<lparr>sv_nodes := ns, sv_forwarded := fw\<rparr>, w) = Some (s1\<lparr>sv_nodes := ns, sv_forwarded := fw\<rparr>, w2)
           \<and> w_plug w2 = w_plug w)"
  by (auto simp: skip_to_end_of_tic_def same_setup_def w_logf_def Let_def split: option.splits if_splits)

lemma mixes_call:
  assumes "mixes sw ca me" "wired fm actor notify (fst ca)"
  shows "case tic_phase serialize clock k ca of
      None \<Rightarrow> tic_phase serialize clock k sw = None
    | Some ca' \<Rightarrow> \<exists>sw'. tic_phase serialize clock k sw = Some sw' \<and> mixes sw' ca' me \<and> wired fm actor notify (fst ca')"
proof -
  obtain s w s1 w1 where p: "sw = (s, w)" "ca = (s1, w1)" by (cases sw, cases ca)
  let ?ns = "sv_nodes (fst me)" and ?fw = "sv_forwarded (fst me)"
  have s: "s = s1\<lparr>sv_nodes := ?ns, sv_forwarded := ?fw\<rparr>" and w: "w_plug w = w_plug w1" and cb: "sv_other_cb (fst me) = sv_other_cb s1"
    using assms(1) by (simp_all add: mixes_def p)
  have wired: "sv_manager s1 = world_manager fm" "sv_com_actor s1 = world_com actor" "sv_com_notify s1 = world_com notify"
    using assms(2) by (simp_all add: wired_def p)
  obtain fs m where f: "fm_get_fail fm (fst (w_plug w1)) = (fs, m)" by fastforce
  have fails: "w_plug (manage_fails serialize s w) = w_plug (manage_fails serialize s1 w1)"
    using manage_fails_world [OF wired f] manage_fails_world [of s fm actor notify w fs m] f s w wired by simp
  consider "k = 0" | "k = 1" | "k = 2" | "2 < k" by linarith
  then show ?thesis
  proof cases
    case 4
    then show ?thesis
      using skip_parts [where clock = clock and s = s1 and ns = ?ns and fw = ?fw and w = w and w' = w1] w cb wired
      by (cases "skip_to_end_of_tic clock (s1, w1)") (auto simp: tic_phase_def mixes_def p s wired_def same_setup_def)
  qed (use s w cb wired fails in \<open>auto simp: tic_phase_def mixes_def p wired_def\<close>)
qed

lemma run_events_mix:
  assumes "mixes sw ca me" "wired fm actor notify (fst ca)" "run_events parse serialize clock k (replicate (num_calls es) Call) ca = Some ca'"
  shows "\<exists>sw'. run_events parse serialize clock k es sw = Some sw' \<and> mixes sw' ca' (on_messages parse (arrived es) me)"
  using assms
proof (induction es arbitrary: k sw ca me)
  case (Cons e es)
  show ?case
  proof (cases e)
    case Call
    from Cons.prems(3) obtain ca1 where 1: "tic_phase serialize clock k ca = Some ca1"
      "run_events parse serialize clock (if k < 3 then Suc k else 0) (replicate (num_calls es) Call) ca1 = Some ca'"
      by (simp add: Call split: option.splits)
    then obtain sw1 where "tic_phase serialize clock k sw = Some sw1" "mixes sw1 ca1 me" "wired fm actor notify (fst ca1)"
      using mixes_call [OF Cons.prems(1,2), of serialize clock k] by auto
    with Cons.IH [of sw1 ca1 me "if k < 3 then Suc k else 0"] 1(2) Call show ?thesis by simp
  next
    case (Message m)
    have "on_messages parse (m # arrived es) me = on_messages parse (arrived es) (on_messages parse [m] me)"
      using on_message_parts [of parse m "fst me" "snd me"] by (cases me) auto
    with Cons.IH [OF mixes_message [OF Cons.prems(1)] Cons.prems(2)] Cons.prems(3) Message show ?thesis by simp
  qed
qed simp

lemma messages_commute:
  assumes "wired fm actor notify s" "well_timed s" "num_calls es = 4 * n"
  shows "\<exists>s1 w1 s2 w2 w'. run_tics serialize clock n (s, w) = Some (s1, w1) \<and> on_messages parse (arrived es) (s, w) = (s2, w2)
    \<and> run_events parse serialize clock 0 es (s, w) =
        Some (s1\<lparr>sv_nodes := sv_nodes s2, sv_forwarded := sv_forwarded s2\<rparr>, w') \<and> w_plug w' = w_plug w1"
proof -
  obtain fss m where "fm_run fm n (fst (w_plug w)) = (fss, m)" by fastforce
  then obtain s1 w1 where 1: "run_tics serialize clock n (s, w) = Some (s1, w1)"
    using run_tics_world [OF assms(1,2)] by blast
  obtain s2 w2 where 2: "on_messages parse (arrived es) (s, w) = (s2, w2)" by fastforce
  have "mixes (s, w) (s, w) (s, w)" by (simp add: mixes_def)
  from run_events_mix [OF this, of fm actor notify parse serialize clock 0 es "(s1, w1)"]
  obtain sw' where "run_events parse serialize clock 0 es (s, w) = Some sw'" "mixes sw' (s1, w1) (s2, w2)"
    using assms(1,3) 1 2 run_tics_events [of parse serialize clock n "(s, w)"] by auto
  then show ?thesis using 1 2 by (cases sw') (auto simp: mixes_def)
qed

end
