(* ===== verification/Random_Memory.thy ===== *)
theory Random_Memory
  imports Replay_Nodes Random_Faults
begin

text \<open>
  The random fault manager (\<open>plugins/random/random.c\<close>) on the memory it allocates: the nodes behind an
  array of pointers, the faults of a tic behind another. A fault shares the name of its node and does
  not own it. The functional model is \<open>Random_Faults\<close>; here it is shown that the code on the memory does
  the same, uses no freed block, and gives back everything unless an allocation failed.
\<close>

section \<open>State and operations\<close>

record 'g random_c =
  rm_num :: int
  rm_nodes :: addr
  rm_num_fault :: nat
  rm_faults :: addr
  rm_gen :: 'g
  rm_log :: "log_call list"
  rm_heap :: heap

definition rm_load :: "'g \<Rightarrow> heap \<Rightarrow> 'g random_c" where
  "rm_load g h = \<lparr>rm_num = - 1, rm_nodes = NULL, rm_num_fault = 0, rm_faults = NULL, rm_gen = g, rm_log = [], rm_heap = h\<rparr>"

definition rm_logf :: "log_level \<Rightarrow> string \<Rightarrow> 'g random_c \<Rightarrow> 'g random_c" where
  "rm_logf l m s = s\<lparr>rm_log := rm_log s @ [(l, m)]\<rparr>"

text \<open>\<open>nodes[i]\<close>: the address of the structure, the node and its health.\<close>

definition nth_mynode :: "addr \<Rightarrow> nat \<Rightarrow> heap \<Rightarrow> (addr \<times> c_node \<times> int) option" where
  "nth_mynode base i h =
     do { ps \<leftarrow> pointers_at base h; p \<leftarrow> nth_opt ps i;
          case hp_mem h (fst p) of Some (My_node n k) \<Rightarrow> Some (fst p, n, k) | _ \<Rightarrow> None }"

fun rm_free_loop :: "addr \<Rightarrow> nat \<Rightarrow> nat \<Rightarrow> heap \<Rightarrow> heap option" where
  "rm_free_loop base i 0 h = Some h"
| "rm_free_loop base i (Suc k) h =
     do { ps \<leftarrow> pointers_at base h; p \<leftarrow> nth_opt ps i; h1 \<leftarrow> c_free (fst p) h; rm_free_loop base (Suc i) k h1 }"

definition rm_free_faults :: "'g random_c \<Rightarrow> 'g random_c option" where
  "rm_free_faults s =
     do { h1 \<leftarrow> rm_free_loop (rm_faults s) 0 (rm_num_fault s) (rm_heap s);
          h2 \<leftarrow> c_free (rm_faults s) h1;
          Some (s\<lparr>rm_heap := h2\<rparr>) }"

text \<open>A fault of node \<open>n\<close> at the end of the array; the array has been made one pointer longer.\<close>

definition rm_add_fault :: "c_node \<Rightarrow> addr \<Rightarrow> nat \<Rightarrow> heap \<Rightarrow> (addr \<times> heap) option" where
  "rm_add_fault n faults num h =
     do { old \<leftarrow> (if faults = NULL then Some [] else pointers_at faults h);
          (arr, h1) \<leftarrow> c_realloc faults (Pointers (old @ [(NULL, 0)])) h;
          (f, h2) \<leftarrow> Some (c_alloc (Fault_struct zero_fault) h1);
          h3 \<leftarrow> set_pointer arr num (f, 0) h2;
          h4 \<leftarrow> c_store f (Fault_struct \<lparr>cf_id = cn_id n, cf_name = Some ''node-failed'', cf_component = NULL,
                             cf_node = cn_name n, cf_severity = 100\<rparr>) h3;
          Some (arr, h4) }"

text \<open>When the array cannot grow, the pointer to the old one is lost.\<close>

fun rm_tic_loop ::
  "'g alloc \<Rightarrow> 'g draw \<Rightarrow> addr \<Rightarrow> nat \<Rightarrow> nat \<Rightarrow> addr \<times> nat \<times> 'g \<times> heap \<Rightarrow> (addr \<times> nat \<times> 'g \<times> heap) option" where
  "rm_tic_loop alloc rand nodes i 0 (faults, num, g, h) = Some (faults, num, g, h)"
| "rm_tic_loop alloc rand nodes i (Suc k) (faults, num, g, h) =
     do { (p, n, healthy) \<leftarrow> nth_mynode nodes i h;
          if healthy \<noteq> 0 then
            (case rand g of (r, g1) \<Rightarrow>
               if r < prob then
                 do { h1 \<leftarrow> c_store p (My_node n 0) h;
                      case alloc g1 of (ok, g2) \<Rightarrow>
                        if ok then do { (arr, h2) \<leftarrow> rm_add_fault n faults num h1;
                                        rm_tic_loop alloc rand nodes (Suc i) k (arr, Suc num, g2, h2) }
                        else Some (NULL, 0, g2, h1) }
               else rm_tic_loop alloc rand nodes (Suc i) k (faults, num, g1, h))
          else rm_tic_loop alloc rand nodes (Suc i) k (faults, num, g, h) }"

definition rm_tic :: "'g alloc \<Rightarrow> 'g draw \<Rightarrow> 'g random_c \<Rightarrow> 'g random_c option" where
  "rm_tic alloc rand s =
     do { s1 \<leftarrow> rm_free_faults s;
          (faults, num, g, h) \<leftarrow> rm_tic_loop alloc rand (rm_nodes s1) 0 (nat (rm_num s1)) (NULL, 0, rm_gen s1, rm_heap s1);
          Some (s1\<lparr>rm_faults := faults, rm_num_fault := num, rm_gen := g, rm_heap := h\<rparr>) }"

definition rm_get_fail :: "'g random_c \<Rightarrow> addr \<times> nat" where
  "rm_get_fail s = (rm_faults s, rm_num_fault s)"

text \<open>The loop of \<open>init\<close>: False when an allocation failed.\<close>

fun rm_new_nodes :: "'g alloc \<Rightarrow> addr \<Rightarrow> nat \<Rightarrow> nat \<Rightarrow> 'g \<Rightarrow> heap \<Rightarrow> (bool \<times> 'g \<times> heap) option" where
  "rm_new_nodes alloc nodes 0 i g h = Some (True, g, h)"
| "rm_new_nodes alloc nodes (Suc k) i g h =
     (case alloc g of (ok1, g1) \<Rightarrow>
        if \<not> ok1 then do { h1 \<leftarrow> set_pointer nodes i (NULL, 0) h; Some (False, g1, h1) }
        else
          do { (p, h1) \<leftarrow> Some (c_alloc (My_node zero_node 0) h);
               h2 \<leftarrow> set_pointer nodes i (p, 0) h1;
               case alloc g1 of (ok2, g2) \<Rightarrow>
                 if \<not> ok2 then Some (False, g2, h2)
                 else do { (nm, h3) \<leftarrow> Some (c_alloc (Chars []) h2);
                           h4 \<leftarrow> c_store nm (Chars (snprintf 64 (''node'' @ show_nat i))) h3;
                           h5 \<leftarrow> c_store p (My_node (zero_node\<lparr>cn_name := nm, cn_type := uniform_node,
                                    cn_num_components := 0, cn_components := NULL\<rparr>) 1) h4;
                           rm_new_nodes alloc nodes k (Suc i) g2 h5 } })"

fun rm_log_args :: "nat \<Rightarrow> string list \<Rightarrow> 'g random_c \<Rightarrow> 'g random_c" where
  "rm_log_args n [] s = s"
| "rm_log_args n (a # as) s =
     rm_log_args (Suc n) as (rm_logf LL_Debug (snprintf 512 (''[RANDOM] Arg #'' @ show_nat n @ '': '' @ a)) s)"

definition rm_init :: "'g alloc \<Rightarrow> int \<Rightarrow> string list \<Rightarrow> 'g random_c \<Rightarrow> (int \<times> 'g random_c) option" where
  "rm_init alloc version argv s =
     (if version \<noteq> 7 then Some (1, rm_logf LL_Error ''[RANDOM] Plugin interface version missmatch'' s)
      else
        let s1 = rm_log_args 0 argv s
        in case argv of
             [] \<Rightarrow> Some (- 1, rm_logf LL_Error ''[RANDOM] No node number is specifyed'' s1)
           | arg # _ \<Rightarrow>
               let num = sint (word_of_int (strtol_val 0 arg) :: u32); s2 = s1\<lparr>rm_num := num\<rparr>
               in if num < 0 then Some (- 1, rm_logf LL_Error ''[RANDOM] invalid number of nodes'' s2)
                  else
                    let s3 = rm_logf LL_Debug (snprintf 512 (''[RANDOM] creating '' @ show_int num @ '' nodes'')) s2
                    in do { (nodes, h1) \<leftarrow> Some (c_alloc (Pointers (replicate (nat num) (NULL, 0))) (rm_heap s3));
                            (ok, g, h2) \<leftarrow> rm_new_nodes alloc nodes (nat num) 0 (rm_gen s3) h1;
                            Some (if ok then 0 else - 1, s3\<lparr>rm_nodes := nodes, rm_gen := g, rm_heap := h2\<rparr>) })"

fun rm_cleanup_loop :: "addr \<Rightarrow> nat \<Rightarrow> nat \<Rightarrow> heap \<Rightarrow> heap option" where
  "rm_cleanup_loop base i 0 h = Some h"
| "rm_cleanup_loop base i (Suc k) h =
     do { (p, n, _) \<leftarrow> nth_mynode base i h;
          h1 \<leftarrow> c_free (cn_name n) h;
          (p1, _, _) \<leftarrow> nth_mynode base i h1;
          h2 \<leftarrow> c_free p1 h1;
          rm_cleanup_loop base (Suc i) k h2 }"

definition rm_cleanup :: "'g random_c \<Rightarrow> 'g random_c option" where
  "rm_cleanup s =
     do { s1 \<leftarrow> rm_free_faults s;
          h1 \<leftarrow> rm_cleanup_loop (rm_nodes s1) 0 (nat (rm_num s1)) (rm_heap s1);
          h2 \<leftarrow> c_free (rm_nodes s1) h1;
          Some (s1\<lparr>rm_heap := h2\<rparr>) }"

text \<open>
  The plugin from \<open>init\<close> to \<open>cleanup\<close>, with \<open>n\<close> tics in which the server reads the faults. It ends with the
  return value of \<open>init\<close> when that is not 0 (Inl).
\<close>

fun rm_tics :: "'g alloc \<Rightarrow> 'g draw \<Rightarrow> nat \<Rightarrow> 'g random_c \<Rightarrow> (fault list list \<times> 'g random_c) option" where
  "rm_tics alloc rand 0 s = Some ([], s)"
| "rm_tics alloc rand (Suc n) s =
     do { s1 \<leftarrow> rm_tic alloc rand s;
          (arr, num) \<leftarrow> Some (rm_get_fail s1);
          fs \<leftarrow> those (map (\<lambda>i. read_fault arr i (rm_heap s1)) [0..<num]);
          (fss, s2) \<leftarrow> rm_tics alloc rand n s1;
          Some (fs # fss, s2) }"

definition rm_session ::
  "'g alloc \<Rightarrow> 'g draw \<Rightarrow> int \<Rightarrow> string list \<Rightarrow> nat \<Rightarrow> 'g \<Rightarrow> heap \<Rightarrow> (int + fault list list \<times> heap) option" where
  "rm_session alloc rand version argv n g h =
     do { (ret, s) \<leftarrow> rm_init alloc version argv (rm_load g h);
          if ret \<noteq> 0 then Some (Inl ret)
          else do { (fss, s1) \<leftarrow> rm_tics alloc rand n s;
                    s2 \<leftarrow> rm_cleanup s1;
                    Some (Inr (fss, rm_heap s2)) } }"

section \<open>Who owns what\<close>

text \<open>A node in memory: the addresses of its structure and of its name, and the node.\<close>

type_synonym my_shape = "addr \<times> addr \<times> mynode"

definition my_of :: "my_shape \<Rightarrow> mynode" where "my_of x = snd (snd x)"

definition c_my_of :: "my_shape \<Rightarrow> c_node" where
  "c_my_of x = (case x of (p, nm, m) \<Rightarrow>
     \<lparr>cn_name = nm, cn_id = node_id (mn_p m), cn_type = node_type (mn_p m), cn_state = node_state (mn_p m),
      cn_num_components = 0, cn_components = NULL\<rparr>)"

definition my_cells :: "my_shape \<Rightarrow> cells" where
  "my_cells x = (case x of (p, nm, m) \<Rightarrow>
     [(p, My_node (c_my_of x) (mn_healthy m)), (nm, Chars (node_name (mn_p m)))])"

definition my_array :: "addr \<Rightarrow> addr list \<Rightarrow> addr \<times> block" where
  "my_array base ps = (base, Pointers (map (\<lambda>p. (p, 0)) ps))"

definition my_names :: "my_shape list \<Rightarrow> (addr \<times> string) list" where
  "my_names xs = map (\<lambda>(p, nm, m). (nm, node_name (mn_p m))) xs"

text \<open>A fault in memory: the address of its structure, that of its node's name, and the fault.\<close>

type_synonym lent_shape = "addr \<times> addr \<times> fault"

definition lent_cell :: "lent_shape \<Rightarrow> addr \<times> block" where
  "lent_cell y = (case y of (q, nm, f) \<Rightarrow>
     (q, Fault_struct \<lparr>cf_id = fault_id f, cf_name = fault_name f, cf_component = NULL, cf_node = nm,
           cf_severity = fault_severity f\<rparr>))"

definition lent_ok :: "lent_shape list \<Rightarrow> my_shape list \<Rightarrow> bool" where
  "lent_ok ys xs \<longleftrightarrow> (\<forall>(q, nm, f) \<in> set ys. fault_component f = None \<and> (nm, fault_node f) \<in> set (my_names xs))"

definition lent_array :: "addr \<Rightarrow> lent_shape list \<Rightarrow> cells" where
  "lent_array arr ys = (if ys = [] then [] else [my_array arr (map fst ys)])"

definition lent_of :: "lent_shape \<Rightarrow> fault" where "lent_of y = snd (snd y)"

lemma my_names_append [simp]: "my_names (xs @ ys) = my_names xs @ my_names ys"
  by (simp add: my_names_def)

lemma my_names_Cons [simp]: "my_names (x # xs) = (fst (snd x), node_name (mn_p (my_of x))) # my_names xs"
  by (simp add: my_names_def my_of_def split_beta)

lemma my_names_cells: "(nm, t) \<in> set (my_names xs) \<Longrightarrow> (nm, Chars t) \<in> set (concat (map my_cells xs))"
  by (force simp: my_names_def my_cells_def)

lemma nth_mynode_owned:
  assumes "owns h cs fr" "my_array base ps \<in> set cs" "i < length ps" "(ps ! i, My_node n k) \<in> set cs"
  shows "nth_mynode base i h = Some (ps ! i, n, k)"
  using owns_at [OF assms(1) assms(2) [unfolded my_array_def]] owns_at [OF assms(1,4)] assms(3)
  by (simp add: nth_mynode_def heap_reads nth_opt_def)

section \<open>Faults\<close>

lemma rm_free_loop_owned:
  assumes "owns h (my_array base (map fst (zs @ ys)) # map lent_cell ys @ rest) fr"
  shows "\<exists>h'. rm_free_loop base (length zs) (length ys) h = Some h' \<and> owns h' (my_array base (map fst (zs @ ys)) # rest) fr"
  using assms
proof (induction ys arbitrary: zs h)
  case (Cons y ys)
  let ?a = "my_array base (map fst (zs @ y # ys))"
  obtain b where y: "lent_cell y = (fst y, b)" by (cases y) (simp add: lent_cell_def)
  have "owns h ((fst y, b) # ?a # map lent_cell ys @ rest) fr" by (rule owns_perm [OF Cons.prems]) (simp add: y)
  from owns_free [OF this] obtain h1 where 1: "c_free (fst y) h = Some h1" "owns h1 (?a # map lent_cell ys @ rest) fr" by blast
  have "pointers_at base h = Some (map (\<lambda>p. (p, 0)) (map fst (zs @ y # ys)))"
    using owns_at [OF Cons.prems, of base "Pointers (map (\<lambda>p. (p, 0)) (map fst (zs @ y # ys)))"]
    by (simp add: my_array_def heap_reads)
  with Cons.IH [of h1 "zs @ [y]"] 1 show ?case by (simp add: nth_opt_def nth_append)
qed simp

lemma rm_free_faults_owned:
  assumes "owns (rm_heap s) (lent_array (rm_faults s) ys @ map lent_cell ys @ rest) fr"
    and "rm_num_fault s = length ys" "ys = [] \<longleftrightarrow> rm_faults s = 0"
  shows "\<exists>h. rm_free_faults s = Some (s\<lparr>rm_heap := h\<rparr>) \<and> owns h rest fr"
proof (cases "ys = []")
  case True
  with assms show ?thesis by (auto simp: rm_free_faults_def lent_array_def intro!: exI [of _ "rm_heap s"])
next
  case False
  with assms(1) have "owns (rm_heap s) (my_array (rm_faults s) (map fst ([] @ ys)) # map lent_cell ys @ rest) fr"
    by (simp add: lent_array_def)
  from rm_free_loop_owned [OF this] obtain h1 where
    1: "rm_free_loop (rm_faults s) 0 (length ys) (rm_heap s) = Some h1" "owns h1 (my_array (rm_faults s) (map fst ys) # rest) fr"
    by auto
  from owns_free [OF 1(2) [unfolded my_array_def]] 1(1) assms(2) show ?thesis by (auto simp: rm_free_faults_def)
qed

lemma rm_add_fault_owned:
  assumes own: "owns h (lent_array arr ys @ map lent_cell ys @ rest) fr" and null: "ys = [] \<longleftrightarrow> arr = 0"
    and f: "fault_id f = cn_id n" "fault_name f = Some ''node-failed''" "fault_severity f = 100"
  shows "\<exists>arr' q h'. rm_add_fault n arr (length ys) h = Some (arr', h') \<and> 0 < arr'
    \<and> owns h' (lent_array arr' (ys @ [(q, cn_name n, f)]) @ map lent_cell (ys @ [(q, cn_name n, f)]) @ rest) fr"
proof -
  let ?ps = "map (\<lambda>y. (fst y, 0)) ys :: cptr list" and ?cs = "map lent_cell ys @ rest"
  obtain arr' h1 where 1: "c_realloc arr (Pointers (?ps @ [(0, 0)])) h = Some (arr', h1)" "0 < arr'"
      "owns h1 ((arr', Pointers (?ps @ [(0, 0)])) # ?cs) fr"
    and old: "(if arr = 0 then Some [] else pointers_at arr h) = Some ?ps"
  proof (cases "ys = []")
    case True
    with own null have "arr = 0" "owns h ?cs fr" by (simp_all add: lent_array_def)
    with owns_alloc_ex [of h ?cs fr "Pointers (?ps @ [(0, 0)])"] True that show thesis by (auto simp: owns_realloc_NULL)
  next
    case False
    with own have own: "owns h ((arr, Pointers ?ps) # ?cs) fr" by (simp add: lent_array_def my_array_def comp_def)
    with owns_realloc [OF own] owns_at [OF own, of arr "Pointers ?ps"] False null that show thesis by (auto simp: heap_reads)
  qed
  obtain q h2 where 2: "c_alloc (Fault_struct zero_fault) h1 = (q, h2)"
    "owns h2 ((q, Fault_struct zero_fault) # (arr', Pointers (?ps @ [(0, 0)])) # ?cs) fr"
    using owns_alloc_ex [OF 1(3)] by blast
  have "owns h2 ((arr', Pointers (?ps @ [(0, 0)])) # (q, Fault_struct zero_fault) # ?cs) fr"
    by (rule owns_perm [OF 2(2)]) simp
  from owns_set_pointer [OF this, of "length ys" "(q, 0)"] obtain h3 where
    3: "set_pointer arr' (length ys) (q, 0) h2 = Some h3"
      "owns h3 ((arr', Pointers (?ps @ [(q, 0)])) # (q, Fault_struct zero_fault) # ?cs) fr" by (auto simp: list_update_append)
  let ?y = "(q, cn_name n, f)"
  have "owns h3 ((q, Fault_struct zero_fault) # (arr', Pointers (?ps @ [(q, 0)])) # ?cs) fr"
    by (rule owns_perm [OF 3(2)]) simp
  from owns_store [OF this, of "snd (lent_cell ?y)"] obtain h4 where 4: "c_store q (snd (lent_cell ?y)) h3 = Some h4"
    "owns h4 ((q, snd (lent_cell ?y)) # (arr', Pointers (?ps @ [(q, 0)])) # ?cs) fr" by blast
  have "owns h4 (lent_array arr' (ys @ [?y]) @ map lent_cell (ys @ [?y]) @ rest) fr"
    by (rule owns_perm [OF 4(2)]) (simp add: lent_array_def my_array_def lent_cell_def comp_def)
  moreover have "rm_add_fault n arr (length ys) h = Some (arr', h4)"
    using old 1(1) 2(1) 3(1) 4(1) f by (simp add: rm_add_fault_def lent_cell_def)
  ultimately show ?thesis using 1(2) by blast
qed

section \<open>A tic\<close>

text \<open>The nodes and the faults of a state, beside which \<open>lk\<close> has been lost.\<close>

definition rm_cells :: "addr \<Rightarrow> lent_shape list \<Rightarrow> addr \<Rightarrow> my_shape list \<Rightarrow> cells \<Rightarrow> cells" where
  "rm_cells arr ys nodes xs lk =
     lent_array arr ys @ map lent_cell ys @ my_array nodes (map fst xs) # concat (map my_cells xs) @ lk"

definition failed :: "my_shape \<Rightarrow> my_shape" where
  "failed x = (case x of (p, nm, m) \<Rightarrow> (p, nm, m\<lparr>mn_healthy := 0\<rparr>))"

lemma failed_simps [simp]:
  "fst (failed x) = fst x" "fst (snd (failed x)) = fst (snd x)" "my_of (failed x) = (my_of x)\<lparr>mn_healthy := 0\<rparr>"
  "c_my_of (failed x) = c_my_of x" "lent_ok ys (zs @ failed x # xs) = lent_ok ys (zs @ x # xs)"
  by (cases x; simp add: failed_def my_of_def c_my_of_def lent_ok_def)+

lemma rm_fail_owned:
  assumes "owns h (rm_cells arr ys nodes (zs @ x # xs) lk) fr"
  shows "nth_mynode nodes (length zs) h = Some (fst x, c_my_of x, mn_healthy (my_of x))"
    "\<exists>h'. c_store (fst x) (My_node (c_my_of x) 0) h = Some h' \<and> owns h' (rm_cells arr ys nodes (zs @ failed x # xs) lk) fr"
proof -
  obtain p nm m where x: "x = (p, nm, m)" by (cases x)
  show "nth_mynode nodes (length zs) h = Some (fst x, c_my_of x, mn_healthy (my_of x))"
    using nth_mynode_owned [OF assms, of nodes "map fst (zs @ x # xs)" "length zs" "c_my_of x" "mn_healthy m"]
    by (simp add: rm_cells_def my_cells_def x my_of_def nth_append)
  let ?rest = "lent_array arr ys @ map lent_cell ys @ my_array nodes (map fst (zs @ x # xs))
     # concat (map my_cells zs) @ (nm, Chars (node_name (mn_p m))) # concat (map my_cells xs) @ lk"
  have "owns h ((p, My_node (c_my_of x) (mn_healthy m)) # ?rest) fr"
    by (rule owns_perm [OF assms]) (simp add: rm_cells_def my_cells_def x)
  from owns_store [OF this, of "My_node (c_my_of x) 0"] obtain h' where
    1: "c_store p (My_node (c_my_of x) 0) h = Some h'" "owns h' ((p, My_node (c_my_of x) 0) # ?rest) fr" by blast
  have "owns h' (rm_cells arr ys nodes (zs @ failed x # xs) lk) fr"
    by (rule owns_perm [OF 1(2)]) (simp add: rm_cells_def my_cells_def x failed_def c_my_of_def)
  with 1(1) show "\<exists>h'. c_store (fst x) (My_node (c_my_of x) 0) h = Some h' \<and> owns h' (rm_cells arr ys nodes (zs @ failed x # xs) lk) fr"
    by (auto simp: x)
qed

lemma rm_lose_owned:
  "owns h (rm_cells arr ys nodes xs lk) fr \<Longrightarrow> owns h (rm_cells 0 [] nodes xs (lent_array arr ys @ map lent_cell ys @ lk)) fr"
  by (erule owns_perm) (simp add: rm_cells_def lent_array_def)

lemma rm_add_owned:
  assumes "owns h (rm_cells arr ys nodes (zs @ failed x # xs) lk) fr" "ys = [] \<longleftrightarrow> arr = 0" "lent_ok ys (zs @ failed x # xs)"
  shows "\<exists>arr' y h'. rm_add_fault (c_my_of x) arr (length ys) h = Some (arr', h') \<and> 0 < arr' \<and> lent_of y = node_failed (my_of x)
    \<and> owns h' (rm_cells arr' (ys @ [y]) nodes (zs @ failed x # xs) lk) fr \<and> lent_ok (ys @ [y]) (zs @ failed x # xs)"
proof -
  let ?f = "node_failed (my_of x)" and ?nm = "cn_name (c_my_of x)"
  obtain arr' q h' where 1: "rm_add_fault (c_my_of x) arr (length ys) h = Some (arr', h')" "0 < arr'"
    "owns h' (rm_cells arr' (ys @ [(q, ?nm, ?f)]) nodes (zs @ failed x # xs) lk) fr"
    using rm_add_fault_owned [OF assms(1) [unfolded rm_cells_def] assms(2), of ?f "c_my_of x"]
    by (cases x) (auto simp: node_failed_def c_my_of_def my_of_def rm_cells_def)
  moreover have "lent_ok (ys @ [(q, ?nm, ?f)]) (zs @ failed x # xs)"
    using assms(3) by (cases x) (auto simp: lent_ok_def node_failed_def c_my_of_def my_of_def failed_def)
  ultimately show ?thesis by (intro exI [of _ arr'] exI [of _ "(q, ?nm, ?f)"] exI [of _ h']) (simp add: lent_of_def)
qed

text \<open>The end of the loop; blocks are lost only when an allocation may fail.\<close>

definition tic_done ::
  "bool \<Rightarrow> addr \<Rightarrow> my_shape list \<Rightarrow> cells \<Rightarrow> (addr \<rightharpoonup> block) \<Rightarrow> mynode list \<times> fault list \<times> 'g
   \<Rightarrow> (addr \<times> nat \<times> 'g \<times> heap) option \<Rightarrow> bool" where
  "tic_done ok nodes zs lk fr = (\<lambda>(ms, fs, g) res. \<exists>arr ys xs lk' h. res = Some (arr, length ys, g, h)
     \<and> owns h (rm_cells arr ys nodes (zs @ xs) lk') fr \<and> (ys = [] \<longleftrightarrow> arr = 0) \<and> lent_ok ys (zs @ xs)
     \<and> map my_of xs = ms \<and> map lent_of ys = fs \<and> (ok \<longrightarrow> lk' = lk))"

lemma tic_done_Cons:
  assumes "tic_done ok nodes (zs @ [x]) lk fr (ms, fs, g) res"
  shows "tic_done ok nodes zs lk fr (my_of x # ms, fs, g) res"
proof -
  from assms obtain arr ys xs lk' h where "res = Some (arr, length ys, g, h)"
    "owns h (rm_cells arr ys nodes (zs @ x # xs) lk') fr" "ys = [] \<longleftrightarrow> arr = 0" "lent_ok ys (zs @ x # xs)"
    "map my_of xs = ms" "map lent_of ys = fs" "ok \<longrightarrow> lk' = lk" unfolding tic_done_def by auto
  then show ?thesis unfolding tic_done_def prod.case
    by (intro exI [of _ arr] exI [of _ ys] exI [of _ "x # xs"] exI [of _ lk'] exI [of _ h]) simp
qed

text \<open>The three ways one node can take: it is passed over, it fails, or its fault finds no memory.\<close>

lemma tic_passed:
  assumes "tic_done ok nodes (zs @ [x]) lk fr (tic_nodes alloc rand ms fs g) res"
  shows "tic_done ok nodes zs lk fr (let (ms', fs', g') = tic_nodes alloc rand ms fs g in (my_of x # ms', fs', g')) res"
proof -
  obtain ms' fs' g' where t: "tic_nodes alloc rand ms fs g = (ms', fs', g')" by (metis prod_cases3)
  show ?thesis using assms unfolding t by (simp add: tic_done_Cons)
qed

lemma tic_lost:
  assumes "owns h (rm_cells arr ys nodes (zs @ failed x # xs) lk) fr" "\<not> ok"
  shows "tic_done ok nodes zs lk fr ((my_of x)\<lparr>mn_healthy := 0\<rparr> # map my_of xs, [], g) (Some (0, 0, g, h))"
proof -
  have "lent_ok [] (zs @ failed x # xs)" by (simp add: lent_ok_def)
  with assms(2) rm_lose_owned [OF assms(1)] show ?thesis
    unfolding tic_done_def prod.case
    by (intro exI [of _ "0 :: addr"] exI [of _ "[] :: lent_shape list"] exI [of _ "failed x # xs"] exI [of _ "lent_array arr ys @ map lent_cell ys @ lk"]
        exI [of _ h]) auto
qed

lemma rm_tic_loop_owned:
  assumes "owns h (rm_cells arr ys nodes (zs @ xs) lk) fr" "ys = [] \<longleftrightarrow> arr = 0" "lent_ok ys (zs @ xs)"
  shows "tic_done (\<forall>g. fst (alloc g)) nodes zs lk fr (tic_nodes alloc rand (map my_of xs) (map lent_of ys) g)
    (rm_tic_loop alloc rand nodes (length zs) (length xs) (arr, length ys, g, h))"
  using assms
proof (induction xs arbitrary: zs arr ys g h)
  case Nil
  then show ?case unfolding tic_done_def by auto
next
  case (Cons x xs)
  let ?ok = "\<forall>g. fst (alloc g)"
  note own = rm_fail_owned [OF Cons.prems(1)]
  obtain r g1 ok g2 where ra: "rand g = (r, g1)" "alloc g1 = (ok, g2)" by fastforce
  have skip: "tic_done ?ok nodes zs lk fr (let (ms, fs, g') = tic_nodes alloc rand (map my_of xs) (map lent_of ys) g0 in (my_of x # ms, fs, g'))
    (rm_tic_loop alloc rand nodes (Suc (length zs)) (length xs) (arr, length ys, g0, h))" for g0
    using tic_passed [OF Cons.IH [of h arr ys "zs @ [x]" g0]] Cons.prems by simp
  consider "mn_healthy (my_of x) = 0" | "mn_healthy (my_of x) \<noteq> 0" "\<not> r < prob"
    | "mn_healthy (my_of x) \<noteq> 0" "r < prob" by blast
  then show ?case
  proof cases
    case 1
    then show ?thesis using skip [of g] own(1) by simp
  next
    case 2
    then show ?thesis using skip [of g1] own(1) ra by simp
  next
    case 3
    obtain h1 where h1: "c_store (fst x) (My_node (c_my_of x) 0) h = Some h1"
      "owns h1 (rm_cells arr ys nodes (zs @ failed x # xs) lk) fr" using own(2) by blast
    show ?thesis
    proof (cases ok)
      case True
      obtain arr1 y h2 where add: "rm_add_fault (c_my_of x) arr (length ys) h1 = Some (arr1, h2)" "0 < arr1"
        "lent_of y = node_failed (my_of x)" "owns h2 (rm_cells arr1 (ys @ [y]) nodes (zs @ failed x # xs) lk) fr"
        "lent_ok (ys @ [y]) (zs @ failed x # xs)"
        using rm_add_owned [OF h1(2)] Cons.prems(2,3) by auto
      from Cons.IH [of h2 arr1 "ys @ [y]" "zs @ [failed x]" g2] add
      have "tic_done ?ok nodes (zs @ [failed x]) lk fr (tic_nodes alloc rand (map my_of xs) (map lent_of ys @ [node_failed (my_of x)]) g2)
        (rm_tic_loop alloc rand nodes (Suc (length zs)) (length xs) (arr1, Suc (length ys), g2, h2))" by simp
      from tic_passed [OF this] show ?thesis using own(1) 3 ra True h1(1) add(1) by (simp add: split_beta Let_def)
    next
      case False
      then have "\<not> ?ok" using ra(2) by (metis fst_conv)
      from tic_lost [OF h1(2) this] show ?thesis using own(1) 3 ra False h1(1) by simp
    qed
  qed
qed

text \<open>The plugin with its nodes \<open>xs\<close> and faults \<open>ys\<close> behaves like the model.\<close>

definition rm_refines :: "'g random_c \<Rightarrow> 'g random \<Rightarrow> cells \<Rightarrow> (addr \<rightharpoonup> block) \<Rightarrow> bool" where
  "rm_refines s r lk fr \<longleftrightarrow> (\<exists>xs ys. owns (rm_heap s) (rm_cells (rm_faults s) ys (rm_nodes s) xs lk) fr
     \<and> rm_num_fault s = length ys \<and> (ys = [] \<longleftrightarrow> rm_faults s = 0) \<and> lent_ok ys xs \<and> rm_num s = int (length xs)
     \<and> rnd_nodes r = map my_of xs \<and> rnd_faults r = map lent_of ys \<and> rm_gen s = rnd_gen r)"

lemma rm_tic_refines:
  assumes "rm_refines s r lk fr"
  shows "\<exists>s' lk'. rm_tic alloc rand s = Some s' \<and> rm_refines s' (random_tic alloc rand r) lk' fr
    \<and> ((\<forall>g. fst (alloc g)) \<longrightarrow> lk' = lk)"
proof -
  obtain xs ys where a: "owns (rm_heap s) (rm_cells (rm_faults s) ys (rm_nodes s) xs lk) fr"
    "rm_num_fault s = length ys" "ys = [] \<longleftrightarrow> rm_faults s = 0" "lent_ok ys xs" "rm_num s = int (length xs)"
    "rnd_nodes r = map my_of xs" "rnd_faults r = map lent_of ys" "rm_gen s = rnd_gen r"
    using assms by (auto simp: rm_refines_def)
  obtain h where 1: "rm_free_faults s = Some (s\<lparr>rm_heap := h\<rparr>)"
    "owns h (my_array (rm_nodes s) (map fst xs) # concat (map my_cells xs) @ lk) fr"
    using rm_free_faults_owned [OF a(1) [unfolded rm_cells_def] a(2,3)] by blast
  then have "owns h (rm_cells 0 [] (rm_nodes s) ([] @ xs) lk) fr" by (simp add: rm_cells_def lent_array_def)
  from rm_tic_loop_owned [OF this, of alloc rand "rm_gen s"]
  have "tic_done (\<forall>g. fst (alloc g)) (rm_nodes s) [] lk fr (tic_nodes alloc rand (rnd_nodes r) [] (rnd_gen r))
    (rm_tic_loop alloc rand (rm_nodes s) 0 (nat (rm_num s)) (0, 0, rm_gen s, h))"
    using a by (simp add: lent_ok_def)
  then obtain ms fs g arr' ys' xs' lk' h' where t: "tic_nodes alloc rand (rnd_nodes r) [] (rnd_gen r) = (ms, fs, g)"
    "rm_tic_loop alloc rand (rm_nodes s) 0 (nat (rm_num s)) (0, 0, rm_gen s, h) = Some (arr', length ys', g, h')"
    "owns h' (rm_cells arr' ys' (rm_nodes s) xs' lk') fr" "ys' = [] \<longleftrightarrow> arr' = 0" "lent_ok ys' xs'"
    "map my_of xs' = ms" "map lent_of ys' = fs" "(\<forall>g. fst (alloc g)) \<longrightarrow> lk' = lk"
    unfolding tic_done_def append_Nil by (cases "tic_nodes alloc rand (rnd_nodes r) [] (rnd_gen r)") (simp only: prod.case, blast)
  have len: "length xs' = length xs"
    using tic_nodes_names(2) [of alloc rand "rnd_nodes r" "[]" "rnd_gen r"] t(1,6) a(6) by (metis length_map fst_conv)
  let ?s = "s\<lparr>rm_faults := arr', rm_num_fault := length ys', rm_gen := g, rm_heap := h'\<rparr>"
  have "rm_tic alloc rand s = Some ?s" using 1(1) t(2) by (simp add: rm_tic_def)
  moreover have "rm_refines ?s (random_tic alloc rand r) lk' fr"
    unfolding rm_refines_def using t len a(5) by (intro exI [of _ xs'] exI [of _ ys']) (simp add: random_tic_def)
  ultimately show ?thesis using t(8) by blast
qed

section \<open>Reading the faults\<close>

lemma rm_read_fault:
  assumes "owns h (rm_cells arr ys nodes xs lk) fr" "lent_ok ys xs" "i < length ys"
  shows "read_fault arr i h = Some (lent_of (ys ! i))"
proof -
  obtain q nm f where y: "ys ! i = (q, nm, f)" by (cases "ys ! i")
  have mem: "(q, nm, f) \<in> set ys" using nth_mem [OF assms(3)] y by simp
  then have f: "fault_component f = None" "(nm, Chars (fault_node f)) \<in> set (concat (map my_cells xs))"
    using assms(2) my_names_cells by (auto simp: lent_ok_def)
  have cell: "lent_cell (q, nm, f) \<in> set (rm_cells arr ys nodes xs lk)" using mem by (force simp: rm_cells_def)
  have "ys \<noteq> []" using assms(3) by auto
  then have arr: "(arr, Pointers (map (\<lambda>y. (fst y, 0)) ys)) \<in> set (rm_cells arr ys nodes xs lk)"
    by (simp add: rm_cells_def lent_array_def my_array_def comp_def)
  have "nth_fault arr i h = Some (q, \<lparr>cf_id = fault_id f, cf_name = fault_name f, cf_component = 0, cf_node = nm,
      cf_severity = fault_severity f\<rparr>)"
    using nth_fault_owned [OF assms(1) arr, of i] cell assms(3) y by (simp add: lent_cell_def)
  moreover have "chars_at nm h = Some (fault_node f)"
    using owns_at [OF assms(1), of nm "Chars (fault_node f)"] f(2) by (simp add: heap_reads rm_cells_def)
  ultimately show ?thesis using f(1) y by (simp add: read_fault_def lent_of_def)
qed

lemma those_map_eq: "(\<And>x. x \<in> set xs \<Longrightarrow> f x = Some (g x)) \<Longrightarrow> those (map f xs) = Some (map g xs)"
  by (induction xs) auto

lemma rm_read_faults:
  assumes "rm_refines s r lk fr"
  shows "those (map (\<lambda>i. read_fault (rm_faults s) i (rm_heap s)) [0..<rm_num_fault s]) = Some (rnd_faults r)"
proof -
  obtain xs ys where a: "owns (rm_heap s) (rm_cells (rm_faults s) ys (rm_nodes s) xs lk) fr"
    "rm_num_fault s = length ys" "lent_ok ys xs" "rnd_faults r = map lent_of ys"
    using assms by (auto simp: rm_refines_def)
  have "those (map (\<lambda>i. read_fault (rm_faults s) i (rm_heap s)) [0..<rm_num_fault s])
    = Some (map (\<lambda>i. lent_of (ys ! i)) [0..<length ys])"
    unfolding a(2) by (rule those_map_eq) (simp add: rm_read_fault [OF a(1,3)])
  also have "map (\<lambda>i. lent_of (ys ! i)) [0..<length ys] = map lent_of ys"
    by (rule nth_equalityI) simp_all
  finally show ?thesis using a(4) by simp
qed

lemma rm_tics_refine:
  assumes "rm_refines s r lk fr" "fm_run (random_fm alloc rand) n r = (fss, r')"
  shows "\<exists>s' lk'. rm_tics alloc rand n s = Some (fss, s') \<and> rm_refines s' r' lk' fr \<and> ((\<forall>g. fst (alloc g)) \<longrightarrow> lk' = lk)"
  using assms
proof (induction n arbitrary: s r lk fss)
  case (Suc n)
  let ?r = "random_tic alloc rand r"
  obtain s1 lk1 where 1: "rm_tic alloc rand s = Some s1" "rm_refines s1 ?r lk1 fr" "(\<forall>g. fst (alloc g)) \<longrightarrow> lk1 = lk"
    using rm_tic_refines [OF Suc.prems(1)] by blast
  obtain fss1 where fss: "fss = rnd_faults ?r # fss1" "fm_run (random_fm alloc rand) n ?r = (fss1, r')"
    using Suc.prems(2) by (auto simp: fm_step_def random_get_fail_def split: prod.splits)
  from Suc.IH [OF 1(2) fss(2)] obtain s2 lk2 where
    "rm_tics alloc rand n s1 = Some (fss1, s2)" "rm_refines s2 r' lk2 fr" "(\<forall>g. fst (alloc g)) \<longrightarrow> lk2 = lk1" by blast
  with 1 fss(1) rm_read_faults [OF 1(2)] show ?case
    by (intro exI [of _ s2] exI [of _ lk2]) (simp add: rm_get_fail_def)
qed auto

section \<open>Beginning and end\<close>

text \<open>One node of the loop in \<open>init\<close>.\<close>

lemma rm_new_node_owned:
  assumes "owns h (my_array nodes (map fst xs @ replicate (Suc k) 0) # rest) fr"
  shows "\<exists>p nm h1 h2 h3 h4 h5. c_alloc (My_node zero_node 0) h = (p, h1)
    \<and> set_pointer nodes (length xs) (p, 0) h1 = Some h2 \<and> c_alloc (Chars []) h2 = (nm, h3)
    \<and> c_store nm (Chars (snprintf 64 (''node'' @ show_nat (length xs)))) h3 = Some h4
    \<and> c_store p (My_node (zero_node\<lparr>cn_name := nm, cn_type := uniform_node, cn_num_components := 0, cn_components := 0\<rparr>) 1) h4 = Some h5
    \<and> owns h5 (my_array nodes (map fst (xs @ [(p, nm, new_node (length xs))]) @ replicate k 0)
         # my_cells (p, nm, new_node (length xs)) @ rest) fr"
proof -
  let ?ps = "map (\<lambda>p. (p, 0)) (map fst xs @ replicate (Suc k) 0) :: cptr list" and ?z = "My_node zero_node 0"
  obtain p h1 where 1: "c_alloc ?z h = (p, h1)" "owns h1 ((p, ?z) # my_array nodes (map fst xs @ replicate (Suc k) 0) # rest) fr"
    using owns_alloc_ex [OF assms] by blast
  have "owns h1 ((nodes, Pointers ?ps) # (p, ?z) # rest) fr" by (rule owns_perm [OF 1(2)]) (simp add: my_array_def)
  from owns_set_pointer [OF this, of "length xs" "(p, 0)"] obtain h2 where 2: "set_pointer nodes (length xs) (p, 0) h1 = Some h2"
    "owns h2 (my_array nodes (map fst xs @ p # replicate k 0) # (p, ?z) # rest) fr"
    by (auto simp: my_array_def list_update_append)
  obtain nm h3 where 3: "c_alloc (Chars []) h2 = (nm, h3)"
    "owns h3 ((nm, Chars []) # my_array nodes (map fst xs @ p # replicate k 0) # (p, ?z) # rest) fr"
    using owns_alloc_ex [OF 2(2)] by blast
  let ?name = "Chars (snprintf 64 (''node'' @ show_nat (length xs)))"
  obtain h4 where 4: "c_store nm ?name h3 = Some h4"
    "owns h4 ((nm, ?name) # my_array nodes (map fst xs @ p # replicate k 0) # (p, ?z) # rest) fr"
    using owns_store [OF 3(2)] by blast
  let ?n = "My_node (zero_node\<lparr>cn_name := nm, cn_type := uniform_node, cn_num_components := 0, cn_components := 0\<rparr>) 1"
  have "owns h4 ((p, ?z) # (nm, ?name) # my_array nodes (map fst xs @ p # replicate k 0) # rest) fr"
    by (rule owns_perm [OF 4(2)]) simp
  from owns_store [OF this, of ?n] obtain h5 where 5: "c_store p ?n h4 = Some h5"
    "owns h5 ((p, ?n) # (nm, ?name) # my_array nodes (map fst xs @ p # replicate k 0) # rest) fr" by blast
  have "owns h5 (my_array nodes (map fst (xs @ [(p, nm, new_node (length xs))]) @ replicate k 0)
      # my_cells (p, nm, new_node (length xs)) @ rest) fr"
    by (rule owns_perm [OF 5(2)]) (simp add: my_cells_def c_my_of_def new_node_def zero_node_def)
  with 1(1) 2(1) 3(1) 4(1) 5(1) show ?thesis by blast
qed

lemma rm_new_nodes_owned:
  assumes "owns h (my_array nodes (map fst xs @ replicate k 0) # concat (map my_cells xs)) fr"
    and "new_nodes alloc k (length xs) g = (ok, ms, g')"
  shows "\<exists>h'. rm_new_nodes alloc nodes k (length xs) g h = Some (ok, g', h')
    \<and> (ok \<longrightarrow> (\<exists>xs'. owns h' (my_array nodes (map fst (xs @ xs')) # concat (map my_cells (xs @ xs'))) fr \<and> map my_of xs' = ms))"
  using assms
proof (induction k arbitrary: xs g h ms)
  case 0
  then show ?case by (auto intro!: exI [of _ "[]"])
next
  case (Suc k)
  obtain ok1 g1 ok2 g2 where al: "alloc g = (ok1, g1)" "alloc g1 = (ok2, g2)" by fastforce
  obtain p nm h1 h2 h3 h4 h5 where n: "c_alloc (My_node zero_node 0) h = (p, h1)"
    "set_pointer nodes (length xs) (p, 0) h1 = Some h2" "c_alloc (Chars []) h2 = (nm, h3)"
    "c_store nm (Chars (snprintf 64 (''node'' @ show_nat (length xs)))) h3 = Some h4"
    "c_store p (My_node (zero_node\<lparr>cn_name := nm, cn_type := uniform_node, cn_num_components := 0, cn_components := 0\<rparr>) 1) h4 = Some h5"
    "owns h5 (my_array nodes (map fst (xs @ [(p, nm, new_node (length xs))]) @ replicate k 0)
       # my_cells (p, nm, new_node (length xs)) @ concat (map my_cells xs)) fr"
    using rm_new_node_owned [OF Suc.prems(1)] by blast
  let ?x = "(p, nm, new_node (length xs))"
  consider "\<not> ok1" | "ok1" "\<not> ok2" | "ok1" "ok2" by blast
  then show ?case
  proof cases
    case 1
    have "owns h ((nodes, Pointers (map (\<lambda>p. (p, 0)) (map fst xs @ replicate (Suc k) 0))) # concat (map my_cells xs)) fr"
      using Suc.prems(1) by (simp add: my_array_def)
    from owns_set_pointer [OF this, of "length xs" "(0, 0)"] 1 al Suc.prems(2) show ?thesis by auto
  next
    case 2
    with al Suc.prems(2) n(1,2) show ?thesis by simp
  next
    case 3
    then obtain ms1 where ms1: "new_nodes alloc k (length (xs @ [?x])) g2 = (ok, ms1, g')" "ms = new_node (length xs) # ms1"
      using Suc.prems(2) al by (auto split: prod.splits)
    have "owns h5 (my_array nodes (map fst (xs @ [?x]) @ replicate k 0) # concat (map my_cells (xs @ [?x]))) fr"
      by (rule owns_perm [OF n(6)]) simp
    from Suc.IH [OF this ms1(1)] obtain h' where 4: "rm_new_nodes alloc nodes k (Suc (length xs)) g2 h5 = Some (ok, g', h')"
      "ok \<longrightarrow> (\<exists>xs'. owns h' (my_array nodes (map fst ((xs @ [?x]) @ xs')) # concat (map my_cells ((xs @ [?x]) @ xs'))) fr \<and> map my_of xs' = ms1)"
      by auto
    have "\<exists>xs'. owns h' (my_array nodes (map fst (xs @ xs')) # concat (map my_cells (xs @ xs'))) fr \<and> map my_of xs' = ms" if made: ok
    proof -
      obtain xs' where "owns h' (my_array nodes (map fst (xs @ ?x # xs')) # concat (map my_cells (xs @ ?x # xs'))) fr"
        "map my_of xs' = ms1" using 4(2) made by auto
      then show ?thesis using ms1(2) by (intro exI [of _ "?x # xs'"]) (simp add: my_of_def)
    qed
    with 3 al n(1-5) 4(1) show ?thesis by simp
  qed
qed

lemma rm_log_args_heap [simp]:
  "rm_heap (rm_log_args n as s) = rm_heap s" "rm_gen (rm_log_args n as s) = rm_gen s"
  "rm_faults (rm_log_args n as s) = rm_faults s" "rm_num_fault (rm_log_args n as s) = rm_num_fault s"
  by (induction as arbitrary: n s) (simp_all add: rm_logf_def)

lemma rnd_log_args_gen [simp]: "rnd_gen (rnd_log_args n as s) = rnd_gen s" "rnd_faults (rnd_log_args n as s) = rnd_faults s"
  by (induction as arbitrary: n s) (simp_all add: rnd_logf_def)

lemma rm_init_refines:
  assumes "heap_ok h" "random_init alloc version argv (random_load g) = (ret, r, reg)"
  shows "\<exists>s. rm_init alloc version argv (rm_load g h) = Some (ret, s) \<and> (ret = 0 \<longrightarrow> rm_refines s r [] (hp_mem h))"
proof (cases "version = 7 \<and> argv \<noteq> []")
  case False
  then show ?thesis using assms(2)
    by (auto simp: random_init_def rm_init_def Let_def split: list.splits if_splits)
next
  case True
  then obtain arg args where argv: "argv = arg # args" "version = 7" by (cases argv) auto
  let ?num = "sint (word_of_int (strtol_val 0 arg) :: u32)"
  show ?thesis
  proof (cases "?num < 0")
    case True
    with assms(2) argv show ?thesis by (auto simp: random_init_def rm_init_def Let_def)
  next
    case False
    obtain nodes h1 where 1: "c_alloc (Pointers (replicate (nat ?num) (0, 0))) h = (nodes, h1)"
      "owns h1 [(nodes, Pointers (replicate (nat ?num) (0, 0)))] (hp_mem h)"
      using owns_alloc_ex [of h "[]" "hp_mem h" "Pointers (replicate (nat ?num) (0, 0))"] assms(1) by (auto simp: owns_nil)
    obtain ok ms g' where nn: "new_nodes alloc (nat ?num) 0 g = (ok, ms, g')" by (metis prod_cases3)
    have "owns h1 (my_array nodes (map fst [] @ replicate (nat ?num) 0) # concat (map my_cells [])) (hp_mem h)"
      using 1(2) by (simp add: my_array_def)
    from rm_new_nodes_owned [OF this, of alloc g ok ms g'] nn obtain h' where
      2: "rm_new_nodes alloc nodes (nat ?num) 0 g h1 = Some (ok, g', h')"
      "ok \<longrightarrow> (\<exists>xs. owns h' (my_array nodes (map fst xs) # concat (map my_cells xs)) (hp_mem h) \<and> map my_of xs = ms)"
      by auto
    have ret: "ret = (if ok then 0 else - 1)" "rnd_nodes r = ms" "rnd_gen r = g'" "rnd_faults r = []"
      using assms(2) argv False nn by (auto simp: random_init_def random_load_def rnd_logf_def Let_def split: if_splits)
    obtain s where s: "rm_init alloc version argv (rm_load g h) = Some (ret, s)" "rm_nodes s = nodes" "rm_heap s = h'"
      "rm_gen s = g'" "rm_num s = ?num" "rm_faults s = 0" "rm_num_fault s = 0"
      using argv False 1(1) 2(1) ret(1) by (simp add: rm_init_def rm_load_def rm_logf_def Let_def)
    have "rm_refines s r [] (hp_mem h)" if made: ok
    proof -
      obtain xs where xs: "owns h' (my_array nodes (map fst xs) # concat (map my_cells xs)) (hp_mem h)" "map my_of xs = ms"
        using 2(2) made by blast
      have "length ms = nat ?num" using new_nodes_ok nn made by fastforce
      then have "?num = int (length xs)" using xs(2) False by auto
      with xs s ret show ?thesis
        unfolding rm_refines_def by (intro exI [of _ xs] exI [of _ "[] :: lent_shape list"]) (simp add: rm_cells_def lent_array_def lent_ok_def)
    qed
    with s(1) ret(1) show ?thesis by (auto split: if_splits)
  qed
qed

lemma rm_cleanup_loop_owned:
  assumes "owns h (my_array base (map fst (zs @ xs)) # concat (map my_cells xs) @ rest) fr"
  shows "\<exists>h'. rm_cleanup_loop base (length zs) (length xs) h = Some h' \<and> owns h' (my_array base (map fst (zs @ xs)) # rest) fr"
  using assms
proof (induction xs arbitrary: zs h)
  case (Cons x xs)
  obtain p nm m where x: "x = (p, nm, m)" by (cases x)
  let ?a = "my_array base (map fst (zs @ x # xs))" and ?n = "(p, My_node (c_my_of x) (mn_healthy m))"
  let ?cs = "concat (map my_cells xs) @ rest"
  have "my_cells x = [?n, (nm, Chars (node_name (mn_p m)))]" by (simp add: my_cells_def x)
  then have own: "owns h ((nm, Chars (node_name (mn_p m))) # ?n # ?a # ?cs) fr"
    by (intro owns_perm [OF Cons.prems]) simp
  obtain h1 where 1: "c_free nm h = Some h1" "owns h1 (?n # ?a # ?cs) fr" using owns_free [OF own] by blast
  obtain h2 where 2: "c_free p h1 = Some h2" "owns h2 (?a # ?cs) fr" using owns_free [OF 1(2)] by blast
  have nth: "nth_mynode base (length zs) h' = Some (p, c_my_of x, mn_healthy m)" if "owns h' cs fr" "?a \<in> set cs" "?n \<in> set cs" for h' cs
    using nth_mynode_owned [OF that(1,2), of "length zs" "c_my_of x" "mn_healthy m"] that(3) by (simp add: nth_append x)
  have "nth_mynode base (length zs) h = Some (p, c_my_of x, mn_healthy m)" "nth_mynode base (length zs) h1 = Some (p, c_my_of x, mn_healthy m)"
    using nth [OF own] nth [OF 1(2)] by simp_all
  moreover have "cn_name (c_my_of x) = nm" by (simp add: x c_my_of_def)
  ultimately show ?case using Cons.IH [of h2 "zs @ [x]"] 1(1) 2 by simp
qed simp

lemma rm_cleanup_owned:
  assumes "rm_refines s r lk fr"
  shows "\<exists>s'. rm_cleanup s = Some s' \<and> owns (rm_heap s') lk fr"
proof -
  obtain xs ys where a: "owns (rm_heap s) (rm_cells (rm_faults s) ys (rm_nodes s) xs lk) fr"
    "rm_num_fault s = length ys" "ys = [] \<longleftrightarrow> rm_faults s = 0" "rm_num s = int (length xs)"
    using assms by (auto simp: rm_refines_def)
  obtain h where 1: "rm_free_faults s = Some (s\<lparr>rm_heap := h\<rparr>)"
    "owns h (my_array (rm_nodes s) (map fst ([] @ xs)) # concat (map my_cells xs) @ lk) fr"
    using rm_free_faults_owned [OF a(1) [unfolded rm_cells_def] a(2,3)] by auto
  obtain h1 where 2: "rm_cleanup_loop (rm_nodes s) 0 (length xs) h = Some h1" "owns h1 (my_array (rm_nodes s) (map fst xs) # lk) fr"
    using rm_cleanup_loop_owned [OF 1(2)] by auto
  from owns_free [OF 2(2) [unfolded my_array_def]] 1(1) 2(1) a(4) show ?thesis by (auto simp: rm_cleanup_def)
qed

section \<open>The whole life of the plugin\<close>

lemma random_session_refines:
  assumes "heap_ok h" "random_init alloc version argv (random_load g) = (ret, r, reg)"
  shows "if ret \<noteq> 0 then rm_session alloc rand version argv n g h = Some (Inl ret)
    else \<exists>h'. rm_session alloc rand version argv n g h = Some (Inr (fst (fm_run (random_fm alloc rand) n r), h'))
      \<and> hp_mem h \<subseteq>\<^sub>m hp_mem h' \<and> ((\<forall>g. fst (alloc g)) \<longrightarrow> hp_mem h' = hp_mem h)"
proof -
  obtain s where 1: "rm_init alloc version argv (rm_load g h) = Some (ret, s)" "ret = 0 \<longrightarrow> rm_refines s r [] (hp_mem h)"
    using rm_init_refines [OF assms] by blast
  show ?thesis
  proof (cases "ret = 0")
    case True
    obtain fss r' where run: "fm_run (random_fm alloc rand) n r = (fss, r')" by fastforce
    obtain s1 lk where 2: "rm_tics alloc rand n s = Some (fss, s1)" "rm_refines s1 r' lk (hp_mem h)" "(\<forall>g. fst (alloc g)) \<longrightarrow> lk = []"
      using rm_tics_refine [OF _ run, of s "[]" "hp_mem h"] 1(2) True by blast
    obtain s2 where 3: "rm_cleanup s1 = Some s2" "owns (rm_heap s2) lk (hp_mem h)" using rm_cleanup_owned [OF 2(2)] by blast
    have "(\<forall>g. fst (alloc g)) \<longrightarrow> hp_mem (rm_heap s2) = hp_mem h" using 2(3) 3(2) by (auto simp: owns_nil)
    with True 1(1) 2(1) 3 run owns_dom(1) [OF 3(2)] show ?thesis by (simp add: rm_session_def)
  qed (use 1(1) in \<open>simp add: rm_session_def\<close>)
qed

end
