(* ===== verification/Samples.thy ===== *)
theory Samples
  imports Shipped_Plugins Interleaving End_To_End Lifecycle Replay_Lines Config_Text Message_Order Random_Memory
begin

text \<open>
  Small concrete systems: a server around given plugins, a random manager with one node, a broker.
  The instances of the properties are evaluated on them.
\<close>

definition sample_random :: "unit random" where
  "sample_random = \<lparr>rnd_num = 1, rnd_nodes = [new_node 0], rnd_faults = [], rnd_gen = (), rnd_log = [], rnd_out = []\<rparr>"

text \<open>A random manager with memory, whose nodes all fail in the first tic.\<close>

abbreviation sample_alloc :: "unit alloc" where "sample_alloc \<equiv> \<lambda>g. (True, g)"
abbreviation sample_fm :: "unit random fault_manager" where "sample_fm \<equiv> random_fm sample_alloc (\<lambda>g. (0, g))"

abbreviation sample_fault :: fault where "sample_fault \<equiv> node_failed (new_node 0)"

lemma sample_name: "node_name (mn_p (new_node 0)) = ''node0''"
  using new_node_name [of 0] by (simp add: mn_name_def show_nat_def show_base.simps)

lemma sample_run: "\<exists>m'. fm_run sample_fm 1 sample_random = ([[sample_fault]], m')"
  by (simp add: fm_step_def random_get_fail_def random_tic_def sample_random_def prob_def RAND_MAX_def new_node_def)

lemma sample_fault_data: "fault_data sample_fault = (''node0'', None, 100)"
  by (simp add: fault_data_def node_failed_def sample_name)

definition sample_env :: replay_env where
  "sample_env = \<lparr>env_junk = (\<lambda>_. 0), env_calloc = (\<lambda>_. True)\<rparr>"

lemma sample_env_memory: "enough_memory sample_env"
  by (simp add: enough_memory_def sample_env_def)

definition sample_world :: "'m \<Rightarrow> 'c \<Rightarrow> ('m \<times> 'c) world" where
  "sample_world m c = \<lparr>w_pm = new_pm, w_plug = (m, c)\<rparr>"

definition sample_server :: "'m fault_manager \<Rightarrow> 'c com \<Rightarrow> node list \<Rightarrow> u64 \<Rightarrow> ('m \<times> 'c) world server" where
  "sample_server fm com ns len =
     \<lparr>sv_tic = 0, sv_nodes = ns, sv_manager = world_manager fm, sv_com_actor = world_com com,
      sv_com_notify = world_com com, sv_other_cb = None, sv_forwarded = [], sv_tic_length = len,
      sv_duration = sint len, sv_timestamp = 0, sv_clock = 0\<rparr>"

definition sample_route :: "string \<Rightarrow> string \<Rightarrow> bool" where
  "sample_route f t \<longleftrightarrow> (\<exists>p. f = p @ ''/#'' \<and> (t = p \<or> (\<exists>r. t = p @ ''/'' @ r)))"

lemma sample_server_wired: "wired fm com com (sample_server fm com ns len)"
  by (simp add: wired_def sample_server_def)

lemma sample_route_wildcard: "mqtt_wildcard sample_route"
  by (simp add: mqtt_wildcard_def sample_route_def)

lemma one_batch:
  assumes "array_fits usable (length ms)"
  shows "runs_batches (\<lambda>i. if i = 0 then (0, ms) else (0, [])) usable 0 [ms]"
  using assms by (cases "ms = []") (auto intro!: exI [of _ "if ms = [] then 0 else Suc 0"])

lemma sample_server_timed: "well_timed (sample_server fm com ns 0)" "well_timed (sample_server fm com ns 7)"
  by (simp_all add: well_timed_def sample_server_def)

definition sample_echo :: echo where
  "sample_echo = \<lparr>ec_out = [], ec_log = []\<rparr>"

lemma random_init_load:
  assumes "random_init alloc version argv (random_load g) = (0, s, ok)"
  shows "random_inv s" "healthy_names (rnd_nodes s) = map mn_name (rnd_nodes s)"
    "distinct (healthy_names (rnd_nodes s))"
proof -
  show inv: "random_inv s" using random_init_inv [OF assms] by (simp add: random_load_def)
  have "rnd_nodes s = map new_node [0..<nat (rnd_num s)]"
    using random_init_nodes [OF assms] by blast
  then have "filter (\<lambda>m. mn_healthy m \<noteq> 0) (rnd_nodes s) = rnd_nodes s"
    by (auto simp: filter_id_conv new_node_def)
  then show h: "healthy_names (rnd_nodes s) = map mn_name (rnd_nodes s)" by (simp add: healthy_names_def)
  show "distinct (healthy_names (rnd_nodes s))" unfolding h by (rule random_inv_distinct [OF inv])
qed

text \<open>Nodes with given names and states.\<close>

definition sample_node :: "string \<Rightarrow> u32 \<Rightarrow> node" where
  "sample_node name st = \<lparr>node_name = name, node_id = 0, node_type = uniform_node, node_state = st, components = []\<rparr>"

text \<open>A parser that reads the name of a node from a message and takes it as ready.\<close>

definition sample_parse :: "string \<Rightarrow> backchannel option" where
  "sample_parse msg = (if msg = [] then None else Some (ready_message msg))"

text \<open>Three plugins: the recorder at address 1, the replay plugin at 2 and an echo plugin at 3.\<close>

definition sample_heap :: "'w pheap" where
  "sample_heap p =
     \<lparr>pl_version = 1, pl_type = (if p = 1 then 36 else if p = 2 then 4 else 3),
      pl_name = (if p = 1 then ''transcribe'' else if p = 2 then ''replay'' else replicate p (CHR ''e'')),
      pl_post_init = None, pl_cleanup = None, pl_c = None,
      pl_fm = (if p = 2 then Some \<lparr>fm_version = 1, fm_get_nodes = (\<lambda>w. (Nodes [], w)), fm_tic = (\<lambda>w. w),
                 fm_get_fail = (\<lambda>w. ([], w)), fm_inject_fail = (\<lambda>_ w. (0, w))\<rparr> else None), pl_lf = False\<rparr>"

text \<open>One plugin for all roles of the server.\<close>

definition sample_server_heap :: "(unit \<times> unit) world pheap" where
  "sample_server_heap p =
     \<lparr>pl_version = 1, pl_type = 7, pl_name = ''all'', pl_post_init = None, pl_cleanup = None,
      pl_c = Some \<lparr>com_capabilities = 0, com_notify_fail = (\<lambda>_ _ _ w. (0, w)), com_notify_extern = (\<lambda>_ w. (0, w)),
                   com_set_mode = None, com_set_callback = None, com_get_msg = None\<rparr>,
      pl_fm = Some \<lparr>fm_version = 1, fm_get_nodes = (\<lambda>w. (Nodes [], w)), fm_tic = (\<lambda>w. w),
                    fm_get_fail = (\<lambda>w. ([], w)), fm_inject_fail = (\<lambda>_ w. (0, w))\<rparr>, pl_lf = False\<rparr>"

definition sample_config :: config where
  "sample_config = \<lparr>cf_com_actor = Some 1, cf_com_notify = Some 1, cf_fault_manager = Some 1, cf_logger = None,
                    cf_tic_length = 100, cf_is_loaded = True\<rparr>"

definition sample_config_text :: string where
  "sample_config_text = ''[library]'' @ [newline] @ ''libreplay.so f'' @ [newline] @ ''[config]'' @ [newline]
     @ ''fault = replay'' @ [newline]"

text \<open>A configuration with the random and the echo plugin.\<close>

definition re_config_text :: string where
  "re_config_text = ''[lib]'' @ [newline] @ ''librandom.so 1'' @ [newline] @ ''libecho.so'' @ [newline]
     @ ''[config]'' @ [newline] @ ''fault = random'' @ [newline] @ ''com = echo'' @ [newline]"

abbreviation re_world :: "(unit random \<times> echo) world" where
  "re_world \<equiv> \<lparr>w_pm = new_pm, w_plug = (random_load (), sample_echo)\<rparr>"

section \<open>Operations of the plugin manager as a sequence\<close>

datatype pm_op = Register ptr | Set_role "ptr option" u64 | Add_role "ptr option" u64

text \<open>An operation that throws ends the sequence.\<close>

fun pm_step :: "'w pheap \<Rightarrow> pm_op \<Rightarrow> pm \<Rightarrow> exn + pm" where
  "pm_step h (Register p) s = Inr (snd (register_plugin h p s))"
| "pm_step h (Set_role pl r) s = map_sum id snd (set_role h pl r s)"
| "pm_step h (Add_role pl r) s = map_sum id snd (add_role h pl r s)"

fun pm_ops :: "'w pheap \<Rightarrow> pm_op list \<Rightarrow> pm \<Rightarrow> exn + pm" where
  "pm_ops h [] s = Inr s"
| "pm_ops h (x # xs) s = (case pm_step h x s of Inl e \<Rightarrow> Inl e | Inr s' \<Rightarrow> pm_ops h xs s')"

lemma pm_step_inv: "pm_inv h s \<Longrightarrow> pm_step h x s = Inr s' \<Longrightarrow> pm_inv h s'"
  by (cases x) (auto simp: register_plugin_keeps map_sum_def split: sum.splits intro: set_role_inv add_role_inv)

lemma pm_ops_inv: "pm_inv h s \<Longrightarrow> pm_ops h xs s = Inr s' \<Longrightarrow> pm_inv h s'"
  by (induction xs arbitrary: s) (auto split: sum.splits dest: pm_step_inv)

section \<open>Memory, threads and plugins\<close>

definition sample_file_env :: file_env where
  "sample_file_env = \<lparr>fe_junk = (\<lambda>_. 0), fe_calloc = (\<lambda>_. True)\<rparr>"

definition sample_recording :: string where
  "sample_recording = recording [mn_p (new_node 0)] [[sample_fault], []]"

definition sample_memory :: heap where
  "sample_memory = \<lparr>hp_mem = (\<lambda>a. if a = 1 then Some (Chars ''x'') else None), hp_next = 2\<rparr>"

lemma sample_memory_ok: "heap_ok sample_memory"
  by (auto simp: heap_ok_def sample_memory_def split: if_splits)

lemma sample_recording_nodes:
  "\<exists>r. replay_get_nodes (file_env sample_file_env) (replay_start sample_recording) = (Nodes (replayed_nodes 0 [mn_p (new_node 0)]), r)"
proof -
  have "recordable_nodes [mn_p (new_node 0)]"
    using random_recordable_nodes [of sample_random] by (simp add: random_inv_def sample_random_def)
  moreover have "enough_memory (file_env sample_file_env)" by (simp add: enough_memory_def sample_file_env_def)
  ultimately show ?thesis unfolding sample_recording_def using replay_get_nodes_recording by metis
qed

definition sample_connected :: mosq where
  "sample_connected = mosq_load\<lparr>mq_is_init := True, mq_callback := Some 1\<rparr>"

definition sample_filelog :: file_log where
  "sample_filelog = \<lparr>fl_lvl = LL_Debug, fl_file = []\<rparr>"

text \<open>A plugin manager with one plugin.\<close>

definition sample_plugin_world :: "(unit \<times> unit) world" where
  "sample_plugin_world = \<lparr>w_pm = new_pm\<lparr>pm_plugins := [(1, 0)]\<rparr>, w_plug = ((), ())\<rparr>"

lemma sample_plugin_ok:
  "pm_inv sample_server_heap (w_pm sample_plugin_world)"
  "config_inv sample_server_heap sample_config (registered (w_pm sample_plugin_world))" "names_ok sample_server_heap sample_config"
  by (simp_all add: sample_plugin_world_def pm_inv_def new_pm_def config_inv_def capable_def sample_config_def registered_def
      sample_server_heap_def HAS_PL_TYPE_def names_ok_def token_ok_def isspace_def)

lemma two_threads: "threads_start 2 = \<lparr>td_pre = preload_load, td_open = (\<lambda>_. None), td_pc = [Outside, Outside]\<rparr>"
  by (simp add: threads_start_def numeral_2_eq_2)

section \<open>A node\<close>

text \<open>A recording in which the network of node \<open>n\<close> fails, after a memory fault, and a connected client.\<close>

definition sample_net_text :: string where
  "sample_net_text = ''1'' @ [newline] @ ''n,1,net'' @ [newline] @ tic_line 0 @ ''n,memory,1'' @ [newline] @ ''n,net,7'' @ [newline]
     @ ''m,net,3'' @ [newline]"

definition sample_net_replay :: replay where
  "sample_net_replay = snd (replay_get_nodes sample_env (replay_start sample_net_text))"

lemma sample_net_run:
  "map (map fault_data) (fst (fm_run (replay_fm sample_env) 1 sample_net_replay))
    = [[(''n'', Some ''memory'', 1), (''n'', Some ''net'', 7), (''m'', Some ''net'', 3)]]"
  by code_simp

definition sample_client :: client where
  "sample_client = \<lparr>cl_mqtt = mqtt_load\<lparr>mt_con := True\<rparr>, cl_synced = False, cl_fifo = [], cl_out = []\<rparr>"

lemma sample_client_ready:
  "mt_con (cl_mqtt sample_client)" "mt_faults (cl_mqtt sample_client) = []" "\<not> cl_synced sample_client" "cl_fifo sample_client = []"
  by (simp_all add: sample_client_def mqtt_load_def)

text \<open>All messages in one batch, then a request to stop.\<close>

lemma one_batch_run:
  assumes "\<forall>loop batches usable req_stop. concat batches = ms \<longrightarrow> runs_batches loop usable 0 batches
      \<longrightarrow> (\<forall>j < length batches. \<not> req_stop j) \<longrightarrow> req_stop (length batches) \<longrightarrow> P loop usable req_stop"
  shows "P (\<lambda>i. if i = 0 then (0, ms) else (0, [])) (\<lambda>n. 16 * n) (\<lambda>k. k = 1)"
proof -
  have "runs_batches (\<lambda>i. if i = 0 then (0, ms) else (0, [])) (\<lambda>n. 16 * n) 0 [ms]"
    by (rule one_batch) (simp add: array_fits_def sizeof_fault_def)
  with assms [rule_format, of "[ms]" _ _ "\<lambda>k. k = 1"] show ?thesis by simp
qed

lemma sample_sel: "\<forall>i :: nat. (False, True) = (False, True)"
  by simp

abbreviation sample_mosq :: "mosq com" where "sample_mosq \<equiv> mosq_com (\<lambda>_ _. 0) (\<lambda>_. [])"

lemma sample_mosq_world:
  "w_plug (sample_world m (mosq_load\<lparr>mq_is_init := True\<rparr>)) = (m, mosq_load\<lparr>mq_is_init := True\<rparr>)"
  "mq_is_init (mosq_load\<lparr>mq_is_init := True\<rparr>)" "published (mq_calls (mosq_load\<lparr>mq_is_init := True\<rparr>)) = []"
  by (simp_all add: sample_world_def mosq_load_def)

abbreviation sample_net_faults :: "client_fault list" where
  "sample_net_faults \<equiv> [\<lparr>flt_component = Some ''memory'', flt_severity = 1\<rparr>, \<lparr>flt_component = Some ''net'', flt_severity = 7\<rparr>]"

lemma sample_net_faults_of:
  assumes "fm_run (replay_fm sample_env) 1 sample_net_replay = (fss, m')"
  shows "list_all (\<lambda>fs. faults_safe (map fault_data fs)) fss"
    "sample_net_faults = faults_of ''n'' (concat (map (map fault_data) fss))"
proof -
  have data: "map (map fault_data) fss = [[(''n'', Some ''memory'', 1), (''n'', Some ''net'', 7), (''m'', Some ''net'', 3)]]"
    using sample_net_run assms by simp
  have "list_all faults_safe (map (map fault_data) fss)"
    unfolding data by (simp add: faults_safe_def topic_safe_def)
  then show "list_all (\<lambda>fs. faults_safe (map fault_data fs)) fss"
    by (simp add: list.pred_map comp_def)
  show "sample_net_faults = faults_of ''n'' (concat (map (map fault_data) fss))" by (simp add: data faults_of_def)
qed

lemma sample_net_calls:
  "map fault_call sample_net_faults = [(SUBSYS_MEM, 1)] @ (SUBSYS_NET, 7) # []" "\<forall>f \<in> set sample_net_faults. subsystem f \<noteq> None"
  by (simp_all add: fault_call_def subsystem_def)

lemma sample_two_nodes:
  "distinct (map node_name (sv_nodes (sample_server fm com [sample_node ''n'' 1, sample_node ''m'' 1] len)))"
  "''n'' \<in> node_name ` set (sv_nodes (sample_server fm com [sample_node ''n'' 1, sample_node ''m'' 1] len))" "node_name_ok ''n''"
  "faults_safe (sync_data (sv_nodes (sample_server fm com [sample_node ''n'' 1, sample_node ''m'' 1] len)))"
  by (simp_all add: sample_server_def sample_node_def node_name_ok_def faults_safe_def sync_data_def topic_safe_def)

end
