(* ===== verification/Node_Faults.thy ===== *)
theory Node_Faults
  imports End_To_End Preload
begin

text \<open>
  The preloaded library between the two parties that use it: the application, whose calls of
  \<open>socket\<close>, \<open>accept\<close> and \<open>close\<close> go through the hooks, and the thread that performs the commands of the
  fifo. The application is a list of its calls in front of each command; in front of commands behind the
  end of the list it does nothing. The composition is a method of injection again, so that all that is
  known of the command loop holds for it.
\<close>

section \<open>The library and its application\<close>

type_synonym app_state = "preload \<times> sock_event list list"

definition next_events :: "sock_event list list \<Rightarrow> sock_event list" where
  "next_events ess = (case ess of [] \<Rightarrow> [] | es # _ \<Rightarrow> es)"

definition app_set_state :: "(nat \<Rightarrow> nat) \<Rightarrow> u32 \<Rightarrow> u64 \<Rightarrow> app_state \<Rightarrow> app_state set_result" where
  "app_set_state usable sys severity a =
     (case sock_run usable (next_events (snd a)) (fst a) of
        None \<Rightarrow> Undefined
      | Some p \<Rightarrow>
          (case pre_set_state sys severity p of
             Returned r p' \<Rightarrow> Returned r (p', tl (snd a))
           | Exited p' \<Rightarrow> Exited (p', tl (snd a))
           | Undefined \<Rightarrow> Undefined))"

definition app_method :: "(nat \<Rightarrow> nat) \<Rightarrow> app_state injector" where
  "app_method usable =
     \<lparr>mth_set_state = app_set_state usable, mth_cleanup = map_prod pre_cleanup (\<lambda>ess. ess), mth_exit_fifo = fifo_cleanup\<rparr>"

lemma app_method_sel [simp]:
  "mth_set_state (app_method usable) = app_set_state usable"
  "mth_cleanup (app_method usable) = map_prod pre_cleanup (\<lambda>ess. ess)"
  by (simp_all add: app_method_def)

lemma next_events_simps [simp]: "next_events [] = []" "next_events (es # ess) = es"
  by (simp_all add: next_events_def)

lemma sock_run_append:
  "sock_run usable (es @ es') s = (case sock_run usable es s of None \<Rightarrow> None | Some s' \<Rightarrow> sock_run usable es' s')"
  by (induction es arbitrary: s) (simp_all split: option.split)

section \<open>Commands that leave the network as it is\<close>

definition quiet_call :: "u32 \<times> u64 \<Rightarrow> bool" where
  "quiet_call call \<longleftrightarrow> fst call = SUBSYS_MEM \<or> fst call = SUBSYS_NET \<and> snd call = 0"

text \<open>Commands that are quiet up to a power fault, if there is one.\<close>

fun quiet_until_power :: "(u32 \<times> u64) list \<Rightarrow> bool" where
  "quiet_until_power [] = True"
| "quiet_until_power (call # calls) = (fst call = SUBSYS_PWR \<or> quiet_call call \<and> quiet_until_power calls)"

text \<open>Calls of the application that add no socket to an empty list.\<close>

fun adds_no_socket :: "sock_event \<Rightarrow> bool" where
  "adds_no_socket (Ev_socket domain ret) = (domain \<noteq> AF_INET \<and> domain \<noteq> AF_INET6 \<or> ret < 0)"
| "adds_no_socket (Ev_accept sock ret) = True"
| "adds_no_socket (Ev_close fd) = True"

text \<open>The state the backend ended in, without one after undefined behaviour.\<close>

fun final_state :: "'s backend_result \<Rightarrow> 's option" where
  "final_state (Main_returned r s) = Some s"
| "final_state (Main_exited s) = Some s"
| "final_state Main_undefined = None"

lemma quiet_set_state: "quiet_call call \<Longrightarrow> pre_net_state p = 0 \<Longrightarrow> pre_set_state (fst call) (snd call) p = Returned 0 p"
  by (auto simp: quiet_call_def pre_set_state_def pre_switch_net_def)

lemma sock_step_net: "sock_step usable e s = Some s' \<Longrightarrow> pre_net_state s' = pre_net_state s"
  by (cases e) (auto simp: pre_socket_def pre_accept_def pre_close_def add_sock_to_list_def remove_sock_from_list_def Let_def
      split: if_splits option.splits)

lemma sock_run_net: "sock_run usable es s = Some s' \<Longrightarrow> pre_net_state s' = pre_net_state s"
  by (induction es arbitrary: s) (auto split: option.splits dest: sock_step_net)

text \<open>With quiet commands between them the calls of the application are one run.\<close>

lemma quiet_calls_run:
  assumes "list_all quiet_call calls" "length ess = length calls" "pre_net_state p = 0"
    and "sock_run usable (concat ess @ es) p = Some p'"
  shows "\<exists>q. sock_run usable es q = Some p' \<and> pre_net_state q = 0
    \<and> run_calls (app_method usable) (calls @ rest) (p, ess @ es # ess') = run_calls (app_method usable) rest (q, es # ess')"
  using assms
proof (induction calls arbitrary: p ess)
  case (Cons call calls)
  obtain es1 ess1 where ess: "ess = es1 # ess1" using Cons.prems(2) by (cases ess) auto
  obtain p1 where p1: "sock_run usable es1 p = Some p1" "sock_run usable (concat ess1 @ es) p1 = Some p'"
    using Cons.prems(4) by (auto simp: ess sock_run_append split: option.splits)
  have net: "pre_net_state p1 = 0" using sock_run_net [OF p1(1)] Cons.prems(3) by simp
  have "app_set_state usable (fst call) (snd call) (p, ess @ es # ess') = Returned 0 (p1, ess1 @ es # ess')"
    using p1(1) quiet_set_state [OF _ net, of call] Cons.prems(1) by (simp add: app_set_state_def ess)
  moreover have "\<exists>q. sock_run usable es q = Some p' \<and> pre_net_state q = 0
    \<and> run_calls (app_method usable) (calls @ rest) (p1, ess1 @ es # ess') = run_calls (app_method usable) rest (q, es # ess')"
    using Cons.IH [OF _ _ net p1(2)] Cons.prems(1,2) by (simp add: ess)
  ultimately show ?case by (cases call) auto
qed auto

section \<open>After the failure\<close>

text \<open>The list is empty, whether its block was freed or never allocated.\<close>

lemma no_socket_run:
  assumes "list_all adds_no_socket es" "tracked p = []"
  shows "\<exists>q. sock_run usable es p = Some q \<and> tracked q = [] \<and> pre_shutdown q = pre_shutdown p"
  using assms
proof (induction es arbitrary: p)
  case (Cons e es)
  have "\<exists>q. sock_step usable e p = Some q \<and> tracked q = [] \<and> pre_shutdown q = pre_shutdown p"
    using Cons.prems by (cases e)
      (auto simp: pre_socket_def pre_accept_def pre_close_def add_sock_to_list_def remove_sock_from_list_def is_in_list_def
        tracked_def Let_def split: if_splits option.splits)
  with Cons.IH Cons.prems(1) show ?case by fastforce
qed simp

lemma quiet_shutdown:
  assumes "quiet_call call" "tracked p = []"
  shows "\<exists>q. pre_set_state (fst call) (snd call) p = Returned 0 q \<and> tracked q = [] \<and> pre_shutdown q = pre_shutdown p"
  using assms by (auto simp: quiet_call_def pre_set_state_def pre_switch_net_def tracked_def)

lemma quiet_until_power_run:
  assumes "quiet_until_power calls" "list_all (list_all adds_no_socket) ess" "tracked p = []"
  shows "\<exists>q ess'. final_state (run_calls (app_method usable) calls (p, ess)) = Some (q, ess') \<and> pre_shutdown q = pre_shutdown p"
  using assms
proof (induction calls arbitrary: p ess)
  case Nil
  then show ?case by (simp add: pre_cleanup_def pre_switch_net_def)
next
  case (Cons call calls)
  have ess: "list_all adds_no_socket (next_events ess)" "list_all (list_all adds_no_socket) (tl ess)"
    using Cons.prems(2) by (cases ess; simp)+
  obtain q where q: "sock_run usable (next_events ess) p = Some q" "tracked q = []" "pre_shutdown q = pre_shutdown p"
    using no_socket_run [OF ess(1) Cons.prems(3)] by blast
  show ?case
  proof (cases "fst call = SUBSYS_PWR")
    case True
    then have "app_set_state usable (fst call) (snd call) (p, ess) = Exited (q, tl ess)"
      using q(1) by (simp add: app_set_state_def pre_set_state_def)
    with q(3) show ?thesis by (cases call) simp
  next
    case False
    then obtain q' where q': "pre_set_state (fst call) (snd call) q = Returned 0 q'" "tracked q' = []" "pre_shutdown q' = pre_shutdown q"
      using quiet_shutdown [OF _ q(2), of call] Cons.prems(1) by auto
    then have "app_set_state usable (fst call) (snd call) (p, ess) = Returned 0 (q', tl ess)"
      using q(1) by (simp add: app_set_state_def)
    with Cons.IH [OF _ ess(2) q'(2)] Cons.prems(1) False q(3) q'(3) show ?thesis by (cases call) simp
  qed
qed

section \<open>The first failure of the network\<close>

text \<open>
  What the application has open when the first network fault comes is shut down, each socket once, and
  nothing else is until the end.
\<close>

lemma first_failure:
  assumes quiet: "list_all quiet_call calls" "length ess = length calls" and fail: "sev \<noteq> 0"
    and opened: "fresh_run (concat ess @ es) {}" "fds_fit usable (length (concat ess @ es))"
    and later: "quiet_until_power rest" "list_all (list_all adds_no_socket) ess'"
  shows "\<exists>q ess''. final_state (run_calls (app_method usable) (calls @ (SUBSYS_NET, sev) # rest) (preload_load, ess @ es # ess')) = Some (q, ess'')
    \<and> distinct (pre_shutdown q) \<and> set (pre_shutdown q) = fold spec_step (concat ess @ es) {}"
proof -
  have load: "tracked preload_load = []" "pre_fds preload_load \<noteq> Fds_freed" "pre_net_state preload_load = 0"
    "pre_shutdown preload_load = []"
    by (simp_all add: preload_load_def tracked_def)
  obtain p where p: "sock_run usable (concat ess @ es) preload_load = Some p" "distinct (tracked p)" "pre_fds p \<noteq> Fds_freed"
    "set (tracked p) = fold spec_step (concat ess @ es) {}" "pre_net_state p = 0" "pre_shutdown p = []"
    using sock_run_tracked [of preload_load "concat ess @ es" usable] opened load by auto
  obtain q where q: "sock_run usable es q = Some p"
    "run_calls (app_method usable) (calls @ (SUBSYS_NET, sev) # rest) (preload_load, ess @ es # ess')
      = run_calls (app_method usable) ((SUBSYS_NET, sev) # rest) (q, es # ess')"
    using quiet_calls_run [OF quiet load(3) p(1)] by blast
  obtain p' where p': "pre_switch_net sev p = Some (0, p')" "pre_shutdown p' = tracked p" "tracked p' = []"
    by (rule switch_net_fail [OF p(5) fail p(3)]) (use p(6) in \<open>auto simp: tracked_def split: if_splits\<close>)
  then have "app_set_state usable SUBSYS_NET sev (q, es # ess') = Returned 0 (p', ess')"
    using q(1) by (simp add: app_set_state_def pre_set_state_def)
  with quiet_until_power_run [OF later p'(3)] p(2,4) p'(2) q(2) show ?thesis by fastforce
qed

end
