(* ===== verification/Privileged.thy ===== *)
theory Privileged
  imports Backend
begin

text \<open>
  The backend that runs with privileges (\<open>client/src/privileged.c\<close>). Switching the network is
  still to be written there: it only keeps the state. Text on standard output is not modelled.
\<close>

record privileged =
  prv_net_status :: u64
  prv_close_fds :: "int \<times> int"
  prv_closed :: "int list"

definition prv_switch_net :: "u64 \<Rightarrow> privileged \<Rightarrow> int \<times> privileged" where
  "prv_switch_net severity s =
     (if prv_net_status s = 0 \<and> severity \<noteq> 0 then (0, s\<lparr>prv_net_status := 1\<rparr>)
      else if prv_net_status s \<noteq> 0 \<and> severity = 0 then (0, s\<lparr>prv_net_status := 0\<rparr>)
      else (0, s))"

definition prv_cleanup :: "privileged \<Rightarrow> privileged" where
  "prv_cleanup s = snd (prv_switch_net 0 s)"

definition prv_set_state :: "u32 \<Rightarrow> u64 \<Rightarrow> privileged \<Rightarrow> privileged set_result" where
  "prv_set_state sys severity s =
     (if sys = SUBSYS_NET then (case prv_switch_net severity s of (r, s') \<Rightarrow> Returned r s')
      else if sys = SUBSYS_PWR then Exited s
      else if sys = SUBSYS_MEM then Returned 0 s
      else Returned 1 s)"

definition privileged_method :: "privileged injector" where
  "privileged_method = \<lparr>mth_set_state = prv_set_state, mth_cleanup = prv_cleanup, mth_exit_fifo = (\<lambda>f. f)\<rparr>"

text \<open>
  \<open>popen\<close> gives None or the text of the command with its exit status. The stream is closed by
  \<open>pclose\<close> and then once more by \<open>fclose\<close>: the result is the status, and the flag says that a
  closed stream was used.
\<close>

definition is_iptables_pressent :: "(string \<times> int) option \<Rightarrow> bool \<times> bool" where
  "is_iptables_pressent popen = (case popen of None \<Rightarrow> (False, False) | Some (t, status) \<Rightarrow> (status = 0, True))"

definition prv_backend_init ::
  "(string \<times> int) option \<Rightarrow> u64 \<Rightarrow> (nat \<Rightarrow> bool \<times> bool) \<Rightarrow> fifo_state \<Rightarrow> privileged
   \<Rightarrow> (privileged backend_result \<times> fifo_state) option" where
  "prv_backend_init popen junk sel f s =
     (let (present, misuse) = is_iptables_pressent popen
      in if misuse then Some (Main_undefined, f)
         else if \<not> present then Some (Main_returned 1 s, f)
         else lauSim_main privileged_method junk sel f s)"

text \<open>\<open>main\<close> calls \<open>lauSim_main\<close> without opening the fifo first. \<open>pipe\<close> gives None or two descriptors.\<close>

definition prv_main ::
  "(int \<times> int) option \<Rightarrow> u64 \<Rightarrow> (nat \<Rightarrow> bool \<times> bool) \<Rightarrow> privileged \<Rightarrow> (privileged backend_result \<times> fifo_state) option" where
  "prv_main pipe junk sel s =
     (case pipe of
        None \<Rightarrow> Some (Main_returned 1 s, fifo_load)
      | Some (r, w) \<Rightarrow>
          (case lauSim_main privileged_method junk sel fifo_load (s\<lparr>prv_close_fds := (r, w)\<rparr>) of
             None \<Rightarrow> None
           | Some (Main_returned _ s', f) \<Rightarrow> Some (Main_returned 0 (s'\<lparr>prv_closed := prv_closed s' @ [r, w]\<rparr>), f)
           | Some res \<Rightarrow> Some res))"

text \<open>So the program never reads a command.\<close>

lemma prv_main_undefined: "prv_main (Some fds) junk sel s = Some (Main_undefined, fifo_load)"
  by (cases fds) (simp add: prv_main_def lauSim_main_def fifo_load_def)

lemma prv_method_sel [simp]:
  "mth_set_state privileged_method = prv_set_state" "mth_cleanup privileged_method = prv_cleanup"
  by (simp_all add: privileged_method_def)

interpretation prv: injection_method privileged_method "\<lambda>_. True"
    "\<lambda>s. prv_net_status s \<noteq> 0"
  by unfold_locales (auto simp: prv_set_state_def prv_switch_net_def prv_cleanup_def)

end
