(* ===== verification/Launcher.thy ===== *)
theory Launcher
  imports Client Options
begin

text \<open>
  The launcher on a node (\<open>client/launcher/launcher.c\<close>): its options, the environment of the
  application, the arguments of the client and what the parent does when the client ends. A
  pointer that may be NULL is an option. The last component of a result is the text on standard
  output.
\<close>

section \<open>Options\<close>

datatype lau_methode = MTH_PRELOAD | MTH_PRIVILIGED

record lau_opts =
  lo_name :: "string option"
  lo_server :: string
  lo_port :: string
  lo_methode :: lau_methode
  lo_pre_lib :: "string option"
  lo_command :: "string option"

definition default_opts :: lau_opts where
  "default_opts = \<lparr>lo_name = None, lo_server = ''localhost'', lo_port = ''1883'', lo_methode = MTH_PRELOAD,
                   lo_pre_lib = None, lo_command = None\<rparr>"

text \<open>\<open>"n:s:p:m:l:hc:"\<close>\<close>

definition launcher_optspec :: optspec where
  "launcher_optspec c =
     (if c \<in> {CHR ''n'', CHR ''s'', CHR ''p'', CHR ''m'', CHR ''l'', CHR ''c''} then Some True
      else if c = CHR ''h'' then Some False else None)"

definition puts :: "string \<Rightarrow> string" where
  "puts t = t @ [newline]"

definition print_help :: string where
  "print_help = concat (map puts
     [''laucher [OPTIONS]'',
      CHR 0x09 # ''-c command   : command to be executed                  (required)'',
      CHR 0x09 # ''-n node_name : the name of the node                    (required)'',
      CHR 0x09 # ''-s server    : the mqtt server to connect to           (default: localhost)'',
      CHR 0x09 # ''-p port      : the port number of the server           (default: 1883)'',
      CHR 0x09 # ''-m methode   : methode is either prelaod or privileged (default: preload)'',
      CHR 0x09 # ''-l path      : path to the preload library to use      (required with preload methode)'',
      CHR 0x09 # ''-h           : prints this help                        (duh)''])"

text \<open>\<open>Inl\<close> is the exit code of an early return. An option that is not known is only reported.\<close>

fun launcher_opts :: "(char \<times> string) list \<Rightarrow> lau_opts \<Rightarrow> string \<Rightarrow> (int + lau_opts) \<times> string" where
  "launcher_opts [] o' out = (Inr o', out)"
| "launcher_opts ((optchr, optarg) # r) o' out =
     (if optchr = CHR ''n'' then launcher_opts r (o'\<lparr>lo_name := Some optarg\<rparr>) out
      else if optchr = CHR ''s'' then launcher_opts r (o'\<lparr>lo_server := optarg\<rparr>) out
      else if optchr = CHR ''l'' then launcher_opts r (o'\<lparr>lo_pre_lib := Some optarg\<rparr>) out
      else if optchr = CHR ''h'' then (Inl 0, out @ print_help)
      else if optchr = CHR ''p'' then launcher_opts r (o'\<lparr>lo_port := optarg\<rparr>) out
      else if optchr = CHR ''m'' then
        (if strcasecmp_eq ''preload'' optarg then launcher_opts r (o'\<lparr>lo_methode := MTH_PRELOAD\<rparr>) out
         else if strcasecmp_eq ''privileged'' optarg then launcher_opts r (o'\<lparr>lo_methode := MTH_PRIVILIGED\<rparr>) out
         else (Inl 1, out @ puts ''only the modes preload and privileged are supported!''))
      else if optchr = CHR ''c'' then launcher_opts r (o'\<lparr>lo_command := Some optarg\<rparr>) out
      else launcher_opts r o' (out @ puts (''option '' @ [optchr] @ '' not recognized'')))"

section \<open>The processes\<close>

text \<open>
  The application gets the library in \<open>LD_PRELOAD\<close>. If the variable is set already, the launcher
  passes a string literal to \<open>sprintf\<close> as the buffer and an uninitialised block to \<open>setenv\<close>: the
  environment of the application is then undefined (None). \<open>execv\<close> takes the arguments up to the
  first NULL.
\<close>

record launched =
  la_preload :: "string option"
  la_command :: string
  la_client_argv :: "string list"

datatype launch_result = Launch_exit int | Launched launched

definition client_argv :: "lau_opts \<Rightarrow> string list" where
  "client_argv o' =
     map the (takeWhile (\<lambda>a. a \<noteq> None) [Some ''./client'', lo_name o', Some (lo_server o'), Some (lo_port o'), None])"

definition launcher_main :: "string option \<Rightarrow> string list \<Rightarrow> launch_result \<times> string" where
  "launcher_main ld_preload args =
     (case launcher_opts (getopt launcher_optspec [] args) default_opts [] of
        (Inl code, out) \<Rightarrow> (Launch_exit code, out)
      | (Inr o', out) \<Rightarrow>
          (case lo_command o' of
             None \<Rightarrow> (Launch_exit 1, out @ puts ''a command is required'')
           | Some command \<Rightarrow>
               if lo_methode o' = MTH_PRIVILIGED then (Launch_exit 0, out @ puts ''not supported yet'')
               else (case lo_pre_lib o' of
                       None \<Rightarrow> (Launch_exit 1, out @ puts ''path to preload library is needed'')
                     | Some lib \<Rightarrow>
                         (Launched \<lparr>la_preload = (case ld_preload of None \<Rightarrow> Some lib | Some _ \<Rightarrow> None),
                                    la_command = command, la_client_argv = client_argv o'\<rparr>, out))))"

text \<open>
  The parent: it waits until the backend has created the fifo (\<open>fifo k\<close> is the \<open>k\<close>-th result of
  \<open>stat\<close>), starts the client, and waits for it until \<open>waitpid\<close> succeeds (\<open>waited i\<close>) or a signal was
  caught (\<open>req_stop i\<close>). Then it signals. \<open>status\<close> says whether the status word shows a normal exit with
  code 0; it is not initialised when no wait succeeded.
\<close>

datatype parent_action = Start_client | Term_client | Wait_client | Term_application

partial_function (option) wait_fifo :: "(nat \<Rightarrow> bool) \<Rightarrow> nat \<Rightarrow> nat option" where
  "wait_fifo fifo k = (if fifo k then Some k else wait_fifo fifo (Suc k))"

partial_function (option) wait_client :: "(nat \<Rightarrow> bool) \<Rightarrow> (nat \<Rightarrow> bool) \<Rightarrow> nat \<Rightarrow> nat option" where
  "wait_client waited req_stop i =
     (if waited i then Some i else if req_stop i then Some i else wait_client waited req_stop (Suc i))"

definition launcher_parent ::
  "(nat \<Rightarrow> bool) \<Rightarrow> (nat \<Rightarrow> bool) \<Rightarrow> (nat \<Rightarrow> bool) \<Rightarrow> bool \<Rightarrow> parent_action list option" where
  "launcher_parent fifo waited req_stop status =
     (case wait_fifo fifo 0 of
        None \<Rightarrow> None
      | Some _ \<Rightarrow>
          map_option (\<lambda>i. [Start_client]
              @ (if \<not> status \<or> req_stop i then [Term_client, Wait_client] else []) @ [Term_application])
            (wait_client waited req_stop 0))"

section \<open>Processes and signals\<close>

text \<open>
  What \<open>SIGTERM\<close> does to the processes of a launcher. \<open>fork\<close> copies the disposition, \<open>execv\<close> and the
  child of \<open>system\<close> go back to the default, and the handler only sets \<open>req_stop\<close>. A process in \<open>system\<close>
  goes on waiting when it handles a signal. All processes are in the group of the launcher.
\<close>

datatype disposition = Sig_default | Sig_handler

record process =
  pr_sigterm :: disposition
  pr_req_stop :: bool
  pr_alive :: bool

definition install_handler :: "process \<Rightarrow> process" where
  "install_handler p = p\<lparr>pr_sigterm := Sig_handler\<rparr>"

definition exec_process :: "process \<Rightarrow> process" where
  "exec_process p = p\<lparr>pr_sigterm := Sig_default, pr_req_stop := False\<rparr>"

definition sigterm :: "process \<Rightarrow> process" where
  "sigterm p =
     (if \<not> pr_alive p then p
      else case pr_sigterm p of
             Sig_default \<Rightarrow> p\<lparr>pr_alive := False\<rparr>
           | Sig_handler \<Rightarrow> p\<lparr>pr_req_stop := True\<rparr>)"

text \<open>The launcher, its child that calls \<open>system\<close>, the application below it, and the client.\<close>

record family =
  fam_launcher :: process
  fam_runner :: process
  fam_app :: process
  fam_client :: "process option"

definition start_application :: "process \<Rightarrow> family" where
  "start_application p =
     (let launcher = install_handler p
      in \<lparr>fam_launcher = launcher, fam_runner = launcher, fam_app = exec_process launcher, fam_client = None\<rparr>)"

text \<open>
  The child for the client. When \<open>execv\<close> fails, its variable \<open>pid2\<close> is 0, so that \<open>kill\<close> signals the
  whole group, the child itself included, which then returns.
\<close>

definition launcher_child :: "bool \<Rightarrow> family \<Rightarrow> family" where
  "launcher_child exec_ok fam =
     (if exec_ok then fam\<lparr>fam_client := Some (exec_process (fam_launcher fam))\<rparr>
      else \<lparr>fam_launcher = sigterm (fam_launcher fam), fam_runner = sigterm (fam_runner fam), fam_app = sigterm (fam_app fam),
            fam_client = Some ((sigterm (fam_launcher fam))\<lparr>pr_alive := False\<rparr>)\<rparr>)"

fun perform :: "bool \<Rightarrow> parent_action \<Rightarrow> family \<Rightarrow> family" where
  "perform exec_ok Start_client fam = launcher_child exec_ok fam"
| "perform exec_ok Term_client fam = fam\<lparr>fam_client := map_option sigterm (fam_client fam)\<rparr>"
| "perform exec_ok Wait_client fam = fam"
| "perform exec_ok Term_application fam = fam\<lparr>fam_runner := sigterm (fam_runner fam)\<rparr>"

section \<open>Properties\<close>

definition launcher_args :: "string \<Rightarrow> string \<Rightarrow> string \<Rightarrow> string \<Rightarrow> string \<Rightarrow> string list" where
  "launcher_args name server port lib command =
     [''-n'', name, ''-s'', server, ''-p'', port, ''-l'', lib, ''-c'', command]"

lemma launcher_full:
  "launcher_main None (launcher_args name server port lib command) =
     (Launched \<lparr>la_preload = Some lib, la_command = command, la_client_argv = [''./client'', name, server, port]\<rparr>, [])"
  by (simp add: launcher_main_def launcher_args_def is_option_def launcher_optspec_def default_opts_def
      client_argv_def)

text \<open>Without the option \<open>n\<close> the name stays NULL, and the arguments of the client end before it.\<close>

lemma launcher_opts_no_name:
  "CHR ''n'' \<notin> fst ` set r \<Longrightarrow>
   case fst (launcher_opts r o' out) of Inl _ \<Rightarrow> True | Inr o'' \<Rightarrow> lo_name o'' = lo_name o'"
proof (induction r arbitrary: o' out)
  case (Cons a r)
  obtain c x where a: "a = (c, x)" by fastforce
  with Cons.prems have c: "c \<noteq> CHR ''n''" "CHR ''n'' \<notin> fst ` set r" by auto
  have step: "case fst (launcher_opts r o1 out1) of Inl _ \<Rightarrow> True | Inr o'' \<Rightarrow> lo_name o'' = lo_name o'"
    if "lo_name o1 = lo_name o'" for o1 out1
    using Cons.IH [OF c(2), of o1 out1] that by (simp split: sum.splits)
  show ?case
    unfolding a launcher_opts.simps
    by (cases "c = CHR ''s''"; cases "c = CHR ''l''"; cases "c = CHR ''h''"; cases "c = CHR ''p''";
        cases "c = CHR ''m''"; cases "c = CHR ''c''")
       (simp_all add: c step)
qed simp

lemma launcher_no_name:
  assumes "launcher_main ld_preload args = (Launched l, out)"
    and "CHR ''n'' \<notin> fst ` set (getopt launcher_optspec [] args)"
  shows "la_client_argv l = [''./client'']"
proof -
  obtain r out' where o: "launcher_opts (getopt launcher_optspec [] args) default_opts [] = (r, out')" by fastforce
  with assms(1) obtain o' where r: "r = Inr o'" and l: "la_client_argv l = client_argv o'"
    by (auto simp: launcher_main_def split: sum.splits option.splits if_splits)
  have "lo_name o' = lo_name default_opts" using launcher_opts_no_name [OF assms(2), of default_opts "[]"] by (simp add: o r)
  then have "lo_name o' = None" by (simp add: default_opts_def)
  with l show ?thesis by (simp add: client_argv_def)
qed

text \<open>The parent ends the application as soon as the client is gone or a signal came.\<close>

lemma wait_client_ends:
  "waited (i + n) \<or> req_stop (i + n) \<Longrightarrow> \<exists>j. wait_client waited req_stop i = Some j \<and> (waited j \<or> req_stop j)"
proof (induction n arbitrary: i)
  case 0
  then show ?case by (subst wait_client.simps) auto
next
  case (Suc n)
  then show ?case using Suc.IH [of "Suc i"] by (subst wait_client.simps) auto
qed

lemma wait_fifo_ends: "fifo (k + n) \<Longrightarrow> \<exists>j. wait_fifo fifo k = Some j"
proof (induction n arbitrary: k)
  case 0
  then show ?case by (subst wait_fifo.simps) auto
next
  case (Suc n)
  then show ?case using Suc.IH [of "Suc k"] by (subst wait_fifo.simps) auto
qed

lemma launcher_parent_terminates:
  assumes "fifo k" "waited n \<or> req_stop n"
  shows "\<exists>i. (waited i \<or> req_stop i) \<and> launcher_parent fifo waited req_stop status = Some ([Start_client]
    @ (if \<not> status \<or> req_stop i then [Term_client, Wait_client] else []) @ [Term_application])"
  using wait_client_ends [of waited 0 n req_stop] wait_fifo_ends [of fifo 0 k] assms
  by (auto simp: launcher_parent_def)

text \<open>Without a fifo the parent never gets further, whatever signals it catches.\<close>

lemma wait_fifo_found:
  assumes "wait_fifo fifo k = Some j"
  shows "fifo j"
  using assms by (rule wait_fifo.raw_induct [where P = "\<lambda>fifo k j. fifo j", rotated]) (auto split: if_splits)

lemma launcher_parent_no_fifo: "\<forall>k. \<not> fifo k \<Longrightarrow> launcher_parent fifo waited req_stop status = None"
  using wait_fifo_found [of fifo 0] by (cases "wait_fifo fifo 0") (auto simp: launcher_parent_def)

text \<open>
  The last signal of the parent goes to the child that waits in \<open>system\<close>, where the handler takes it;
  the application gets a signal only when the client could not be started.
\<close>

lemma parent_signals:
  assumes "pr_alive p"
  shows "let fam = fold (perform exec_ok) ([Start_client] @ (if stop then [Term_client, Wait_client] else []) @ [Term_application])
                     (start_application p)
         in (pr_alive (fam_app fam) \<longleftrightarrow> exec_ok) \<and> pr_req_stop (fam_runner fam) \<and> pr_alive (fam_runner fam)"
  using assms by (cases exec_ok; cases stop)
    (simp_all add: start_application_def launcher_child_def install_handler_def exec_process_def sigterm_def Let_def)

end
