(* ===== verification/Socket.thy ===== *)
theory Socket
  imports Prelude
begin

text \<open>
  The socket class (\<open>src/socket.cpp\<close>). The descriptors the process has open are a set; the system
  calls are given by their results.
\<close>

record sock =
  sk_sd :: int
  sk_family :: int
  sk_socktype :: int
  sk_protocol :: int

definition new_sock :: sock where
  "new_sock = \<lparr>sk_sd = - 1, sk_family = 0, sk_socktype = 1, sk_protocol = 0\<rparr>"

definition set_type :: "int \<Rightarrow> int \<Rightarrow> int \<Rightarrow> sock \<Rightarrow> bool \<times> sock" where
  "set_type family socktype protocol s =
     (if sk_sd s \<noteq> - 1 then (False, s)
      else (True, s\<lparr>sk_family := family, sk_socktype := socktype, sk_protocol := protocol\<rparr>))"

text \<open>
  The copy constructor: the descriptor of the copy is the truth value of \<open>dup(..) < 0\<close>. None is
  the exception.
\<close>

definition copy_sock :: "int \<Rightarrow> sock \<Rightarrow> int set \<Rightarrow> (sock \<times> int set) option" where
  "copy_sock dup s fds =
     (if dup < 0 then None else Some (s\<lparr>sk_sd := (if dup < 0 then 1 else 0)\<rparr>, insert dup fds))"

definition delete_sock :: "sock \<Rightarrow> int set \<Rightarrow> int set" where
  "delete_sock s fds = (if 0 < sk_sd s then fds - {sk_sd s} else fds)"

text \<open>\<open>lookup\<close> says whether \<open>getaddrinfo\<close> succeeds, \<open>sd\<close> and \<open>conn\<close> are the results of \<open>socket\<close> and \<open>connect\<close>.\<close>

definition sock_connect :: "bool \<Rightarrow> int \<Rightarrow> int \<Rightarrow> sock \<times> int set \<Rightarrow> int \<times> sock \<times> int set" where
  "sock_connect lookup sd conn = (\<lambda>(s, fds).
     if 0 \<le> sk_sd s then (- 1, s, fds)
     else if \<not> lookup then (- 1, s, fds)
     else if sd < 0 then (sd, s\<lparr>sk_sd := - 1\<rparr>, fds)
     else if conn \<noteq> 0 then (conn, s\<lparr>sk_sd := - 1\<rparr>, insert sd fds - {sd})
     else (0, s\<lparr>sk_sd := sd\<rparr>, insert sd fds))"

section \<open>Properties\<close>

definition sock_inv :: "sock \<Rightarrow> int set \<Rightarrow> bool" where
  "sock_inv s fds \<longleftrightarrow> - 1 \<le> sk_sd s \<and> (0 \<le> sk_sd s \<longrightarrow> sk_sd s \<in> fds)"

lemma sock_connect_inv [inv_intros]:
  "sock_inv s fds \<Longrightarrow> sock_connect lookup sd conn (s, fds) = (r, s', fds') \<Longrightarrow> sock_inv s' fds'"
  by (auto simp: sock_connect_def sock_inv_def split: if_splits)

text \<open>A connection that fails leaves no descriptor behind; one that succeeds adds the new one.\<close>

lemma sock_connect_result:
  assumes "sk_sd s = - 1" "sd \<notin> fds" "sock_connect lookup sd conn (s, fds) = (r, s', fds')"
  shows "if r = 0 then sk_sd s' = sd \<and> 0 \<le> sd \<and> fds' = insert sd fds else sk_sd s' = - 1 \<and> fds' = fds"
  using assms by (auto simp: sock_connect_def split: if_splits)

text \<open>A copy never holds the descriptor it duplicated, and its destructor closes nothing.\<close>

lemma copy_sock_leaks:
  "copy_sock dup s fds = Some (c, fds') \<Longrightarrow> sk_sd c = 0 \<and> dup \<in> fds' \<and> delete_sock c fds' = fds'"
  by (auto simp: copy_sock_def delete_sock_def split: if_splits)

end
