(* ===== verification/Laik.thy ===== *)
theory Laik
  imports C_Numbers
begin

text \<open>
  The receiving side of an application that uses LAIK (\<open>com/laik/laik_intf.c\<close>). The headers with
  the MQTT client and the generated protobuf code are not part of the sources: \<open>unpack\<close> stands for
  the latter, and the calls of the former are recorded.
\<close>

section \<open>Messages\<close>

text \<open>
  What a message does: the callback of the application is called with the unpacked message, or
  with NULL when it cannot be unpacked. None is a failed assertion.
\<close>

definition msg_cb :: "(string \<Rightarrow> 'm option) \<Rightarrow> string option \<Rightarrow> nat \<Rightarrow> 'm option list option" where
  "msg_cb unpack msg msglen =
     (if msglen = 0 then None
      else case msg of None \<Rightarrow> None | Some m \<Rightarrow> Some [unpack (take msglen m)])"

datatype laik_action = Laik_cleanup | Mqtt_cleanup

definition cleanup_ext_com :: "bool \<Rightarrow> laik_action list" where
  "cleanup_ext_com has_cleanup = (if has_cleanup then [Laik_cleanup] else []) @ [Mqtt_cleanup]"

section \<open>The client id\<close>

text \<open>The size asked for and the text that is written, with its NUL.\<close>

definition clientid_size :: "string \<Rightarrow> nat" where
  "clientid_size hostname = length hostname + length ''LAIK_'' + 1 + 1"

definition clientid_text :: "string \<Rightarrow> string" where
  "clientid_text hostname = ''LAIKpart_'' @ hostname @ [NUL]"

text \<open>
  The start: \<open>ret\<close> is the result of \<open>mqtt_init\<close>, \<open>usable n\<close> the size of the block the allocator gives
  for \<open>n\<close> bytes. The access to \<open>hostname[64]\<close> behind the array has no counterpart in the model.
\<close>

datatype laik_call = Laik_mqtt_init string string int int | Laik_mqtt_subscribe

datatype laik_start = Assertion_failed | Heap_overflow | Started "laik_call list"

definition init_ext_com ::
  "(nat \<Rightarrow> nat) \<Rightarrow> int \<Rightarrow> string \<Rightarrow> bool \<Rightarrow> string \<Rightarrow> int \<Rightarrow> int \<Rightarrow> laik_start" where
  "init_ext_com usable ret hostname has_backend addr port keepalive =
     (if \<not> has_backend then Assertion_failed
      else if usable (clientid_size hostname) < length (clientid_text hostname) then Heap_overflow
      else if ret \<noteq> 0 then Assertion_failed
      else Started [Laik_mqtt_init (''LAIKpart_'' @ hostname) addr port keepalive, Laik_mqtt_subscribe])"

text \<open>The buffer is three bytes too small, for every host name.\<close>

lemma clientid_overflow: "length (clientid_text hostname) = clientid_size hostname + 3"
  by (simp add: clientid_text_def clientid_size_def)

lemma init_ext_com_overflow:
  "usable (clientid_size hostname) < clientid_size hostname + 3 \<Longrightarrow>
   init_ext_com usable ret hostname True addr port keepalive = Heap_overflow"
  by (simp add: init_ext_com_def clientid_overflow)

end
