(* ===== verification/Spec2Isabelle.thy ===== *)
theory Spec2Isabelle
  imports Samples Node_Faults Privileged Launcher Socket Laik
begin

text \<open>
  A verification of lauSim, a simulator of hardware faults for distributed applications.

  \<^bold>\<open>The program.\<close> A server (\<open>srv/\<close>) reads a configuration file, loads plugins (\<open>plugins/\<close>) and runs tic by
  tic: in each tic it asks a fault manager plugin for the faults that happen and hands them to
  communication plugins. On every node a launcher (\<open>client/launcher/\<close>) starts the application
  with a preloaded library or a privileged process as the backend, and a client (\<open>client/src/\<close>). The
  client gets the faults of its node over MQTT and writes commands into a fifo, the backend reads
  them there and performs them. Clients report over a back channel that they are ready.

  \<^bold>\<open>The theories\<close>, in the order of the way of a fault, with the sources they model:

  \<^item> \<open>Prelude\<close>, \<open>C_Numbers\<close>: the C library on strings and numbers, as far as the sources use it, with the
    round trips between \<open>printf\<close> and \<open>strtoul\<close>.
  \<^item> \<open>Lausim_Types\<close>: the structs of \<open>include/lausim/\<close>. A table of function pointers is a record of
    functions on the state of the plugin.
  \<^item> \<open>Transcribe\<close>, \<open>Replay\<close>, \<open>Record_Replay\<close>: the recorder \<open>plugins/transcribe/transcribe.c\<close>, the parser
    and fault manager \<open>plugins/replay/replay.c\<close>, and that the second reads back what the first writes.
    The locale \<open>recordable_manager\<close> is the contract of a manager whose runs fit the file format.
    \<open>Replay_Lines\<close>: the parser on arbitrary files, against a reading of the file that knows no tics.
  \<^item> \<open>Random_Faults\<close>: \<open>plugins/random/random.c\<close>, which keeps that contract, and under which no node
    fails twice.
  \<^item> \<open>C_Memory\<close>, \<open>Replay_Memory\<close>, \<open>Replay_Nodes\<close>, \<open>Random_Memory\<close>: the same two plugins on the memory they
    allocate, every \<open>malloc\<close>, \<open>realloc\<close> and \<open>free\<close> included, as refinements of the functional models. The
    memory maps addresses to typed blocks, ownership (\<open>owns\<close>) splits it into the blocks of a component and
    a frame; a use of a freed block or of a null pointer has no result.
  \<^item> \<open>Logging\<close>: \<open>srv/stdoutLog.cpp\<close> and \<open>plugins/filelogger/filelogger.c\<close>; the locale \<open>logger\<close> is the contract of
    \<open>include/lausim/logger.h\<close>, kept by both.
  \<^item> \<open>Plugin_Manager\<close>: \<open>srv/library.cpp\<close> and \<open>srv/plugin_internal.cpp\<close>; the locale \<open>registry\<close> is what
    registration and lookup promise. \<open>Plugin_Hooks\<close>: \<open>init\<close> and \<open>post\<close> of the recorder and the replay
    plugin. \<open>Shipped_Plugins\<close>: the function tables of all plugins and their clean-up.
  \<^item> \<open>Config\<close>, \<open>Options\<close>: \<open>srv/config.cpp\<close> and \<open>srv/options.cpp\<close>, every error path and exception included;
    \<open>Config_Text\<close> writes configurations and shows that they are read back.
  \<^item> \<open>Server\<close>, \<open>Main_Loop\<close>, \<open>Interleaving\<close>: \<open>srv/server.cpp\<close> and \<open>srv/main.cpp\<close>. The abstract specification of a
    tic is \<open>deliver\<close>: the faults of the manager go to the communication plugins in their order. The
    wait for the nodes is also a step relation, with the main thread, the message thread and the
    signal handler interleaved at every access to a shared variable. \<open>Message_Order\<close>: messages between
    the calls of a tic.
  \<^item> \<open>Shutdown\<close>, \<open>Lifecycle\<close>: the end of \<open>main\<close>, where plugins are cleaned up while messages still arrive, on
    the memory of the nodes that server and replay plugin share; the singletons of the server (the locale
    \<open>singleton\<close>, kept by all three), the logger pointers of the plugins and the resolution of the hooks.
  \<^item> \<open>Echo\<close>, \<open>Mosquitto\<close>: \<open>plugins/echo/echo.c\<close> and \<open>plugins/mosquitto/com_mosquitto.cpp\<close>; the locale
    \<open>com_backend\<close> is what a delivery makes a communication plugin emit.
  \<^item> \<open>Client_Mqtt\<close>, \<open>Client\<close>: \<open>client/src/mqtt.c\<close> and \<open>client/src/client.c\<close>.
  \<^item> \<open>Backend\<close>, \<open>Preload\<close>, \<open>Privileged\<close>: \<open>client/src/backend.c\<close> with its two methods \<open>client/src/preload.c\<close> and
    \<open>client/src/privileged.c\<close>; the locale \<open>injection_method\<close> is what the command loop promises for any
    method, interpreted for both. \<open>Preload_Threads\<close>: the hooks of the preloaded library under all schedules
    of several threads; a step is a system call, a critical section or the one access outside of it.
  \<^item> \<open>Launcher\<close>, \<open>Socket\<close>, \<open>Laik\<close>: \<open>client/launcher/launcher.c\<close>, \<open>src/socket.cpp\<close> and \<open>com/laik/laik_intf.c\<close>.
  \<^item> \<open>End_To_End\<close>: server, broker, client and backend composed, and the server program with the wait for its
    nodes, which the ready messages of the clients end. \<open>Node_Faults\<close>: the preloaded library between an application that uses sockets and the commands of
    the fifo, which is a method of injection again. \<open>Samples\<close>: the concrete systems the instances of the
    properties are evaluated on.

  \<^bold>\<open>State and effects.\<close> The global variables of a component are a record, an operation returns the new
  one. The server and its plugins work on a \<open>world\<close>: the plugin manager and the state of the plugins.
  A plugin is known by its address, as in the code, and the plugin structs are a constant heap. Errors
  are values: return codes as in the code, uncaught exceptions, calls of null pointers, uses of freed
  or too small blocks and failed assertions as constructors of their own. Log calls and calls of
  foreign libraries are recorded in their order. Integers have the width they have in the code.

  \<^bold>\<open>What is a parameter\<close>, because it is not part of the sources: the mosquitto library (the result of
  every call, the messages that \<open>loop\<close> delivers), the MQTT broker, the generated protobuf code
  (\<open>parse\<close>, \<open>serialize\<close>, \<open>pack\<close>), the clock, \<open>rand\<close>, the dynamic loader, the file system, the results of
  system calls, the arrival of signals and messages, the values of uninitialised variables, and the
  allocator: whether an allocation that the code checks succeeds, and the usable size of a block where
  the code asks for too little. Allocations that the code does not check succeed.

  \<^bold>\<open>Loops.\<close> Loops over data are recursive functions with a termination proof. Loops that wait for
  something outside are partial functions into \<open>option\<close>, where None is a loop that does not end; that
  they return is part of the properties. There is no fuel. The loop that catches up with the clock is
  total for positive durations, and None for others.

  \<^bold>\<open>The properties\<close>: C1 composes the whole way of a fault, C32 extends it to the sockets of an
  application, C27 composes the start. C2 to C5 are about fault managers and recordings, C6 to C13 about the
  server's tics, its time, its nodes and messages, C14 to C20 about plugins, roles and the configuration, C21
  and C22 about options and loggers, C23 to C26 about the memory of the fault managers, arbitrary recordings
  and the end of the program, C27 to C35 about the start of the nodes, the client and the backends, C36 to
  C38 about the echo plugin, the length of a tic and the launcher, C39 and C40 about the server program as
  a whole. C26, C34, C35, C37 and C38 state defects of the code, C23 among other things the memory that the
  replay plugin leaks. The theorems without a number state smaller facts and defects in the same way.

  \<^bold>\<open>Not modelled\<close>: the protobuf encoding and the MQTT protocol (generated code and foreign libraries);
  text on standard error outside the loggers and the options; the mutexes themselves, a protected
  operation is one step; the schedules of several threads outside of \<open>Interleaving\<close>, \<open>Message_Order\<close>,
  \<open>Preload_Threads\<close> and \<open>Shutdown\<close>; the process image behind \<open>fork\<close>, \<open>execv\<close> and \<open>system\<close>, beyond its signal
  handlers; \<open>Socket::dup_sock\<close>, \<open>Server::get_tic\<close> and the members of \<open>Server\<close> that no code uses or
  defines; build files, documentation and examples.
\<close>

section \<open>From the fault manager to the application\<close>



section \<open>Recording and replaying\<close>

text \<open>
  C2. A simulation can be repeated: a server that records an arbitrary fault manager through the
  transcribe plugin finishes its \<open>n\<close> tics, and a second server that replays the file with the replay
  plugin does to its communication backends exactly what the first one did, also when its clock
  shows other times and its tics have another length.
\<close>

theorem replayed_server_run:
  assumes manager: "recordable_manager fm invar" "invar m" "fm_get_nodes fm m = (Nodes ns, m1)"
    and recorder: "transcribe_get_nodes fm (transcribe_start m) = (r, t1)"
    and first: "wired (transcribe_fm fm) actor notify s" "well_timed s" "w_plug w = (t1, c)"
    and second: "wired (replay_fm env) actor notify s2" "well_timed s2" "enough_memory env"
    and n: "0 < n" "n < 2 ^ 64"
  shows "\<exists>s' w'. run_tics serialize clock n (s, w) = Some (s', w')
    \<and> (\<forall>r' p1 w2. replay_get_nodes env (replay_start (tr_file (fst (w_plug w')))) = (r', p1)
         \<longrightarrow> w_plug w2 = (p1, c)
         \<longrightarrow> r' = Nodes (replayed_nodes 0 ns)
           \<and> (\<exists>s2' w2'. run_tics serialize clock' n (s2, w2) = Some (s2', w2')
                 \<and> snd (w_plug w2') = snd (w_plug w')))"
proof -
  let ?d = "deliver serialize actor notify"
  let ?t2 = "snd (fm_run (transcribe_fm fm) n t1)"
  have fss: "fst (fm_run (transcribe_fm fm) n t1) = fst (fm_run fm n m1)"
    using transcribe_get_nodes_nested [of fm "transcribe_start m"] manager(3) recorder
    by (simp add: transcribe_run transcribe_start_def split_beta Let_def)
  obtain s' w' where run: "run_tics serialize clock n (s, w) = Some (s', w')"
    "w_plug w' = (?t2, fold ?d (map (map fault_data) (fst (fm_run fm n m1))) c)"
    using run_tics_plug [OF first, of serialize clock n] fss by metis
  have second_run: "r' = Nodes (replayed_nodes 0 ns) \<and> (\<exists>s2' w2'. run_tics serialize clock' n (s2, w2) = Some (s2', w2')
      \<and> snd (w_plug w2') = snd (w_plug w'))"
    if replay: "replay_get_nodes env (replay_start (tr_file (fst (w_plug w')))) = (r', p1)" "w_plug w2 = (p1, c)"
    for r' p1 w2
  proof -
    have p1: "replay_get_nodes env (replay_start (tr_file ?t2)) = (r', p1)" using replay(1) run(2) by simp
    note same = recordable_manager.replay_recorded [OF manager n second(3) recorder p1]
    obtain s2' w2' where "run_tics serialize clock' n (s2, w2) = Some (s2', w2')"
      "w_plug w2' = (snd (fm_run (replay_fm env) n p1),
         fold ?d (map (map fault_data) (fst (fm_run (replay_fm env) n p1))) c)"
      using run_tics_plug [OF second(1,2) replay(2), of serialize clock' n] by metis
    with same run(2) show ?thesis by simp
  qed
  show ?thesis
    by (rule exI, rule exI, rule conjI, rule run(1), intro allI impI, rule second_run)
qed

theorem replayed_server_run_witness:
  "\<exists>s' w' r' p1. run_tics (\<lambda>_ _. []) (\<lambda>_. 0) 2
     (sample_server (transcribe_fm sample_fm) echo_com [] 0,
      sample_world (snd (transcribe_get_nodes sample_fm (transcribe_start sample_random)))
        \<lparr>ec_out = [], ec_log = []\<rparr>) = Some (s', w')
   \<and> replay_get_nodes sample_env (replay_start (tr_file (fst (w_plug w')))) = (r', p1)
   \<and> (\<exists>s2' w2'. run_tics (\<lambda>_ _. []) (\<lambda>_. 5) 2
          (sample_server (replay_fm sample_env) echo_com [] 7, sample_world p1 \<lparr>ec_out = [], ec_log = []\<rparr>) = Some (s2', w2')
        \<and> snd (w_plug w2') = snd (w_plug w'))"
proof -
  let ?fm = "sample_fm"
  let ?c = "\<lparr>ec_out = [], ec_log = []\<rparr>"
  obtain r t1 where t1: "transcribe_get_nodes ?fm (transcribe_start sample_random) = (r, t1)" by fastforce
  have inv: "random_inv sample_random"
    by (simp add: random_inv_def sample_random_def)
  have nodes: "fm_get_nodes ?fm sample_random = (Nodes [mn_p (new_node 0)], sample_random)"
    by (simp add: random_get_nodes_def sample_random_def)
  have timed: "well_timed (sample_server fm com ns 0)" "well_timed (sample_server fm com ns 7)"
    for fm :: "'m fault_manager" and com :: "'c com" and ns
    by (simp_all add: well_timed_def sample_server_def)
  show ?thesis
    using replayed_server_run [OF rnd.recordable_manager_axioms inv nodes t1
        sample_server_wired [of "transcribe_fm ?fm" echo_com "[]" 0] timed(1) _
        sample_server_wired [of "replay_fm sample_env" echo_com "[]" 7] timed(2) sample_env_memory, where n = 2 and c = ?c
        and w = "sample_world t1 ?c" and serialize = "\<lambda>_ _. []" and clock = "\<lambda>_. 0" and clock' = "\<lambda>_. 5"] t1
    by (simp add: sample_world_def) (metis (no_types, lifting) prod.collapse world.select_convs(2))
qed

text \<open>
  C3. A recording of nodes and faults that fit the file format is replayed exactly: the nodes with
  their components, in every tic the recorded faults in their order, and behind the last recorded tic
  nothing for as many tics as are asked for, provided that there is memory for the nodes.
\<close>

theorem replay_of_recording:
  assumes "recordable_nodes ns" "enough_memory env" and "list_all (list_all recordable_fault) (fs # fss)"
    and "length (fs # fss) < 2 ^ 64"
    and "replay_get_nodes env (replay_start (recording ns (fs # fss))) = (r, p)"
  shows "r = Nodes (replayed_nodes 0 ns)
    \<and> map (map fault_data) (fst (fm_run (replay_fm env) (length (fs # fss)) p)) = map (map fault_data) (fs # fss)
    \<and> fst (fm_run (replay_fm env) k (snd (fm_run (replay_fm env) (length (fs # fss)) p))) = replicate k []"
proof -
  from assms(1,2) obtain p' where p': "replay_get_nodes env (replay_start (recording ns (fs # fss)))
      = (Nodes (replayed_nodes 0 ns), p')" "at_tic 0 (fs # fss) p'"
    by (rule replay_get_nodes_recording)
  have at: "at_tic (length (fs # fss)) [] (snd (fm_run (replay_fm env) (length (fs # fss)) p'))"
    using p' assms(3,4) replay_run [of 0 "fs # fss" p' env] by simp
  then have "rp_done (snd (fm_run (replay_fm env) (length (fs # fss)) p'))"
    by (simp only: at_tic_def list.case simp_thms)
  from replay_done_run [OF this, of env k] show ?thesis
    using p' assms(3-5) replay_run [of 0 "fs # fss" p' env] by simp
qed

theorem replay_of_recording_witness:
  "\<exists>r p. replay_get_nodes sample_env (replay_start (recording [mn_p (new_node 0)] [[], []])) = (r, p)
     \<and> r = Nodes (replayed_nodes 0 [mn_p (new_node 0)])
     \<and> fst (fm_run (replay_fm sample_env) 3 (snd (fm_run (replay_fm sample_env) (Suc (Suc 0)) p))) = replicate 3 []"
proof -
  have "recordable_nodes [mn_p (new_node 0)]"
    using random_recordable_nodes [of sample_random] by (simp add: random_inv_def sample_random_def)
  moreover obtain r p where "replay_get_nodes sample_env (replay_start (recording [mn_p (new_node 0)] [[], []])) = (r, p)"
    by fastforce
  ultimately show ?thesis
    using replay_of_recording [of "[mn_p (new_node 0)]" sample_env "[]" "[[]]" r p 3] sample_env_memory
    by (auto simp del: fm_run.simps)
qed


text \<open>
  C5. The random manager after its \<open>init\<close>: over any number of tics no node fails twice, and only
  nodes that exist fail, even when memory runs out. As long as it does not, a tic reports exactly the
  nodes whose health it takes, and all of them fail when the numbers drawn are low enough.
\<close>

theorem random_nodes_fail_once:
  assumes "random_init alloc version argv (random_load g) = (0, s, ok)"
  shows "distinct (concat (map (map fault_node) (fst (fm_run (random_fm alloc rand) n s))))
    \<and> set (concat (map (map fault_node) (fst (fm_run (random_fm alloc rand) n s)))) \<subseteq> mn_name ` set (rnd_nodes s)
    \<and> map mn_name (rnd_nodes s) = map (\<lambda>i. ''node'' @ show_nat i) [0..<length (rnd_nodes s)]
    \<and> ((\<forall>g. fst (alloc g)) \<longrightarrow>
        (\<forall>t. fst (fm_step (random_fm alloc rand) t) = map (\<lambda>(m, m'). node_failed m)
          (filter (\<lambda>(m, m'). mn_healthy m \<noteq> 0 \<and> mn_healthy m' = 0)
            (zip (rnd_nodes t) (rnd_nodes (snd (fm_step (random_fm alloc rand) t)))))))
    \<and> ((\<forall>g. fst (alloc g)) \<and> (\<forall>g. fst (rand g) < prob) \<and> 0 < n \<longrightarrow>
        mn_name ` set (rnd_nodes s) \<subseteq> set (concat (map (map fault_node) (fst (fm_run (random_fm alloc rand) n s)))))"
proof -
  note names = random_init_load(2) [OF assms]
  have "(\<forall>g. fst (alloc g)) \<and> (\<forall>g. fst (rand g) < prob) \<and> 0 < n \<longrightarrow>
      mn_name ` set (rnd_nodes s) \<subseteq> set (concat (map (map fault_node) (fst (fm_run (random_fm alloc rand) n s))))"
    using random_run_all [of alloc rand n s] unfolding names set_map [of mn_name] by blast
  then show ?thesis
    using random_run_distinct [OF random_init_load(3) [OF assms], of alloc rand n]
      random_inv_names [OF random_init_load(1) [OF assms]] random_step_faults [of alloc rand]
    unfolding names set_map [of mn_name] by blast
qed

theorem random_nodes_fail_once_witness:
  "\<exists>s ok. random_init sample_alloc 7 [''2''] (random_load ()) = (0, s, ok)
     \<and> distinct (concat (map (map fault_node) (fst (fm_run sample_fm 3 s))))
     \<and> mn_name ` set (rnd_nodes s) \<subseteq> set (concat (map (map fault_node) (fst (fm_run sample_fm 3 s))))"
proof -
  have "strtol_val 0 ''2'' = 2" by code_simp
  then obtain s ok where init: "random_init sample_alloc 7 [''2''] (random_load ()) = (0, s, ok)"
    by (simp add: random_init_def numeral_2_eq_2 Let_def)
  moreover have "0 < prob" by (simp add: prob_def RAND_MAX_def)
  ultimately show ?thesis using random_nodes_fail_once [OF init, of "\<lambda>g. (0, g)" 3] by auto
qed

section \<open>The server\<close>



text \<open>
  C7. The main loop performs the number of tics it was asked for: the first \<open>n\<close> reads of
  \<open>termreq\<close> see 0, and then either it is set or \<open>n\<close> is \<open>max_tics\<close>. It returns, the counter of the
  loop does not wrap, and the messages of the backchannel that are handled in between make no
  difference to what the backends get.
\<close>

theorem main_loop_runs_max_tics:
  assumes "wired fm actor notify s" "well_timed s" "fm_run fm n (fst (w_plug w)) = (fss, m)"
    and "\<forall>j<n. \<not> termreq j"
    and "max_tics = 0 \<or> n \<le> unat max_tics"
    and "termreq n \<or> max_tics \<noteq> 0 \<and> n = unat max_tics"
  shows "\<exists>tn s' w'. tic_loop parse serialize clock inbox termreq max_tics 0 0 (s, w) = Some (tn, s', w')
    \<and> w_plug w' = (m, fold (deliver serialize actor notify) (map (map fault_data) fss) (snd (w_plug w)))"
  using tic_loop_run [OF assms(1-3), of termreq 0 max_tics 0 parse serialize clock inbox] assms(4-6) by simp

theorem main_loop_runs_max_tics_witness:
  "\<exists>tn s' w'. tic_loop (\<lambda>_. None) (\<lambda>_ _. []) (\<lambda>_. 0) (\<lambda>_. [''hello'']) (\<lambda>_. False) 2 0 0
     (sample_server sample_fm echo_com [] 0, sample_world sample_random sample_echo) = Some (tn, s', w')
   \<and> snd (w_plug w') = fold (deliver (\<lambda>_ _. []) echo_com echo_com)
       (map (map fault_data) (fst (fm_run sample_fm 2 sample_random))) sample_echo"
  using main_loop_runs_max_tics [OF sample_server_wired sample_server_timed(1),
      where w = "sample_world sample_random sample_echo" and serialize = "\<lambda>_ _. []" and clock = "\<lambda>_. 0" and n = 2
        and parse = "\<lambda>_. None" and inbox = "\<lambda>_. [''hello'']" and termreq = "\<lambda>_. False" and max_tics = 2]
  by (simp add: sample_world_def) (metis prod.collapse snd_conv)





section \<open>Synchronisation and the backchannel\<close>

text \<open>
  C10. Safety of the start signal under all interleavings of the main thread, the thread of the
  backend and the signal handler, with one access to a node per step: when the main thread has left
  the wait and no termination was requested, every node was ready at some time; the start signal has
  been sent to a prefix of the nodes, in their order, once each; the states of the nodes are those
  the messages gave them.
\<close>

theorem start_signal_safe:
  assumes "distinct (map node_name ns)" "sync_reachable parse ns s"
  shows "((sy_pc s = Tics \<or> (\<exists>i. sy_pc s = Signalling i)) \<and> \<not> sy_termreq s
        \<longrightarrow> (\<forall>n \<in> set ns. was_ready parse (sy_handled s) n))
    \<and> sy_sent s = map node_name (take (signalled (sy_pc s) (length ns)) ns)
    \<and> map node_state (sy_nodes s) = map (\<lambda>n. fold (reported parse (node_name n)) (sy_handled s) (node_state n)) ns"
  using sync_reachable_inv [OF assms] by (auto simp: sync_inv_def checked_def in_set_conv_nth)

theorem start_signal_safe_witness:
  "let s = (main_step ^^ 4) (message_step sample_parse ''a'' (sync_start [sample_node ''a'' 0]))
   in sy_pc s = Signalling 1 \<and> (\<forall>n \<in> set [sample_node ''a'' 0]. was_ready sample_parse (sy_handled s) n)"
proof -
  let ?ns = "[sample_node ''a'' 0]"
  let ?s = "(main_step ^^ 4) (message_step sample_parse ''a'' (sync_start ?ns))"
  have reach: "sync_reachable sample_parse ?ns ((main_step ^^ k) (message_step sample_parse ''a'' (sync_start ?ns)))" for k
    by (induction k) (auto intro: sync_reachable.intros sync_step.intros)
  have pc: "sy_pc ?s = Signalling 1" "\<not> sy_termreq ?s"
    by (simp_all add: eval_nat_numeral main_step_def message_step_def sync_start_def sample_parse_def
        ready_message_def sample_node_def)
  show ?thesis
    using start_signal_safe [OF _ reach [of 4]] pc by (auto simp: Let_def)
qed



text \<open>
  C12. The state of a node is what the last status message for it says, independent of messages
  for other nodes, of log messages and of garbage; and the server takes the nodes for ready exactly
  when that state is ready for all of them.
\<close>

theorem node_states_follow_messages:
  assumes "distinct (map node_name (sv_nodes s))"
  shows "all_nodes_ready (fst (on_messages parse msgs (s, w))) \<longleftrightarrow>
    (\<forall>n \<in> set (sv_nodes s). fold (reported parse (node_name n)) msgs (node_state n) = NODE_STATE_READY)"
  using on_messages_nodes [OF assms, of parse msgs w] by (auto simp: all_nodes_ready_def list_all_iff)

theorem node_states_follow_messages_witness:
  "all_nodes_ready (fst (on_messages sample_parse [''x'', ''b'', ''a'']
     (sample_server sample_fm echo_com [sample_node ''a'' 0, sample_node ''b'' 2] 0,
      sample_world sample_random sample_echo)))"
  using node_states_follow_messages [of "sample_server sample_fm echo_com
      [sample_node ''a'' 0, sample_node ''b'' 2] 0" sample_parse "[''x'', ''b'', ''a'']"]
  by (simp add: sample_server_def sample_node_def reported_def sample_parse_def ready_message_def)

text \<open>
  The message a client sends at its start makes its node ready at the server, when
  parsing undoes packing, and changes no other node.
\<close>

theorem ready_message_makes_ready:
  assumes "parse (pack (ready_message name)) = Some (ready_message name)" "distinct (map node_name (sv_nodes s))" "NUL \<notin> set name"
  shows "\<exists>s' w'. on_message parse (pack (ready_message name)) (Some s) w = (Some s', w')
    \<and> sv_nodes s' = map (\<lambda>n. if node_name n = name then n\<lparr>node_state := NODE_STATE_READY\<rparr> else n) (sv_nodes s)"
proof -
  have "report parse (pack (ready_message name)) =
      (\<lambda>n. if node_name n = name then n\<lparr>node_state := NODE_STATE_READY\<rparr> else n)"
    using assms(1,3) by (auto simp: fun_eq_iff report_def reported_def ready_message_def)
  then show ?thesis using on_message_nodes [OF assms(2), of parse "pack (ready_message name)" w] by auto
qed

theorem ready_message_makes_ready_witness:
  "\<exists>s' w'. on_message sample_parse (bc_nodename (ready_message ''b''))
       (Some (sample_server sample_fm echo_com [sample_node ''a'' 0, sample_node ''b'' 2] 0))
       (sample_world sample_random sample_echo) = (Some s', w')
     \<and> sv_nodes s' = [sample_node ''a'' 0, sample_node ''b'' 1]"
  using ready_message_makes_ready [of sample_parse bc_nodename "''b''"
      "sample_server sample_fm echo_com [sample_node ''a'' 0, sample_node ''b'' 2] 0"]
  by (simp add: sample_server_def sample_node_def sample_parse_def ready_message_def)

text \<open>
  C13. Messages that arrive while tics run: however the calls of \<open>on_message\<close> fall between the calls that
  \<open>n\<close> tics make, the plugins see what they see without any message, the server's time is that of the tics
  alone, and its nodes and forwarded messages are those of the messages alone.
\<close>

theorem messages_and_tics_commute:
  assumes "wired fm actor notify s" "well_timed s" "num_calls es = 4 * n"
  shows "\<exists>s1 w1 s2 w2 w'. run_tics serialize clock n (s, w) = Some (s1, w1) \<and> on_messages parse (arrived es) (s, w) = (s2, w2)
    \<and> run_events parse serialize clock 0 es (s, w) =
        Some (s1\<lparr>sv_nodes := sv_nodes s2, sv_forwarded := sv_forwarded s2\<rparr>, w') \<and> w_plug w' = w_plug w1"
  by (rule messages_commute [OF assms])

theorem messages_and_tics_commute_witness:
  "\<exists>s1 w1 w'. run_tics (\<lambda>_ _. []) (\<lambda>_. 0) 1 (sample_server sample_fm echo_com [sample_node ''a'' 0] 7, sample_world sample_random sample_echo) = Some (s1, w1)
     \<and> run_events sample_parse (\<lambda>_ _. []) (\<lambda>_. 0) 0 [Call, Message ''a'', Call, Call, Call]
         (sample_server sample_fm echo_com [sample_node ''a'' 0] 7, sample_world sample_random sample_echo)
       = Some (s1\<lparr>sv_nodes := [sample_node ''a'' 1]\<rparr>, w') \<and> w_plug w' = w_plug w1"
proof -
  let ?s = "sample_server sample_fm echo_com [sample_node ''a'' 0] 7" and ?w = "sample_world sample_random sample_echo"
  let ?es = "[Call, Message ''a'', Call, Call, Call]"
  have "sv_nodes (fst (on_messages sample_parse (arrived ?es) (?s, ?w))) = [sample_node ''a'' 1]"
    "sv_forwarded (fst (on_messages sample_parse (arrived ?es) (?s, ?w))) = []"
    by (simp_all add: sample_parse_def sample_server_def sample_node_def on_message_def set_node_state_def ready_message_def)
  moreover have "run_tics (\<lambda>_ _. []) (\<lambda>_. 0) 1 (?s, ?w) = Some (s1, w1) \<Longrightarrow> sv_forwarded s1 = []" for s1 w1
    by (auto simp: do_tic_def skip_to_end_of_tic_def sample_server_def Let_def split: option.splits if_splits)
  moreover obtain s1 w1 s2 w2 w' where 1: "run_tics (\<lambda>_ _. []) (\<lambda>_. 0) 1 (?s, ?w) = Some (s1, w1)"
    "on_messages sample_parse (arrived ?es) (?s, ?w) = (s2, w2)"
    "run_events sample_parse (\<lambda>_ _. []) (\<lambda>_. 0) 0 ?es (?s, ?w) = Some (s1\<lparr>sv_nodes := sv_nodes s2, sv_forwarded := sv_forwarded s2\<rparr>, w')"
    "w_plug w' = w_plug w1"
    using messages_and_tics_commute [OF sample_server_wired sample_server_timed(2), of ?es 1 "\<lambda>_ _. []" "\<lambda>_. 0" sample_fm echo_com
        "[sample_node ''a'' 0]" ?w sample_parse] by auto
  ultimately have "s1\<lparr>sv_nodes := sv_nodes s2, sv_forwarded := sv_forwarded s2\<rparr> = s1\<lparr>sv_nodes := [sample_node ''a'' 1]\<rparr>"
    by simp
  with 1 show ?thesis by metis
qed

section \<open>Configuration and plugins\<close>

text \<open>
  C14. Every sequence of registrations and role changes on a new plugin manager keeps its
  invariant: the map is sorted by address, no two plugins share a name, and the role of a plugin is
  within its capabilities.
\<close>

theorem plugin_manager_invariant:
  assumes "pm_ops h ops new_pm = Inr s"
  shows "sorted_wrt (<) (map fst (pm_plugins s))
    \<and> distinct (map (\<lambda>(p, role). pl_name (h p)) (pm_plugins s))
    \<and> (\<forall>(p, role) \<in> set (pm_plugins s). pl_type (h p) AND role = role)"
  using pm_ops_inv [OF new_pm_inv assms] by (simp add: pm_inv_def list_all_iff case_prod_beta')

theorem plugin_manager_invariant_witness:
  "\<exists>s. pm_ops (sample_heap :: unit pheap) [Register 2, Register 1, Register 2, Add_role (Some 1) 4, Set_role (Some 1) 8] new_pm = Inr s
     \<and> (\<forall>(p, role) \<in> set (pm_plugins s). pl_type (sample_heap p :: unit plugin) AND role = role)"
proof -
  obtain s where s: "pm_ops (sample_heap :: unit pheap)
      [Register 2, Register 1, Register 2, Add_role (Some 1) 4, Set_role (Some 1) 8] new_pm = Inr s"
    by (simp add: new_pm_def register_plugin_def pm_logf_def get_by_name_def sample_heap_def add_role_def
        set_role_def update_role_def Let_def)
  then show ?thesis using plugin_manager_invariant [OF s] by blast
qed

text \<open>
  C15. The lookup by name after any registrations on a new plugin manager: the first plugin that
  asked for the name.
\<close>

theorem first_registration_wins:
  "get_by_name h name (fold (\<lambda>p s. snd (register_plugin h p s)) ps new_pm) = find (\<lambda>p. pl_name (h p) = name) ps"
  using pmr.lookup_reg_all [OF new_pm_inv, of h name ps] by (simp add: pmr.reg_all_def get_by_name_def new_pm_def)

text \<open>
  C16. The lookup by role returns the plugin with the lowest address among those that have all
  the roles asked for, a capable one, and NULL only when there is none.
\<close>

theorem lookup_by_role:
  assumes "pm_inv h s"
  shows "case get_by_type t s of
      Some p \<Rightarrow> pl_type (h p) AND t = t
        \<and> (\<exists>role. (p, role) \<in> set (pm_plugins s) \<and> role AND t = t)
        \<and> (\<forall>(q, role) \<in> set (pm_plugins s). role AND t = t \<longrightarrow> p \<le> q)
    | None \<Rightarrow> \<forall>(p, role) \<in> set (pm_plugins s). role AND t \<noteq> t"
proof (cases "get_by_type t s")
  case None
  then show ?thesis using get_by_type_None [of t s] by simp
next
  case (Some p)
  have "sorted_wrt (<) (map fst (pm_plugins s))" using assms by (simp add: pm_inv_def)
  with get_by_type_Some [OF Some] get_by_type_capable [OF assms Some] Some show ?thesis by fastforce
qed

theorem lookup_by_role_witness:
  "\<exists>s. pm_ops (sample_heap :: unit pheap) [Register 2, Register 1, Add_role (Some 2) 4] new_pm = Inr s
     \<and> get_by_type 4 s = Some 2 \<and> (\<forall>(q, role) \<in> set (pm_plugins s). role AND 4 = 4 \<longrightarrow> 2 \<le> q)"
proof -
  obtain s where s: "pm_ops (sample_heap :: unit pheap) [Register 2, Register 1, Add_role (Some 2) 4] new_pm = Inr s"
    "get_by_type 4 s = Some 2"
    by (simp add: new_pm_def register_plugin_def pm_logf_def get_by_name_def sample_heap_def add_role_def
        update_role_def get_by_type_def Let_def)
  with lookup_by_role [OF pm_ops_inv [OF new_pm_inv s(1)], of 4] show ?thesis by auto
qed

text \<open>
  C17. Behind a configuration file that was loaded, with libraries whose \<open>init\<close> keeps the plugin
  manager's invariant, the plugins chosen for the roles are registered and capable, so that the calls
  of \<open>add_role\<close> in \<open>main\<close> never throw and give every chosen plugin exactly its role in addition.
\<close>

theorem configured_roles_are_granted:
  assumes "well_behaved h dlmopen" "pm_inv h (w_pm w)"
    and "load_config h dlmopen dlerror files file (new_config, w) = Inr (0, conf, w')"
  shows "config_inv h conf (registered (w_pm w'))
    \<and> add_roles h (configured_roles conf) (w_pm w') = Inr (roles_granted conf (w_pm w'))"
proof -
  have "config_inv h conf (registered (w_pm w'))" using load_config_inv [OF assms] by blast
  then show ?thesis using add_roles_configured by blast
qed

theorem configured_roles_are_granted_witness:
  "\<exists>conf w'. load_config sample_heap (shipped_loader sample_heap 1 2 (\<lambda>_. True) (\<lambda>_. Some [])) []
       (\<lambda>_. Some sample_config_text) ''c'' (new_config, \<lparr>w_pm = new_pm, w_plug = ((), None)\<rparr>) = Inr (0, conf, w')
     \<and> cf_fault_manager conf = Some 2
     \<and> config_inv (sample_heap :: (unit \<times> replay option) world pheap) conf (registered (w_pm w'))"
proof -
  let ?h = "sample_heap :: (unit \<times> replay option) world pheap"
  let ?r = "load_config ?h (shipped_loader ?h 1 2 (\<lambda>_. True) (\<lambda>_. Some [])) []
       (\<lambda>_. Some sample_config_text) ''c'' (new_config, \<lparr>w_pm = new_pm, w_plug = ((), None)\<rparr>)"
  have "case ?r of Inl _ \<Rightarrow> False | Inr (r, conf, w') \<Rightarrow> r = 0 \<and> cf_fault_manager conf = Some 2"
    by code_simp
  then obtain conf w' where "?r = Inr (0, conf, w')" "cf_fault_manager conf = Some 2"
    by (auto split: sum.splits prod.splits)
  with configured_roles_are_granted [OF shipped_loader_well_behaved _ this(1)] new_pm_inv show ?thesis by auto
qed

text \<open>
  C18. The text of a configuration (libraries with their arguments, the plugins of the roles by name, the
  length of a tic), written for plugins that the libraries register, is read back to this configuration;
  besides loading the libraries, reading it only logs the lines.
\<close>

theorem configuration_reads_back:
  assumes "files name = Some (config_text h libs conf)"
    and "list_all lib_ok libs" "load_libs dlmopen dlerror libs (log_line ''[libs]'' w) = Some w1"
    and "pm_inv h (w_pm w1)" "config_inv h conf (registered (w_pm w1))" "names_ok h conf"
  shows "load_config h dlmopen dlerror files name (new_config, w) =
    Inr (0, conf\<lparr>cf_is_loaded := True\<rparr>, fold log_line (''[config]'' # config_fields h conf) w1)"
  using assms by (rule config_text_read)

theorem configuration_reads_back_witness:
  "\<exists>w1. load_libs (\<lambda>_. Some (\<lambda>n. Some (\<lambda>argv w. (0, w)))) [] [(''libx.so'', [''a'', ''b''])] (log_line ''[libs]'' sample_plugin_world) = Some w1
     \<and> load_config sample_server_heap (\<lambda>_. Some (\<lambda>n. Some (\<lambda>argv w. (0, w)))) []
         (\<lambda>_. Some (config_text sample_server_heap [(''libx.so'', [''a'', ''b''])] sample_config)) ''f'' (new_config, sample_plugin_world)
       = Inr (0, sample_config, fold log_line (''[config]'' # config_fields sample_server_heap sample_config) w1)"
proof -
  let ?dl = "(\<lambda>_. Some (\<lambda>n. Some (\<lambda>argv w. (0, w)))) :: (unit \<times> unit) loader" and ?libs = "[(''libx.so'', [''a'', ''b''])]"
  obtain w1 where w1: "load_libs ?dl [] ?libs (log_line ''[libs]'' sample_plugin_world) = Some w1"
    "pm_plugins (w_pm w1) = pm_plugins (w_pm sample_plugin_world)"
    by (simp add: load_library_def library_open_def new_library_def get_sym_addr_def)
  have "list_all lib_ok ?libs"
    by (simp add: lib_ok_def token_ok_def isspace_def get_token_identifyer_def tokenids_def strcasecmp_eq_def tolower_def)
  moreover have "pm_inv sample_server_heap (w_pm w1)" "config_inv sample_server_heap sample_config (registered (w_pm w1))"
    using sample_plugin_ok w1(2) by (simp_all add: pm_inv_def registered_def)
  moreover have "sample_config\<lparr>cf_is_loaded := True\<rparr> = sample_config" by (simp add: sample_config_def)
  ultimately show ?thesis
    using configuration_reads_back [of "\<lambda>_. Some (config_text sample_server_heap ?libs sample_config)" "''f''" sample_server_heap ?libs
        sample_config ?dl "[]" sample_plugin_world w1] w1(1) sample_plugin_ok(3) by simp
qed

text \<open>
  C19. Whatever the configuration file is, a server that was initialised with what was read from it has
  function tables of registered plugins only, each of a plugin that declares the capability of the role
  it is used in.
\<close>

theorem server_uses_capable_plugins:
  assumes "well_behaved h dlmopen" "pm_inv h (w_pm w)"
    and "load_config h dlmopen dlerror files name (new_config, w) = Inr (r, conf, w1)"
    and "server_init h conf w2 = (Srv_ok s, w3)"
  shows "\<exists>pa pn pf. {pa, pn, pf} \<subseteq> registered (w_pm w1)
    \<and> HAS_PL_TYPE (h pa) PL_COM_ACTOR \<and> pl_c (h pa) = Some (sv_com_actor s)
    \<and> HAS_PL_TYPE (h pn) PL_COM_EXTERN \<and> pl_c (h pn) = Some (sv_com_notify s)
    \<and> HAS_PL_TYPE (h pf) PL_FAULT_MANAGER \<and> pl_fm (h pf) = Some (sv_manager s)"
proof -
  have inv: "config_inv h conf (registered (w_pm w1))" using load_config_inv [OF assms(1-3)] by blast
  from assms(4) obtain pa pn pf where "cf_com_actor conf = Some pa" "cf_com_notify conf = Some pn" "cf_fault_manager conf = Some pf"
    "pl_c (h pa) = Some (sv_com_actor s)" "pl_c (h pn) = Some (sv_com_notify s)" "pl_fm (h pf) = Some (sv_manager s)"
    by (auto simp: server_init_def Let_def split: prod.splits if_splits option.splits nodes_result.splits)
  with inv show ?thesis by (intro exI [of _ pa] exI [of _ pn] exI [of _ pf]) (simp add: config_inv_def capable_def)
qed

theorem server_uses_capable_plugins_witness:
  "\<exists>w1 s w3. load_config sample_server_heap (\<lambda>_. None) [] (\<lambda>_. Some (config_text sample_server_heap [] sample_config)) ''f''
       (new_config, sample_plugin_world) = Inr (0, sample_config, w1)
     \<and> server_init sample_server_heap sample_config w1 = (Srv_ok s, w3)
     \<and> (\<exists>pf \<in> registered (w_pm w1). pl_fm (sample_server_heap pf) = Some (sv_manager s))"
proof -
  let ?files = "\<lambda>_ :: string. Some (config_text sample_server_heap [] sample_config)"
  have "sample_config\<lparr>cf_is_loaded := True\<rparr> = sample_config" by (simp add: sample_config_def)
  then obtain w1 where w1: "load_config sample_server_heap (\<lambda>_. None) [] ?files ''f'' (new_config, sample_plugin_world) = Inr (0, sample_config, w1)"
    using config_text_read [of ?files "''f''" sample_server_heap "[]" sample_config "\<lambda>_. None" "[]" sample_plugin_world
        "log_line ''[libs]'' sample_plugin_world"] sample_plugin_ok by simp
  moreover have "post_inits sample_server_heap ps w = (True, w)" for ps and w :: "(unit \<times> unit) world"
    by (induction ps) (simp_all add: sample_server_heap_def)
  then obtain s w3 where init: "server_init sample_server_heap sample_config w1 = (Srv_ok s, w3)"
    by (simp add: server_init_def sample_config_def sample_server_heap_def connect_backchannel_def Let_def)
  moreover have "well_behaved sample_server_heap (\<lambda>_. None)" by (simp add: well_behaved_def)
  ultimately show ?thesis using server_uses_capable_plugins [OF _ sample_plugin_ok(1) w1(1) init] by blast
qed



section \<open>Command line and logging\<close>

text \<open>C21. The options of the server: the canonical command line of a set of options parses back to it.\<close>

theorem options_parse_back:
  "options_parse (options_argv o') new_options = (0, [], o')"
  by (rule options_roundtrip)

text \<open>
  C22. The two loggers write the same text: of any calls exactly those at or above the minimum
  level, in their order, one line each.
\<close>

theorem loggers_agree:
  assumes "ll_min s = fl_lvl f" "cerr s = fl_file f"
  shows "cerr (run_log log_stdout calls s) = fl_file (run_log logging_fun calls f)
    \<and> cerr (run_log log_stdout calls s) = cerr s
        @ concat (map (\<lambda>(l, m). stdout_prefix l @ '' '' @ m @ [newline]) (filter (\<lambda>(l, m). ll_min s \<le> l) calls))"
  using assms by (simp add: slog.run_log_written flog.run_log_written prefix_eq)

theorem loggers_agree_witness:
  "cerr (run_log log_stdout [(LL_Debug, ''a''), (LL_Error, ''b'')] \<lparr>ll_min = LL_Warning, cerr = []\<rparr>) = ''[ERROR] b'' @ [newline]
   \<and> fl_file (run_log logging_fun [(LL_Debug, ''a''), (LL_Error, ''b'')] \<lparr>fl_lvl = LL_Warning, fl_file = []\<rparr>)
     = ''[ERROR] b'' @ [newline]"
  using loggers_agree [of "\<lparr>ll_min = LL_Warning, cerr = []\<rparr>" "\<lparr>fl_lvl = LL_Warning, fl_file = []\<rparr>"
      "[(LL_Debug, ''a''), (LL_Error, ''b'')]"]
  by (auto simp: less_eq_log_level_def)

section \<open>Memory of the fault managers and the end of the program\<close>

text \<open>
  C23. The replay plugin on its memory, from \<open>get_nodes\<close> over \<open>n\<close> tics to \<open>cleanup\<close>, for every file: it reports
  the faults of the functional model, gives up with the same code, and touches a null pointer exactly
  where the model says so; no freed block is used and none is freed twice. What was allocated before
  stays, and of its own blocks it leaves one behind for the array of the nodes and two for every node,
  plus one for each component.
\<close>

theorem replay_memory_refines:
  assumes "heap_ok h"
  shows "case replay_get_nodes (file_env env) (replay_start input) of
      (Nodes ns, r) \<Rightarrow> \<exists>h'. rc_session env n input h = Some (Inr (fst (fm_run (replay_fm (file_env env)) n r), h'))
        \<and> hp_mem h \<subseteq>\<^sub>m hp_mem h' \<and> card (dom (hp_mem h') - dom (hp_mem h)) = 1 + (\<Sum>nd\<leftarrow>ns. 2 + length (components nd))
    | (Nodes_error e, r) \<Rightarrow> rc_session env n input h = Some (Inl e)
    | (Nodes_crash, r) \<Rightarrow> rc_session env n input h = None"
proof -
  obtain res r where res: "replay_get_nodes (file_env env) (replay_start input) = (res, r)" by fastforce
  show ?thesis
    using session_refines [OF assms, of env n input] session_leaks [OF assms, of env input _ r n]
    by (cases res) (simp_all add: res)
qed

theorem replay_memory_refines_witness:
  "\<exists>fss h'. rc_session sample_file_env 2 sample_recording sample_memory = Some (Inr (fss, h'))
     \<and> hp_mem sample_memory \<subseteq>\<^sub>m hp_mem h' \<and> card (dom (hp_mem h') - dom (hp_mem sample_memory)) = 3"
proof -
  obtain r where "replay_get_nodes (file_env sample_file_env) (replay_start sample_recording) = (Nodes (replayed_nodes 0 [mn_p (new_node 0)]), r)"
    using sample_recording_nodes by blast
  with replay_memory_refines [OF sample_memory_ok, where env = sample_file_env and input = sample_recording and n = 2] show ?thesis
    by (auto simp: replayed_node_def new_node_def numeral_3_eq_3)
qed

text \<open>
  C24. The random plugin on its memory, from \<open>init\<close> over \<open>n\<close> tics to \<open>cleanup\<close>: it reports the faults of the
  functional model and uses no freed block, although a fault shares the name of its node; when no
  allocation fails the memory is in the end as it was before.
\<close>

theorem random_gives_memory_back:
  assumes "heap_ok h" "random_init alloc version argv (random_load g) = (ret, r, reg)"
  shows "if ret \<noteq> 0 then rm_session alloc rand version argv n g h = Some (Inl ret)
    else \<exists>h'. rm_session alloc rand version argv n g h = Some (Inr (fst (fm_run (random_fm alloc rand) n r), h'))
      \<and> hp_mem h \<subseteq>\<^sub>m hp_mem h' \<and> ((\<forall>g. fst (alloc g)) \<longrightarrow> hp_mem h' = hp_mem h)"
  by (rule random_session_refines [OF assms])

theorem random_gives_memory_back_witness:
  "\<exists>fss h'. rm_session sample_alloc (\<lambda>g. (0, g)) 7 [''1''] 3 () sample_memory = Some (Inr (fss, h')) \<and> hp_mem h' = hp_mem sample_memory"
proof -
  have "strtol_val 0 ''1'' = 1" by code_simp
  then obtain r reg where "random_init sample_alloc 7 [''1''] (random_load ()) = (0, r, reg)"
    by (simp add: random_init_def random_load_def rnd_logf_def)
  from random_gives_memory_back [OF sample_memory_ok this, of "\<lambda>g. (0, g)" 3] show ?thesis by auto
qed

text \<open>
  C25. The replay plugin on an arbitrary file: behind the nodes, the faults of all tics so far and those of
  the text not read yet are together the fault lines of the file in their order, so that none is lost or
  reported twice; the faults are numbered from 1 on.
\<close>

theorem replay_reports_every_line_once:
  assumes "replay_get_nodes env (replay_start txt) = (Nodes ns, s)" "fm_run (replay_fm env) n s = (fss, s')"
  shows "file_faults (rp_file s) = map fault_data (concat fss) @ file_faults (rp_file s')
    \<and> numbered 0 (concat fss) \<and> (rp_done s' \<longrightarrow> file_faults (rp_file s) = map fault_data (concat fss))"
proof -
  have "\<not> rp_done s" "rp_id s = 0" using get_nodes_start [OF assms(1)] by simp_all
  moreover have "file_faults [] = []" by (simp add: file_faults.simps getline_def)
  ultimately show ?thesis using replay_run_faults [of s env n fss s'] assms(2) by auto
qed

theorem replay_reports_every_line_once_witness:
  "\<exists>s fss s'. replay_get_nodes (file_env sample_file_env) (replay_start sample_recording) = (Nodes (replayed_nodes 0 [mn_p (new_node 0)]), s)
     \<and> fm_run (replay_fm (file_env sample_file_env)) 2 s = (fss, s')
     \<and> file_faults (rp_file s) = map fault_data (concat fss) @ file_faults (rp_file s')"
proof -
  obtain s where s: "replay_get_nodes (file_env sample_file_env) (replay_start sample_recording) = (Nodes (replayed_nodes 0 [mn_p (new_node 0)]), s)"
    using sample_recording_nodes by blast
  moreover obtain fss s' where run: "fm_run (replay_fm (file_env sample_file_env)) 2 s = (fss, s')" by fastforce
  ultimately show ?thesis using replay_reports_every_line_once [OF s run] by blast
qed



section \<open>The wire and the node\<close>

text \<open>
  The wire format: the topic and the payload that the server publishes for a fault are
  decoded by the client to its component and its severity, all 32 bits of it.
\<close>

theorem wire_format_roundtrip:
  assumes "topic_safe n" "\<forall>p. c = Some p \<longrightarrow> topic_safe p"
  shows "decode_fault (mosq_topic n c, mosq_payload sev) = \<lparr>flt_component = c, flt_severity = sev\<rparr>"
  using decode_mosq_message [OF assms] by (simp add: mosq_message_def)

theorem wire_format_roundtrip_witness:
  "decode_fault (''envelope/n1/net'', ''0x64'') = \<lparr>flt_component = Some ''net'', flt_severity = 100\<rparr>"
proof -
  have "mosq_payload 100 = ''0x64''"
    by (simp add: mosq_payload_def show_hex_def show_base.simps digit_char_def) code_simp
  then show ?thesis
    using wire_format_roundtrip [of "''n1''" "Some ''net''" 100] by (simp add: topic_safe_def mosq_topic_def)
qed

text \<open>
  The topics separate the nodes: a client's subscription gets the messages for its own node,
  with and without a component, and neither those for other nodes, not even for nodes whose names
  extend its own, nor the external messages.
\<close>

theorem subscriptions_separate_nodes:
  assumes "mqtt_wildcard route" "node_name_ok n" "topic_safe m"
  shows "(route (subscription n) (mosq_topic m c) \<longleftrightarrow> m = n) \<and> \<not> route (subscription n) ''envelope/lausim''"
  using route_mosq_topic [OF assms] route_extern [OF assms(1,2)] by blast

theorem subscriptions_separate_nodes_witness:
  "sample_route (subscription ''node1'') (mosq_topic ''node1'' (Some ''net''))
   \<and> \<not> sample_route (subscription ''node1'') (mosq_topic ''node10'' None)"
  using subscriptions_separate_nodes [OF sample_route_wildcard, of "''node1''" "''node1''" "Some ''net''"]
    subscriptions_separate_nodes [OF sample_route_wildcard, of "''node1''" "''node10''" None]
  by (simp add: node_name_ok_def topic_safe_def)





text \<open>
  The client writes one line per fault, whatever the grouping of the messages into rounds is:
  the first fault gives the empty line that starts the application, the others their commands, and a
  request to stop the line \<open>exit\<close>. The loop returns.
\<close>

theorem client_writes_commands:
  assumes "runs_batches loop usable i batches" "mt_con (cl_mqtt cl)" "mt_faults (cl_mqtt cl) = []"
    and "\<forall>j < length batches. \<not> req_stop (k + j)" "req_stop (k + length batches)"
  shows "\<exists>cl'. client_loop usable strerror loop req_stop k i cl = Some (Client_exit 0 cl')
    \<and> cl_fifo cl' = cl_fifo cl @ fifo_text (cl_synced cl) (map decode_fault (concat batches)) @ ''exit'' @ [newline]"
  by (rule client_loop_fifo [OF assms])

theorem client_writes_commands_witness:
  "\<exists>cl'. client_loop (\<lambda>n. 16 * n) (\<lambda>_. []) (\<lambda>i. if i = 0 then (0, [(''envelope/a'', ''0x0'')]) else (0, []))
      (\<lambda>k. k = 1) 0 0 \<lparr>cl_mqtt = mqtt_load\<lparr>mt_con := True\<rparr>, cl_synced = False, cl_fifo = [], cl_out = []\<rparr>
      = Some (Client_exit 0 cl') \<and> cl_fifo cl' = [newline] @ ''exit'' @ [newline]"
  using client_writes_commands [OF one_batch [of "\<lambda>n. 16 * n" "[(''envelope/a'', ''0x0'')]"],
      of "\<lparr>cl_mqtt = mqtt_load\<lparr>mt_con := True\<rparr>, cl_synced = False, cl_fifo = [], cl_out = []\<rparr>" "\<lambda>k. k = 1" 0 "\<lambda>_. []"]
  by (simp add: array_fits_def sizeof_fault_def mqtt_load_def fifo_text_def)

text \<open>
  C29. The backend performs the commands in their order: for the lines the client writes, the loop
  returns, and it calls \<open>set_state\<close> with the subsystem and the severity of each fault.
\<close>

theorem backend_performs_commands:
  assumes "\<forall>i. sel i = (False, True)" "\<forall>f \<in> set fs. subsystem f \<noteq> None"
  shows "backend_loop mth sel i cmd (concat (map fault_command fs) @ ''exit'' @ [newline]) b =
    Some (run_calls mth (map (\<lambda>f. (the (subsystem f), scast (flt_severity f))) fs) b)"
  using backend_loop_commands [OF assms, of mth i cmd b] by (simp add: fault_call_def [abs_def])

theorem backend_performs_commands_witness:
  "backend_loop privileged_method (\<lambda>_. (False, True)) 0 0 (''net 1'' @ [newline] @ ''exit'' @ [newline])
     \<lparr>prv_net_status = 0, prv_close_fds = (3, 4), prv_closed = []\<rparr>
   = Some (Main_returned 0 \<lparr>prv_net_status = 0, prv_close_fds = (3, 4), prv_closed = []\<rparr>)"
proof -
  have "fault_command \<lparr>flt_component = Some ''net'', flt_severity = 1\<rparr> = ''net 1'' @ [newline]"
    by (simp add: fault_command_def) code_simp
  then show ?thesis
    using backend_performs_commands [of "\<lambda>_. (False, True)" "[\<lparr>flt_component = Some ''net'', flt_severity = 1\<rparr>]"
        privileged_method 0 0 "\<lparr>prv_net_status = 0, prv_close_fds = (3, 4), prv_closed = []\<rparr>"]
    by (simp add: subsystem_def prv_set_state_def prv_switch_net_def prv_cleanup_def)
qed










text \<open>
  C35. After a network fault the preloaded library is broken, once the application had a
  socket: the next socket reallocates the block that was freed, and when the network recovers, the
  next network fault frees it again.
\<close>

theorem socket_list_used_after_free:
  assumes "pre_fds s = Fds_block xs" "pre_net_state s = 0" "severity \<noteq> 0"
  shows "\<exists>s1 s2. pre_switch_net severity s = Some (0, s1) \<and> pre_switch_net 0 s1 = Some (0, s2)
    \<and> (\<forall>usable sock. 0 \<le> sock \<longrightarrow> add_sock_to_list usable sock s1 = None)
    \<and> pre_switch_net severity s2 = None"
proof -
  obtain s1 where s1: "pre_switch_net severity s = Some (0, s1)" "pre_net_state s1 = 1"
    using switch_net_fail [OF assms(2,3)] assms(1) by auto
  then obtain s2 where "pre_switch_net 0 s1 = Some (0, s2)" by (simp add: pre_switch_net_def)
  with s1 preload_use_after_free [OF assms s1(1)] show ?thesis by blast
qed

theorem socket_list_used_after_free_witness:
  "\<exists>s1 s2. pre_switch_net 100 (preload_load\<lparr>pre_fds := Fds_block [3]\<rparr>) = Some (0, s1)
     \<and> pre_switch_net 0 s1 = Some (0, s2) \<and> add_sock_to_list (\<lambda>n. 1000) 4 s1 = None \<and> pre_switch_net 100 s2 = None"
  using socket_list_used_after_free [of "preload_load\<lparr>pre_fds := Fds_block [3]\<rparr>" "[3]" 100]
  by (auto simp: preload_load_def)

text \<open>
  The client's array of faults is too small: with an allocator that gives no more than it
  was asked for, as the C standard allows, the first message is written behind the block.
\<close>

theorem client_fault_array_overflows:
  assumes "mt_faults s = []" "mt_con s" "snd (loop i) \<noteq> []"
  shows "get_faults (\<lambda>n. n) strerror loop i s = Some (Suc i, Overflow)"
proof -
  obtain m ms where "snd (loop i) = m # ms" using assms(3) by (cases "snd (loop i)") auto
  then have "mqtt_messages (\<lambda>n. n) (snd (loop i)) (s\<lparr>mt_rcv := False\<rparr>) = None"
    using assms(1) by (simp add: mqtt_on_message_def mt_print_def sizeof_fault_def Let_def)
  with assms(2) show ?thesis by (simp add: get_faults_def receive.simps)
qed

theorem client_fault_array_overflows_witness:
  "get_faults (\<lambda>n. n) (\<lambda>_. []) (\<lambda>_. (0, [(''envelope/a'', ''0x0'')])) 0 (mqtt_load\<lparr>mt_con := True\<rparr>) = Some (1, Overflow)"
  using client_fault_array_overflows [of "mqtt_load\<lparr>mt_con := True\<rparr>" "\<lambda>_. (0, [(''envelope/a'', ''0x0'')])" 0 "\<lambda>_. []"]
  by (simp add: mqtt_load_def)



text \<open>
  The wait for the nodes ends with the first read of a set \<open>termreq\<close> or the first round in which
  the messages received so far have made all nodes ready, and in no earlier round.
\<close>

theorem wait_for_nodes_ends:
  assumes "\<forall>j<n. \<not> termreq j \<and> \<not> all_nodes_ready (fst (on_messages parse (received inbox 0 (Suc j)) sw))"
    and "termreq n \<or> all_nodes_ready (fst (on_messages parse (received inbox 0 (Suc n)) sw))"
  shows "wait_ready parse inbox termreq 0 sw =
    Some (n + 1, on_messages parse (received inbox 0 (if termreq n then n else Suc n)) sw)"
  using wait_ready_returns [of n termreq 0 parse inbox sw] assms by simp

theorem wait_for_nodes_ends_witness:
  "\<exists>sw. wait_ready sample_parse (\<lambda>i. if i = 1 then [''a''] else []) (\<lambda>_. False) 0
      (sample_server sample_fm echo_com [sample_node ''a'' 0] 0, sample_world sample_random sample_echo)
      = Some (2, sw) \<and> all_nodes_ready (fst sw)"
  using wait_for_nodes_ends [of 1 "\<lambda>_. False" sample_parse "\<lambda>i. if i = 1 then [''a''] else []"
      "(sample_server sample_fm echo_com [sample_node ''a'' 0] 0, sample_world sample_random sample_echo)"]
  by (auto simp: sample_server_def sample_node_def sample_parse_def ready_message_def on_message_def
      all_nodes_ready_def set_node_state_def numeral_2_eq_2 Let_def)



text \<open>
  Messages of other types are never forwarded: the server that comes out of \<open>init\<close> has no
  callback for them, and no message gives it one. \<open>init\<close> starts at tic 0 with the configured tic
  length.
\<close>

theorem other_messages_are_dropped:
  assumes "server_init h conf w = (Srv_ok s, w1)"
  shows "sv_forwarded (fst (on_messages parse msgs (s, w2))) = []
    \<and> sv_tic s = 0 \<and> sv_tic_length s = cf_tic_length conf \<and> sv_duration s = sint (cf_tic_length conf)"
proof -
  note s = server_init_ok(1-5) [OF assms]
  have "sv_forwarded (fst (on_messages parse msgs (s, w2))) = []" if "sv_other_cb s = None" "sv_forwarded s = []" for s
    using that
  proof (induction msgs arbitrary: s w2)
    case (Cons msg msgs)
    then show ?case
      using on_message_no_cb [of s parse msg w2] by (auto split: prod.splits option.splits)
  qed simp
  with s show ?thesis by blast
qed

theorem other_messages_are_dropped_witness:
  "\<exists>s w1. server_init sample_server_heap sample_config (sample_world () ()) = (Srv_ok s, w1)
     \<and> sv_forwarded (fst (on_messages (\<lambda>m. Some ((ready_message m)\<lparr>bc_msgtype := BC_OTHER\<rparr>)) [''x'', ''y''] (s, w1))) = []"
proof -
  obtain s w1 where init: "server_init sample_server_heap sample_config (sample_world () ()) = (Srv_ok s, w1)"
    by (simp add: server_init_def sample_server_heap_def sample_config_def sample_world_def w_logf_def pm_logf_def
        new_pm_def connect_backchannel_def Let_def)
  from other_messages_are_dropped [OF init] init show ?thesis by blast
qed

text \<open>
  The width of the name column in the table of plugins is the length of the first plugin's
  name, whatever the names of the others are.
\<close>

theorem name_column_has_first_width:
  assumes "pm_plugins s = (p, role) # rest"
  shows "hd (plugin_table h s) = snprintf 511 (pad_right (length (pl_name (h p))) ''Name'' @ '' CA CE MA LO TO OT'')"
  using assms by (simp add: plugin_table_def max_name_len_first all_plugins_def Let_def)

theorem name_column_has_first_width_witness:
  "hd (plugin_table (sample_heap :: unit pheap) (new_pm\<lparr>pm_plugins := [(1, 0), (200, 0)]\<rparr>)) = ''Name       CA CE MA LO TO OT''"
  using name_column_has_first_width [of "new_pm\<lparr>pm_plugins := [(1, 0), (200, 0)]\<rparr>" 1 0 "[(200, 0)]" "sample_heap :: unit pheap"]
  by (simp add: sample_heap_def pad_right_def snprintf_def)

text \<open>
  The launcher hands its options on: the application gets the library and the client its
  name, server and port.
\<close>

theorem launcher_hands_options_on:
  "launcher_main None (launcher_args name server port lib command) =
     (Launched \<lparr>la_preload = Some lib, la_command = command, la_client_argv = [''./client'', name, server, port]\<rparr>, [])"
  by (rule launcher_full)

text \<open>
  With any command line that has no option \<open>n\<close> but is otherwise complete, the launcher starts the
  client all the same: its argument list ends at the missing name and it gives up with its usage
  message.
\<close>

theorem launcher_without_name_fails_late:
  assumes "launcher_main ld_preload args = (Launched l, out)"
    and "CHR ''n'' \<notin> fst ` set (getopt launcher_optspec [] args)"
  shows "\<exists>cl. client_main ret mosq_new pack usable strerror loop req_stop True (la_client_argv l) = Some (Client_exit (- 1) cl)
    \<and> cl_out cl = ''usage: ./client name host port'' @ [newline]"
  by (simp add: launcher_no_name [OF assms] client_main_def)

theorem launcher_without_name_fails_late_witness:
  "\<exists>l cl. launcher_main None [''-l'', ''lib.so'', ''-c'', ''app''] = (Launched l, [])
     \<and> client_main (\<lambda>_ _. 0) True bc_nodename (\<lambda>n. n) (\<lambda>_. []) (\<lambda>_. (0, [])) (\<lambda>_. True) True (la_client_argv l) = Some (Client_exit (- 1) cl)"
proof -
  let ?args = "[''-l'', ''lib.so'', ''-c'', ''app'']"
  have "\<exists>l. launcher_main None ?args = (Launched l, [])"
    by (simp add: launcher_main_def is_option_def launcher_optspec_def default_opts_def)
  then obtain l where l: "launcher_main None ?args = (Launched l, [])" by blast
  moreover have "CHR ''n'' \<notin> fst ` set (getopt launcher_optspec [] ?args)"
    by (simp add: is_option_def launcher_optspec_def)
  ultimately show ?thesis
    using launcher_without_name_fails_late [OF l, of "\<lambda>_ _. 0" True bc_nodename "\<lambda>n. n" "\<lambda>_. []" "\<lambda>_. (0, [])" "\<lambda>_. True"]
    by blast
qed



text \<open>
  Connecting a socket keeps the descriptors in order: success gives the object the new
  descriptor, failure leaves the object without one and closes what was opened.
\<close>

theorem socket_connect_keeps_descriptors:
  assumes "sk_sd s = - 1" "sd \<notin> fds" "sock_connect lookup sd conn (s, fds) = (r, s', fds')"
  shows "if r = 0 then sk_sd s' = sd \<and> 0 \<le> sd \<and> fds' = insert sd fds else sk_sd s' = - 1 \<and> fds' = fds"
  by (rule sock_connect_result [OF assms])

theorem socket_connect_keeps_descriptors_witness:
  "\<exists>r s'. sock_connect True 5 (- 1) (new_sock, {0, 1, 2}) = (r, s', {0, 1, 2}) \<and> r \<noteq> 0 \<and> sk_sd s' = - 1"
  using socket_connect_keeps_descriptors [of new_sock 5 "{0, 1, 2}" True "- 1"]
  by (auto simp: new_sock_def sock_connect_def)

text \<open>A copied socket never holds the descriptor it duplicated: that descriptor leaks.\<close>

theorem socket_copy_leaks:
  assumes "copy_sock dup s fds = Some (c, fds')"
  shows "sk_sd c = 0 \<and> dup \<in> fds' \<and> delete_sock c fds' = fds'"
  by (rule copy_sock_leaks [OF assms])

theorem socket_copy_leaks_witness:
  "copy_sock 7 (new_sock\<lparr>sk_sd := 5\<rparr>) {5} = Some (new_sock\<lparr>sk_sd := 0\<rparr>, {7, 5})
   \<and> delete_sock (new_sock\<lparr>sk_sd := 0\<rparr>) {7, 5} = {7, 5}"
proof -
  have "copy_sock 7 (new_sock\<lparr>sk_sd := 5\<rparr>) {5} = Some (new_sock\<lparr>sk_sd := 0\<rparr>, {7, 5})"
    by (simp add: copy_sock_def)
  with socket_copy_leaks [OF this] show ?thesis by blast
qed

section \<open>The whole server program\<close>

text \<open>
  C39. The program from its command line to its exit: when the options name a configuration and a
  number of tics, the configuration is read and names plugins for all roles, and the server can be
  initialised, the program exits with 0 after that number of tics. If it was told to synchronise, it waits
  for its nodes before that; it gets past the wait when the messages it receives make all nodes ready. Its
  communication plugins have then got the start signal for every node, if it was told to synchronise, and
  after it exactly the deliveries of the faults of these tics; the clean-up of all plugins follows.
\<close>

theorem program_runs_to_exit:
  assumes options: "options_parse (tl argv) new_options = (0, err, opts)" "op_cfile opts \<noteq> []"
      "op_max_tics opts \<noteq> 0"
    and libraries: "well_behaved h dlmopen" "pm_inv h (w_pm w)"
    and config: "load_config h dlmopen dlerror files (op_cfile opts) (new_config, at_config opts w) = Inr (0, conf, w2)"
      "cf_com_actor conf = Some pa" "cf_com_notify conf = Some pn" "cf_fault_manager conf = Some pf"
      "\<forall>p. cf_logger conf = Some p \<longrightarrow> pl_lf (h p)" "cf_tic_length conf < 2 ^ 63"
    and plugins: "pl_c (h pa) = Some (world_com actor)" "pl_c (h pn) = Some (world_com notify)"
      "pl_fm (h pf) = Some (world_manager fm)"
    and init: "server_init h conf (at_init conf opts w2) = (Srv_ok s, w4)"
    and sync: "op_sync opts \<longrightarrow> nodes_report parse inbox (sv_nodes s)"
    and run: "fm_run fm (unat (op_max_tics opts)) (fst (w_plug w4)) = (fss, m)" "\<forall>j. \<not> termreq j"
  shows "\<exists>w'. main_fun h dlmopen dlerror files parse serialize clock inbox termreq argv w = Some (Exit 0, pm_cleanup h w')
    \<and> w_plug w' = (m, fold (deliver serialize actor notify) (map (map fault_data) fss)
                        (start_signals opts actor (sv_nodes s) (snd (w_plug w4))))"
proof -
  have wired: "wired fm actor notify s"
    using server_init_ok(6-8) [OF init] config(2-4) plugins by (auto simp: wired_def)
  have timed: "well_timed s"
    using server_init_ok(4,5) [OF init] config(6) by (intro well_timed_tic_length) simp_all
  show ?thesis
    using main_fun_configured [OF options(1,2) libraries config(1,5), of parse serialize clock inbox termreq] init
      serve_runs [OF wired timed options(3) run(2) sync run(1), of h serialize clock]
    by auto
qed

theorem program_runs_to_exit_witness:
  "\<exists>w'. main_fun (re_heap sample_alloc (\<lambda>g. (0, g))) (re_loader sample_alloc (\<lambda>g. (0, g))) [] (\<lambda>_. Some re_config_text)
      sample_parse (\<lambda>a b. concat a) (\<lambda>_. 0) (\<lambda>i. if i = 2 then [''node0''] else []) (\<lambda>_. False)
      [''lauSim'', ''-c'', ''f'', ''-s'', ''-n'', ''1''] re_world
      = Some (Exit 0, pm_cleanup (re_heap sample_alloc (\<lambda>g. (0, g))) w')"
proof -
  let ?h = "re_heap sample_alloc (\<lambda>g. (0, g))" and ?l = "re_loader sample_alloc (\<lambda>g. (0, g))"
  let ?o = "\<lparr>op_cfile = ''f'', op_loglevel = LL_Warning, op_sync = True, op_max_tics = 1\<rparr>"
  let ?inbox = "\<lambda>i :: nat. if i = 2 then [''node0''] else []"
  have opts: "options_parse (tl [''lauSim'', ''-c'', ''f'', ''-s'', ''-n'', ''1'']) new_options = (0, [], ?o)"
    by code_simp
  let ?r = "config_lines ?h ?l [] re_config_text (0, new_config, at_config ?o re_world)"
  have load: "load_config ?h ?l [] (\<lambda>_. Some re_config_text) (op_cfile ?o) (new_config, at_config ?o re_world) = ?r"
    by (simp add: load_config_def new_config_def)
  have "case ?r of Inl _ \<Rightarrow> False | Inr (r, conf, w2) \<Rightarrow> r = 0 \<and> cf_com_actor conf = Some 2 \<and> cf_com_notify conf = Some 2
      \<and> cf_fault_manager conf = Some 1 \<and> cf_logger conf = None \<and> cf_tic_length conf = 0
      \<and> (case server_init ?h conf (at_init conf ?o w2) of (Srv_ok s, w4) \<Rightarrow> map node_name (sv_nodes s) = [''node0''] | _ \<Rightarrow> False)"
    by code_simp
  then obtain conf w2 s w4 where c: "?r = Inr (0, conf, w2)" "cf_com_actor conf = Some 2" "cf_com_notify conf = Some 2"
    "cf_fault_manager conf = Some 1" "cf_logger conf = None" "cf_tic_length conf = 0"
    "server_init ?h conf (at_init conf ?o w2) = (Srv_ok s, w4)" "map node_name (sv_nodes s) = [''node0'']"
    by (auto split: sum.splits prod.splits srv_init.splits)
  obtain fss m where run: "fm_run sample_fm (unat (op_max_tics ?o)) (fst (w_plug w4)) = (fss, m)" by fastforce
  have plugins: "pl_c (?h 2) = Some (world_com echo_com)" "pl_fm (?h 1) = Some (world_manager sample_fm)"
    by (simp_all add: re_heap_def echo_plugin_def random_plugin_def)
  have "received ?inbox 0 (Suc 2) = [''node0'']" by (simp add: numeral_2_eq_2)
  then have ready: "nodes_report sample_parse ?inbox (sv_nodes s)"
    using c(8) unfolding nodes_report_def
    by (intro conjI exI [of _ 2]) (auto simp: reported_def sample_parse_def ready_message_def)
  show ?thesis
    using program_runs_to_exit [OF opts _ _ re_loader_well_behaved _ trans [OF load c(1)] c(2-4) _ _ plugins(1) plugins(1) plugins(2) c(7) _ run,
        where termreq = "\<lambda>_. False" and parse = sample_parse and serialize = "\<lambda>a b. concat a"
          and clock = "\<lambda>_. 0" and inbox = ?inbox] new_pm_inv [of ?h] c(5,6) ready
    by auto
qed



end
